(* ===== verification/Vost_Prelude.thy ===== *)
theory Vost_Prelude
  imports Main "HOL-Library.Word" "HOL-Library.Char_ord" "HOL-Library.List_Lexorder"
    "HOL-Library.Sublist"
begin

text \<open>
  Shared vocabulary of the development: the result of a computation that may throw, the
  result of a computation that also changes the world, the loops over both, the fragment of
  the C++ standard library that several components use (\<^verbatim>\<open>std::getline\<close> tokenisation,
  \<^verbatim>\<open>std::string::rfind\<close>, \<^verbatim>\<open>std::map\<close>, \<^verbatim>\<open>std::to_string\<close>), bytes, and the lemmas about
  them that the component theories use through the simplifier.
\<close>

section \<open>Collections\<close>

named_theorems outcome_iff \<open>inversion of a computation that returned\<close>

section \<open>Bytes\<close>

type_synonym byte = "8 word"
type_synonym u32 = "32 word"
type_synonym u64 = "64 word"

text \<open>\<^verbatim>\<open>std::vector<uint8_t>(s.begin(), s.end())\<close> and \<^verbatim>\<open>std::string(v.begin(), v.end())\<close>.\<close>

definition byte_of_char :: "char \<Rightarrow> byte" where
  "byte_of_char c = word_of_nat (of_char c)"

definition char_of_byte :: "byte \<Rightarrow> char" where
  "char_of_byte b = char_of (unat b)"

definition to_bytes :: "string \<Rightarrow> byte list" where
  "to_bytes s = map byte_of_char s"

definition from_bytes :: "byte list \<Rightarrow> string" where
  "from_bytes bs = map char_of_byte bs"

lemma char_of_byte_of_char [simp]: "char_of_byte (byte_of_char c) = c"
  by (simp add: char_of_byte_def byte_of_char_def unat_of_nat)

lemma byte_of_char_of_byte [simp]: "byte_of_char (char_of_byte b) = b"
proof -
  have "unat b < 256"
    using unsigned_less [of b, where ?'a = nat] by simp
  then have "of_char (char_of (unat b)) = unat b"
    by (simp add: of_char_mod_256)
  then show ?thesis
    by (simp add: char_of_byte_def byte_of_char_def)
qed

lemma from_bytes_to_bytes [simp]: "from_bytes (to_bytes s) = s"
  by (simp add: from_bytes_def to_bytes_def comp_def)

lemma to_bytes_from_bytes [simp]: "to_bytes (from_bytes bs) = bs"
  by (simp add: from_bytes_def to_bytes_def comp_def)

lemma to_bytes_inject [simp]: "to_bytes s = to_bytes t \<longleftrightarrow> s = t"
  by (metis from_bytes_to_bytes)

lemma length_to_bytes [simp]: "length (to_bytes s) = length s"
  by (simp add: to_bytes_def)


section \<open>Computations that throw\<close>

text \<open>
  A C++ function that may throw is a sum: \<open>Inl\<close> the exception, \<open>Inr\<close> the value.
  \<open>ebind\<close> is the sequencing of two statements, the second of which is skipped when the
  first one throws.
\<close>

definition ebind :: "'e + 'a \<Rightarrow> ('a \<Rightarrow> 'e + 'b) \<Rightarrow> 'e + 'b" where
  "ebind m f = (case m of Inl e \<Rightarrow> Inl e | Inr x \<Rightarrow> f x)"

fun emap :: "('x \<Rightarrow> 'e + 'a) \<Rightarrow> 'x list \<Rightarrow> 'e + 'a list" where
  "emap f [] = Inr []"
| "emap f (x # xs) = ebind (f x) (\<lambda>y. ebind (emap f xs) (\<lambda>ys. Inr (y # ys)))"

lemma ebind_simps [simp]: "ebind (Inl e) f = Inl e" "ebind (Inr x) f = f x"
  by (simp_all add: ebind_def)

lemma ebind_Inr_iff [outcome_iff]: "ebind m f = Inr y \<longleftrightarrow> (\<exists>x. m = Inr x \<and> f x = Inr y)"
  by (cases m) auto

lemma ebind_Inl_iff: "ebind m f = Inl e \<longleftrightarrow> m = Inl e \<or> (\<exists>x. m = Inr x \<and> f x = Inl e)"
  by (cases m) auto

lemma emap_Inr_iff: "emap f xs = Inr ys \<longleftrightarrow> list_all2 (\<lambda>x y. f x = Inr y) xs ys"
  by (induction xs arbitrary: ys) (auto simp: ebind_Inr_iff list_all2_Cons1)

lemma emap_Inl: "emap f xs = Inl e \<Longrightarrow> \<exists>x\<in>set xs. f x = Inl e"
  by (induction xs) (auto simp: ebind_Inl_iff)

lemma emap_total: "\<forall>x\<in>set xs. \<exists>y. f x = Inr y \<Longrightarrow> \<exists>ys. emap f xs = Inr ys"
  by (induction xs) auto

lemma emap_length: "emap f xs = Inr ys \<Longrightarrow> length ys = length xs"
  by (auto simp: emap_Inr_iff dest: list_all2_lengthD)

section \<open>Computations that throw and change the world\<close>

text \<open>
  An operation takes the world and returns its outcome together with the new world. What it
  changed before it threw stays changed, as in C++: the error outcome carries a world too.
\<close>

type_synonym ('e, 'r, 'a) op = "'r \<Rightarrow> ('e + 'a) \<times> 'r"

definition sreturn :: "'a \<Rightarrow> ('e, 'r, 'a) op" where
  "sreturn x = (\<lambda>r. (Inr x, r))"

definition sthrow :: "'e \<Rightarrow> ('e, 'r, 'a) op" where
  "sthrow e = (\<lambda>r. (Inl e, r))"

definition sread :: "('r \<Rightarrow> 'e + 'a) \<Rightarrow> ('e, 'r, 'a) op" where
  "sread f = (\<lambda>r. (f r, r))"

definition sbind :: "('e, 'r, 'a) op \<Rightarrow> ('a \<Rightarrow> ('e, 'r, 'b) op) \<Rightarrow> ('e, 'r, 'b) op" where
  "sbind m f = (\<lambda>r. case m r of (Inl e, r') \<Rightarrow> (Inl e, r') | (Inr x, r') \<Rightarrow> f x r')"

text \<open>A \<^verbatim>\<open>for\<close> loop over a vector that updates one variable.\<close>

fun sfold :: "('x \<Rightarrow> 'a \<Rightarrow> ('e, 'r, 'a) op) \<Rightarrow> 'x list \<Rightarrow> 'a \<Rightarrow> ('e, 'r, 'a) op" where
  "sfold f [] a = sreturn a"
| "sfold f (x # xs) a = sbind (f x a) (sfold f xs)"

text \<open>A \<^verbatim>\<open>for\<close> loop over a vector that pushes one result per element.\<close>

fun smap :: "('x \<Rightarrow> ('e, 'r, 'a) op) \<Rightarrow> 'x list \<Rightarrow> ('e, 'r, 'a list) op" where
  "smap f [] = sreturn []"
| "smap f (x # xs) = sbind (f x) (\<lambda>y. sbind (smap f xs) (\<lambda>ys. sreturn (y # ys)))"

lemma sreturn_apply [simp]: "sreturn x r = (Inr x, r)"
  by (simp add: sreturn_def)

lemma sthrow_apply [simp]: "sthrow e r = (Inl e, r)"
  by (simp add: sthrow_def)

lemma sread_apply [simp]: "sread f r = (f r, r)"
  by (simp add: sread_def)

lemma sbind_Inr_iff [outcome_iff]:
  "sbind m f r = (Inr y, r'') \<longleftrightarrow> (\<exists>x r'. m r = (Inr x, r') \<and> f x r' = (Inr y, r''))"
  by (auto simp: sbind_def split: prod.splits sum.splits)

lemma sbind_Inl_iff:
  "sbind m f r = (Inl e, r'') \<longleftrightarrow>
     m r = (Inl e, r'') \<or> (\<exists>x r'. m r = (Inr x, r') \<and> f x r' = (Inl e, r''))"
  by (auto simp: sbind_def split: prod.splits sum.splits)

lemma sbind_Inr [simp]: "m r = (Inr x, r') \<Longrightarrow> sbind m f r = f x r'"
  by (simp add: sbind_def)

lemma sbind_Inl [simp]: "m r = (Inl e, r') \<Longrightarrow> sbind m f r = (Inl e, r')"
  by (simp add: sbind_def)

text \<open>
  A reflexive and transitive relation between worlds that every step keeps is kept by a
  sequence and by the loops, whatever the outcome.
\<close>

definition keeps :: "('r \<Rightarrow> 'r \<Rightarrow> bool) \<Rightarrow> ('e, 'r, 'a) op \<Rightarrow> bool" where
  "keeps R m \<longleftrightarrow> (\<forall>r. R r (snd (m r)))"

lemma keepsI [intro]: "(\<And>r. R r (snd (m r))) \<Longrightarrow> keeps R m"
  by (simp add: keeps_def)

lemma keepsD: "keeps R m \<Longrightarrow> m r = (x, r') \<Longrightarrow> R r r'"
  by (metis keeps_def snd_conv)

lemma keeps_mono: "keeps R m \<Longrightarrow> (\<And>r r'. R r r' \<Longrightarrow> S r r') \<Longrightarrow> keeps S m"
  by (simp add: keeps_def)

lemma keeps_pure:
  assumes "reflp R"
  shows "keeps R (Pair y)" "keeps R (sreturn x)" "keeps R (sthrow e)" "keeps R (sread f)"
  using assms by (auto simp: keeps_def reflp_def)

lemma keeps_sbind:
  assumes "transp R" "keeps R m" "\<And>x. keeps R (f x)"
  shows "keeps R (sbind m f)"
proof
  fix r
  obtain x r' where m: "m r = (x, r')" by fastforce
  have r': "R r r'" using assms(2) m by (rule keepsD)
  show "R r (snd (sbind m f r))"
  proof (cases x)
    case (Inl e)
    with m r' show ?thesis by simp
  next
    case (Inr y)
    obtain z r'' where f: "f y r' = (z, r'')" by fastforce
    have "R r' r''" using assms(3) f by (rule keepsD)
    with r' assms(1) have "R r r''" by (blast dest: transpD)
    with m Inr f show ?thesis by simp
  qed
qed

lemma keeps_sfold:
  assumes "reflp R" "transp R" "\<And>x a. x \<in> set xs \<Longrightarrow> keeps R (f x a)"
  shows "keeps R (sfold f xs a)"
  using assms(3)
proof (induction xs arbitrary: a)
  case Nil
  then show ?case using assms(1) by (simp add: keeps_pure)
next
  case (Cons x xs)
  then show ?case using assms(2) by (simp add: keeps_sbind)
qed

lemma keeps_smap:
  assumes "reflp R" "transp R" "\<And>x. x \<in> set xs \<Longrightarrow> keeps R (f x)"
  shows "keeps R (smap f xs)"
  using assms(3)
proof (induction xs)
  case Nil
  then show ?case using assms(1) by (simp add: keeps_pure)
next
  case (Cons x xs)
  then show ?case using assms(1,2) by (simp add: keeps_sbind keeps_pure)
qed

text \<open>The errors that a run of an operation can end with.\<close>

definition throws :: "('e \<Rightarrow> bool) \<Rightarrow> ('e, 'r, 'a) op \<Rightarrow> bool" where
  "throws E m \<longleftrightarrow> (\<forall>r e r'. m r = (Inl e, r') \<longrightarrow> E e)"

lemma throwsI [intro]: "(\<And>r e r'. m r = (Inl e, r') \<Longrightarrow> E e) \<Longrightarrow> throws E m"
  by (auto simp: throws_def)

lemma throwsD: "throws E m \<Longrightarrow> m r = (Inl e, r') \<Longrightarrow> E e"
  unfolding throws_def by blast

lemma throws_pure:
  "throws E (sreturn x)" "throws E (sthrow e) \<longleftrightarrow> E e"
  "throws E (sread f) \<longleftrightarrow> (\<forall>r e. f r = Inl e \<longrightarrow> E e)"
  by (auto simp: throws_def)

lemma throws_sbind: "throws E m \<Longrightarrow> (\<And>x. throws E (f x)) \<Longrightarrow> throws E (sbind m f)"
  by (rule throwsI) (auto simp: sbind_Inl_iff dest: throwsD)

lemma throws_sfold: "(\<And>x a. x \<in> set xs \<Longrightarrow> throws E (f x a)) \<Longrightarrow> throws E (sfold f xs a)"
  by (induction xs arbitrary: a) (auto simp: throws_pure intro: throws_sbind)

lemma throws_smap: "(\<And>x. x \<in> set xs \<Longrightarrow> throws E (f x)) \<Longrightarrow> throws E (smap f xs)"
  by (induction xs) (auto simp: throws_pure intro!: throws_sbind)

text \<open>A run that returned, as a test that can be evaluated.\<close>

definition returned :: "('e + 'a) \<times> 'r \<Rightarrow> bool" where
  "returned res = (case res of (Inr _, _) \<Rightarrow> True | _ \<Rightarrow> False)"

lemma returned_iff: "returned res \<longleftrightarrow> (\<exists>x r. res = (Inr x, r))"
  by (auto simp: returned_def split: prod.splits sum.splits)

lemma returnedE:
  assumes "returned res"
  obtains x r where "res = (Inr x, r)"
  using assms by (auto simp: returned_iff)

section \<open>Strings of the C++ standard library\<close>

text \<open>
  The tokens that repeated \<^verbatim>\<open>std::getline(stream, tok, d)\<close> reads from a string: a token ends
  at the delimiter or at the end of the input, and reading stops when no character is left
  (so a trailing delimiter yields no empty token, an inner or leading one does).
\<close>

function getlines :: "char \<Rightarrow> string \<Rightarrow> string list" where
  "getlines d s =
     (if s = [] then []
      else takeWhile (\<lambda>c. c \<noteq> d) s # getlines d (drop 1 (dropWhile (\<lambda>c. c \<noteq> d) s)))"
  by pat_completeness auto
termination
proof (relation "measure (\<lambda>(d, s). length s)", goal_cases)
  case (2 d s)
  have "length (dropWhile (\<lambda>c. c \<noteq> d) s) \<le> length s"
    by (rule length_dropWhile_le)
  with 2 show ?case by (cases s) auto
qed simp

declare getlines.simps [simp del]

lemma getlines_Nil [simp]: "getlines d [] = []"
  by (simp add: getlines.simps)

lemma getlines_nonempty: "s \<noteq> [] \<Longrightarrow> getlines d s =
    takeWhile (\<lambda>c. c \<noteq> d) s # getlines d (drop 1 (dropWhile (\<lambda>c. c \<noteq> d) s))"
  by (simp add: getlines.simps)

lemma getlines_append_delim:
  assumes "d \<notin> set t"
  shows "getlines d (t @ d # s) = t # getlines d s"
proof -
  have "takeWhile (\<lambda>c. c \<noteq> d) (t @ d # s) = t" "dropWhile (\<lambda>c. c \<noteq> d) (t @ d # s) = d # s"
    using assms by (auto simp: takeWhile_append dropWhile_append)
  then show ?thesis by (simp add: getlines_nonempty)
qed

lemma takeWhile_absent: "d \<notin> set t \<Longrightarrow> takeWhile (\<lambda>c. c \<noteq> d) t = t"
  by (induction t) auto

lemma dropWhile_absent: "d \<notin> set t \<Longrightarrow> dropWhile (\<lambda>c. c \<noteq> d) t = []"
  by (induction t) auto

lemma getlines_last: "d \<notin> set t \<Longrightarrow> t \<noteq> [] \<Longrightarrow> getlines d t = [t]"
  by (simp add: getlines_nonempty takeWhile_absent dropWhile_absent)

lemma getlines_no_delim: "t \<in> set (getlines d s) \<Longrightarrow> d \<notin> set t"
proof (induction d s rule: getlines.induct)
  case (1 d s)
  then show ?case
    by (cases "s = []") (auto simp: getlines_nonempty dest: set_takeWhileD)
qed

text \<open>
  The split helper of the sources: \<^verbatim>\<open>while (getline(ss, tok, '/')) if (!tok.empty()) push\<close>;
  and the loop that joins segments with slashes.
\<close>

definition split_slash :: "string \<Rightarrow> string list" where
  "split_slash s = filter (\<lambda>t. t \<noteq> []) (getlines (CHR ''/'') s)"

fun join_slash :: "string list \<Rightarrow> string" where
  "join_slash [] = []"
| "join_slash [x] = x"
| "join_slash (x # y # ys) = x @ CHR ''/'' # join_slash (y # ys)"

definition segment :: "string \<Rightarrow> bool" where
  "segment t \<longleftrightarrow> t \<noteq> [] \<and> CHR ''/'' \<notin> set t"

lemma split_slash_Nil [simp]: "split_slash [] = []"
  by (simp add: split_slash_def)

lemma split_slash_segments: "t \<in> set (split_slash s) \<Longrightarrow> segment t"
  by (auto simp: split_slash_def segment_def dest: getlines_no_delim)

lemma split_slash_segment: "segment t \<Longrightarrow> split_slash t = [t]"
  by (simp add: split_slash_def segment_def getlines_last)

lemma split_slash_Cons: "segment t \<Longrightarrow> split_slash (t @ CHR ''/'' # s) = t # split_slash s"
  by (simp add: split_slash_def segment_def getlines_append_delim)

lemma split_join [simp]: "\<forall>t\<in>set ts. segment t \<Longrightarrow> split_slash (join_slash ts) = ts"
  by (induction ts rule: join_slash.induct)
    (auto simp: split_slash_segment split_slash_Cons)

lemma join_slash_Nil_iff: "\<forall>t\<in>set ts. segment t \<Longrightarrow> join_slash ts = [] \<longleftrightarrow> ts = []"
  by (cases ts rule: join_slash.cases) (auto simp: segment_def)

lemma join_slash_append:
  "ts \<noteq> [] \<Longrightarrow> us \<noteq> [] \<Longrightarrow> join_slash (ts @ us) = join_slash ts @ CHR ''/'' # join_slash us"
proof (induction ts rule: join_slash.induct)
  case (2 x)
  then show ?case by (cases us) auto
qed auto

lemma split_slash_Nil_iff: "split_slash s = [] \<longleftrightarrow> (\<forall>c\<in>set s. c = CHR ''/'')"
proof (induction "CHR ''/''" s rule: getlines.induct)
  case (1 s)
  show ?case
  proof (cases s)
    case Nil
    then show ?thesis by simp
  next
    case (Cons c cs)
    show ?thesis
    proof (cases "c = CHR ''/''")
      case True
      with Cons 1 show ?thesis
        by (simp add: split_slash_def getlines_nonempty)
    next
      case False
      with Cons show ?thesis by (simp add: split_slash_def getlines_nonempty)
    qed
  qed
qed

text \<open>\<^verbatim>\<open>s.substr(s.rfind('/') + 1)\<close>, or the whole string when there is no slash.\<close>

definition basename :: "string \<Rightarrow> string" where
  "basename s = rev (takeWhile (\<lambda>c. c \<noteq> CHR ''/'') (rev s))"

lemma basename_segment: "segment t \<Longrightarrow> basename t = t"
  by (simp add: basename_def segment_def takeWhile_absent)

lemma basename_append: "CHR ''/'' \<notin> set t \<Longrightarrow> basename (s @ CHR ''/'' # t) = t"
  by (simp add: basename_def takeWhile_append)

lemma basename_no_slash: "CHR ''/'' \<notin> set (basename s)"
  by (auto simp: basename_def dest: set_takeWhileD)

lemma basename_join: "\<forall>t\<in>set (ts @ [u]). segment t \<Longrightarrow> basename (join_slash (ts @ [u])) = u"
  by (cases "ts = []") (auto simp: join_slash_append basename_append basename_segment segment_def)

text \<open>\<^verbatim>\<open>std::to_string\<close> on unsigned counts.\<close>

fun to_string :: "nat \<Rightarrow> string" where
  "to_string n = (if n < 10 then [char_of (48 + n)]
     else to_string (n div 10) @ [char_of (48 + n mod 10)])"

declare to_string.simps [simp del]

section \<open>std::map\<close>

text \<open>
  \<^verbatim>\<open>std::map<std::string, V>\<close> as the list of its entries in iteration order (keys ascending in
  byte order). \<open>smap_set\<close> is \<^verbatim>\<open>m[k] = v\<close>; lookup is \<open>map_of\<close>.
\<close>

type_synonym 'v std_map = "(string \<times> 'v) list"

fun smap_set :: "string \<Rightarrow> 'v \<Rightarrow> 'v std_map \<Rightarrow> 'v std_map" where
  "smap_set k v [] = [(k, v)]"
| "smap_set k v ((l, w) # m) =
     (if k = l then (k, v) # m
      else if k < l then (k, v) # (l, w) # m
      else (l, w) # smap_set k v m)"

definition smap_ok :: "'v std_map \<Rightarrow> bool" where
  "smap_ok m \<longleftrightarrow> sorted (map fst m) \<and> distinct (map fst m)"

lemma map_of_smap_set: "map_of (smap_set k v m) l = (if l = k then Some v else map_of m l)"
  if "smap_ok m"
  using that
proof (induction k v m rule: smap_set.induct)
  case (2 k v l' w m)
  then show ?case
    by (auto simp: smap_ok_def map_of_eq_None_iff image_iff)
qed simp

lemma set_keys_smap_set [simp]: "fst ` set (smap_set k v m) = insert k (fst ` set m)"
  by (induction k v m rule: smap_set.induct) auto

lemma smap_ok_Nil [simp]: "smap_ok []"
  by (simp add: smap_ok_def)

lemma smap_ok_set [simp]: "smap_ok m \<Longrightarrow> smap_ok (smap_set k v m)"
proof (induction k v m rule: smap_set.induct)
  case (2 k v l w m)
  have "set (map fst (smap_set k v m)) = insert k (set (map fst m))" by simp
  with 2 show ?case by (auto simp: smap_ok_def)
qed (simp add: smap_ok_def)

lemma fold_smap_set:
  "smap_ok m \<Longrightarrow> smap_ok (fold (\<lambda>(k, v). smap_set k v) kvs m) \<and>
    map_of (fold (\<lambda>(k, v). smap_set k v) kvs m) p = (case map_of (rev kvs) p of Some v \<Rightarrow> Some v | None \<Rightarrow> map_of m p)"
  by (induction kvs arbitrary: m) (auto simp: map_of_smap_set map_add_def split: option.splits)

lemma map_of_rev_functional:
  assumes "\<And>k v w. (k, v) \<in> set kvs \<Longrightarrow> (k, w) \<in> set kvs \<Longrightarrow> v = w"
  shows "map_of (rev kvs) k = Some v \<longleftrightarrow> (k, v) \<in> set kvs"
proof
  assume "map_of (rev kvs) k = Some v"
  then show "(k, v) \<in> set kvs" using map_of_SomeD by fastforce
next
  assume kv: "(k, v) \<in> set kvs"
  then obtain w where w: "map_of (rev kvs) k = Some w"
    by (metis (no_types) fst_conv image_eqI map_of_eq_None_iff not_None_eq set_rev)
  then have "(k, w) \<in> set kvs" using map_of_SomeD by fastforce
  with assms kv w show "map_of (rev kvs) k = Some v" by blast
qed

lemma map_of_rev_distinct:
  assumes "distinct (map fst kvs)"
  shows "map_of (rev kvs) = map_of kvs"
proof
  fix k
  have "distinct (map fst (rev kvs))" using assms by (simp add: rev_map [symmetric])
  then have "map_of (rev kvs) k = Some v \<longleftrightarrow> map_of kvs k = Some v" for v
    using assms by (simp only: map_of_eq_Some_iff set_rev)
  then show "map_of (rev kvs) k = map_of kvs k" by (metis not_Some_eq)
qed

lemma map_of_fold_smap_set:
  "distinct (map fst kvs) \<Longrightarrow> smap_ok (fold (\<lambda>(k, v). smap_set k v) kvs []) \<and>
    map_of (fold (\<lambda>(k, v). smap_set k v) kvs []) = map_of kvs"
  using fold_smap_set [of "[]" kvs] by (auto simp: fun_eq_iff map_of_rev_distinct split: option.splits)

lemma set_smap_set: "x \<in> set (smap_set k v m) \<Longrightarrow> x = (k, v) \<or> x \<in> set m"
  by (induction k v m rule: smap_set.induct) (auto split: if_splits)

lemma smap_ok_filter: "smap_ok m \<Longrightarrow> smap_ok (filter P m)"
  by (auto simp: smap_ok_def distinct_map_filter sorted_filter)

lemma map_of_filter_keys: "map_of (filter (\<lambda>(k, v). P k) m) k = (if P k then map_of m k else None)"
  by (induction m) auto

lemma smap_eqI:
  assumes "smap_ok m" "smap_ok m'" "map_of m = map_of m'"
  shows "m = m'"
proof (rule map_sorted_distinct_set_unique [of fst])
  have d: "distinct (map fst m)" "distinct (map fst m')" using assms(1,2) by (auto simp: smap_ok_def)
  show "inj_on fst (set m \<union> set m')"
  proof (rule inj_onI)
    fix x y
    assume "x \<in> set m \<union> set m'" "y \<in> set m \<union> set m'" "fst x = fst y"
    moreover have "z \<in> set m \<union> set m' \<Longrightarrow> map_of m (fst z) = Some (snd z)" for z
      using d assms(3) by (metis UnE map_of_eq_Some_iff prod.collapse)
    ultimately show "x = y" by (metis option.inject prod_eq_iff)
  qed
  show "set m = set m'"
  proof (rule set_eqI)
    fix x
    show "x \<in> set m \<longleftrightarrow> x \<in> set m'"
      using map_of_eq_Some_iff [OF d(1), of "fst x" "snd x"] map_of_eq_Some_iff [OF d(2), of "fst x" "snd x"] assms(3) by simp
  qed
qed (use assms in \<open>auto simp: smap_ok_def\<close>)

lemma fold_keeps: "P m \<Longrightarrow> (\<And>x m. x \<in> set xs \<Longrightarrow> P m \<Longrightarrow> P (f x m)) \<Longrightarrow> P (fold f xs m)"
  by (induction xs arbitrary: m) auto

end
