(* ===== verification/Vost_Types.thy ===== *)
theory Vost_Types
  imports Vost_Prelude
begin

text \<open>
  The exception classes of \<^verbatim>\<open>cpp/include/vost/error.h\<close> and the value types of
  \<^verbatim>\<open>cpp/include/vost/types.h\<close>: git modes and file types, directory entries, write entries and
  their validation, change reports, mirror diffs and the option structs of the operations.
  Exceptions carry the string their constructor takes; \<open>what\<close> is the text of
  \<^verbatim>\<open>std::exception::what\<close>. Two constructors are no classes of the sources: \<open>Nontermination\<close>
  marks a recursion that ran out of fuel, and \<open>Undefined_behaviour\<close> the dereference of an empty
  \<^verbatim>\<open>std::optional\<close>; the component theories prove where the first one cannot occur.
\<close>

section \<open>Exceptions\<close>

datatype verror =
    VostError string
  | NotFoundError string
  | IsADirectoryError string
  | NotADirectoryError string
  | PermissionError string
  | StaleSnapshotError string
  | KeyNotFoundError string
  | KeyExistsError string
  | InvalidPathError string
  | InvalidHashError string
  | InvalidRefNameError string
  | BatchClosedError
  | GitError string
  | IoError string
  | Nontermination
  | Undefined_behaviour

fun what :: "verror \<Rightarrow> string" where
  "what (VostError msg) = msg"
| "what (NotFoundError path) = ''not found: '' @ path"
| "what (IsADirectoryError path) = ''is a directory: '' @ path"
| "what (NotADirectoryError path) = ''not a directory: '' @ path"
| "what (PermissionError msg) = ''permission denied: '' @ msg"
| "what (StaleSnapshotError msg) = ''stale snapshot: '' @ msg"
| "what (KeyNotFoundError key) = ''key not found: '' @ key"
| "what (KeyExistsError key) = ''key already exists: '' @ key"
| "what (InvalidPathError msg) = ''invalid path: '' @ msg"
| "what (InvalidHashError hash) = ''invalid hash: '' @ hash"
| "what (InvalidRefNameError msg) = ''invalid ref name: '' @ msg"
| "what BatchClosedError = ''batch already closed''"
| "what (GitError msg) = ''git error: '' @ msg"
| "what (IoError msg) = ''io error: '' @ msg"
| "what Nontermination = ''does not return''"
| "what Undefined_behaviour = ''undefined behaviour''"

type_synonym 'a res = "verror + 'a"
type_synonym ('r, 'a) vop = "(verror, 'r, 'a) op"

section \<open>Modes and file types\<close>

definition MODE_BLOB :: u32 where "MODE_BLOB = 0x81A4"       \<comment> \<open>0100644\<close>
definition MODE_BLOB_EXEC :: u32 where "MODE_BLOB_EXEC = 0x81ED"  \<comment> \<open>0100755\<close>
definition MODE_LINK :: u32 where "MODE_LINK = 0xA000"       \<comment> \<open>0120000\<close>
definition MODE_TREE :: u32 where "MODE_TREE = 0x4000"       \<comment> \<open>0040000\<close>

lemmas mode_defs = MODE_BLOB_def MODE_BLOB_EXEC_def MODE_LINK_def MODE_TREE_def

lemma modes_distinct [simp]:
  "MODE_BLOB \<noteq> MODE_BLOB_EXEC" "MODE_BLOB \<noteq> MODE_LINK" "MODE_BLOB \<noteq> MODE_TREE"
  "MODE_BLOB_EXEC \<noteq> MODE_BLOB" "MODE_BLOB_EXEC \<noteq> MODE_LINK" "MODE_BLOB_EXEC \<noteq> MODE_TREE"
  "MODE_LINK \<noteq> MODE_BLOB" "MODE_LINK \<noteq> MODE_BLOB_EXEC" "MODE_LINK \<noteq> MODE_TREE"
  "MODE_TREE \<noteq> MODE_BLOB" "MODE_TREE \<noteq> MODE_BLOB_EXEC" "MODE_TREE \<noteq> MODE_LINK"
  by (simp_all add: mode_defs)

datatype FileType = Blob | Executable | Link | Tree

definition file_type_from_mode :: "u32 \<Rightarrow> FileType option" where
  "file_type_from_mode mode =
     (if mode = MODE_BLOB then Some Blob
      else if mode = MODE_BLOB_EXEC then Some Executable
      else if mode = MODE_LINK then Some Link
      else if mode = MODE_TREE then Some Tree
      else None)"

fun file_type_to_mode :: "FileType \<Rightarrow> u32" where
  "file_type_to_mode Blob = MODE_BLOB"
| "file_type_to_mode Executable = MODE_BLOB_EXEC"
| "file_type_to_mode Link = MODE_LINK"
| "file_type_to_mode Tree = MODE_TREE"

definition file_type_is_file :: "FileType \<Rightarrow> bool" where
  "file_type_is_file ft \<longleftrightarrow> ft = Blob \<or> ft = Executable"

definition file_type_is_dir :: "FileType \<Rightarrow> bool" where
  "file_type_is_dir ft \<longleftrightarrow> ft = Tree"

definition file_type_is_link :: "FileType \<Rightarrow> bool" where
  "file_type_is_link ft \<longleftrightarrow> ft = Link"

lemma file_type_from_to [simp]: "file_type_from_mode (file_type_to_mode ft) = Some ft"
  by (cases ft) (simp_all add: file_type_from_mode_def)

lemma file_type_to_from: "file_type_from_mode m = Some ft \<longleftrightarrow> m = file_type_to_mode ft"
  by (cases ft) (auto simp: file_type_from_mode_def)

text \<open>\<^verbatim>\<open>enum class FileType : uint8_t\<close> is ordered by its underlying values.\<close>

fun file_type_code :: "FileType \<Rightarrow> nat" where
  "file_type_code Blob = 0"
| "file_type_code Executable = 1"
| "file_type_code Link = 2"
| "file_type_code Tree = 3"

lemma file_type_code_inject: "file_type_code a = file_type_code b \<longleftrightarrow> a = b"
  by (cases a; cases b) simp_all

instantiation FileType :: linorder
begin

definition less_eq_FileType :: "FileType \<Rightarrow> FileType \<Rightarrow> bool" where
  "less_eq_FileType a b \<longleftrightarrow> file_type_code a \<le> file_type_code b"

definition less_FileType :: "FileType \<Rightarrow> FileType \<Rightarrow> bool" where
  "less_FileType a b \<longleftrightarrow> file_type_code a < file_type_code b"

instance
  by standard (auto simp: less_eq_FileType_def less_FileType_def file_type_code_inject)

end

section \<open>Directory entries\<close>

record WalkEntry =
  we_name :: string
  we_oid :: string
  we_mode :: u32

definition WalkEntry_file_type :: "WalkEntry \<Rightarrow> FileType option" where
  "WalkEntry_file_type e = file_type_from_mode (we_mode e)"

record WalkDirEntry =
  dirpath :: string
  dirnames :: "string list"
  wd_files :: "WalkEntry list"

record StatResult =
  st_mode :: u32
  st_file_type :: FileType
  st_size :: u64
  st_hash :: string
  st_nlink :: u32
  st_mtime :: u64

section \<open>Write entries\<close>

record WriteEntry =
  wr_data :: "byte list option"
  wr_target :: "string option"
  wr_mode :: u32

definition WriteEntry_from_bytes :: "byte list \<Rightarrow> WriteEntry" where
  "WriteEntry_from_bytes d = \<lparr>wr_data = Some d, wr_target = None, wr_mode = MODE_BLOB\<rparr>"

definition WriteEntry_from_text :: "string \<Rightarrow> WriteEntry" where
  "WriteEntry_from_text text =
     \<lparr>wr_data = Some (to_bytes text), wr_target = None, wr_mode = MODE_BLOB\<rparr>"

definition WriteEntry_symlink :: "string \<Rightarrow> WriteEntry" where
  "WriteEntry_symlink t = \<lparr>wr_data = None, wr_target = Some t, wr_mode = MODE_LINK\<rparr>"

definition WriteEntry_validate :: "WriteEntry \<Rightarrow> unit res" where
  "WriteEntry_validate e =
     (if wr_mode e = MODE_LINK then
        if wr_target e = None then Inl (InvalidPathError ''symlink entry requires a target'')
        else if wr_data e \<noteq> None then Inl (InvalidPathError ''symlink entry must not have data'')
        else Inr ()
      else if wr_mode e = MODE_BLOB \<or> wr_mode e = MODE_BLOB_EXEC then
        if wr_data e = None then Inl (InvalidPathError ''blob entry requires data'')
        else if wr_target e \<noteq> None
        then Inl (InvalidPathError ''blob entry must not have a symlink target'')
        else Inr ()
      else Inl (InvalidPathError (''unsupported mode: '' @ to_string (unat (wr_mode e)))))"

text \<open>The kinds of entry that pass validation: exactly those the named constructors build,
  up to the executable bit.\<close>

lemma WriteEntry_validate_iff:
  "WriteEntry_validate e = Inr () \<longleftrightarrow>
     (\<exists>t. e = WriteEntry_symlink t) \<or>
     (\<exists>d m. m \<in> {MODE_BLOB, MODE_BLOB_EXEC} \<and> e = (WriteEntry_from_bytes d)\<lparr>wr_mode := m\<rparr>)"
  by (cases e) (auto simp: WriteEntry_validate_def WriteEntry_symlink_def WriteEntry_from_bytes_def)

section \<open>Change reports\<close>

record FileEntry =
  fe_path :: string
  fe_file_type :: FileType
  fe_src :: "string option"

datatype ChangeActionKind = Add | Update | Delete

record ChangeAction =
  ca_kind :: ChangeActionKind
  ca_path :: string

record ChangeError =
  ce_path :: string
  ce_error :: string

record ChangeReport =
  cr_add :: "FileEntry list"
  cr_update :: "FileEntry list"
  cr_del :: "FileEntry list"
  cr_errors :: "ChangeError list"
  cr_warnings :: "ChangeError list"

definition empty_report :: ChangeReport where
  "empty_report = \<lparr>cr_add = [], cr_update = [], cr_del = [], cr_errors = [], cr_warnings = []\<rparr>"

definition ChangeReport_in_sync :: "ChangeReport \<Rightarrow> bool" where
  "ChangeReport_in_sync c \<longleftrightarrow> cr_add c = [] \<and> cr_update c = [] \<and> cr_del c = []"

definition ChangeReport_total :: "ChangeReport \<Rightarrow> nat" where
  "ChangeReport_total c = length (cr_add c) + length (cr_update c) + length (cr_del c)"

text \<open>
  \<^verbatim>\<open>std::sort\<close> with the order on paths leaves the relative order of equal paths open; the
  model takes the stable one.
\<close>

definition ChangeReport_actions :: "ChangeReport \<Rightarrow> ChangeAction list" where
  "ChangeReport_actions c = sort_key ca_path
     (map (\<lambda>fe. \<lparr>ca_kind = Add, ca_path = fe_path fe\<rparr>) (cr_add c) @
      map (\<lambda>fe. \<lparr>ca_kind = Update, ca_path = fe_path fe\<rparr>) (cr_update c) @
      map (\<lambda>fe. \<lparr>ca_kind = Delete, ca_path = fe_path fe\<rparr>) (cr_del c))"

lemma ChangeReport_in_sync_iff: "ChangeReport_in_sync c \<longleftrightarrow> ChangeReport_total c = 0"
  by (auto simp: ChangeReport_in_sync_def ChangeReport_total_def)

lemma ChangeReport_actions_sorted: "sorted (map ca_path (ChangeReport_actions c))"
  by (simp add: ChangeReport_actions_def)

lemma ChangeReport_actions_length: "length (ChangeReport_actions c) = ChangeReport_total c"
  by (simp add: ChangeReport_actions_def ChangeReport_total_def)

section \<open>Commits, references, diffs\<close>

record Signature =
  sig_name :: string
  sig_email :: string

definition default_signature :: Signature where
  "default_signature = \<lparr>sig_name = ''vost'', sig_email = ''vost@localhost''\<rparr>"

record ReflogEntry =
  old_sha :: string
  new_sha :: string
  re_committer :: string
  re_timestamp :: u64
  re_message :: string

record RefChange =
  rc_ref_name :: string
  old_target :: "string option"
  new_target :: "string option"

record MirrorDiff =
  md_add :: "RefChange list"
  md_update :: "RefChange list"
  md_del :: "RefChange list"

definition MirrorDiff_in_sync :: "MirrorDiff \<Rightarrow> bool" where
  "MirrorDiff_in_sync d \<longleftrightarrow> md_add d = [] \<and> md_update d = [] \<and> md_del d = []"

definition MirrorDiff_total :: "MirrorDiff \<Rightarrow> nat" where
  "MirrorDiff_total d = length (md_add d) + length (md_update d) + length (md_del d)"

record CommitInfo =
  ci_commit_hash :: string
  ci_message :: string
  ci_time :: "u64 option"
  ci_author_name :: "string option"
  ci_author_email :: "string option"

section \<open>Options\<close>

record WriteOptions =
  wo_message :: "string option"
  wo_mode :: "u32 option"
  wo_parents :: "string list"

record ApplyOptions =
  ao_message :: "string option"
  ao_operation :: "string option"
  ao_parents :: "string list"

record RemoveOptions =
  ro_recursive :: bool
  ro_dry_run :: bool
  ro_message :: "string option"
  ro_parents :: "string list"

record BatchOptions =
  bo_message :: "string option"
  bo_operation :: "string option"
  bo_parents :: "string list"

record LogOptions =
  lo_limit :: "nat option"
  lo_skip :: "nat option"
  lo_path :: "string option"
  lo_match_pattern :: "string option"
  lo_before :: "u64 option"

record MoveOptions =
  mo_recursive :: bool
  mo_dry_run :: bool
  mo_message :: "string option"
  mo_parents :: "string list"

end
