(* ===== verification/Vost_Git.thy ===== *)
theory Vost_Git
  imports Vost_Types
begin

text \<open>
  libgit2 and the operating system as the sources see them. Neither is code of the
  repository, so each is a parameter: \<open>posix\<close> and \<open>libgit2\<close> are records with one field
  per function the sources call, and every definition that calls one takes the record as an
  argument. A field takes the world \<open>'r\<close> (the repository on disk and what else the calls can
  see) and, where the function writes, returns the new world; \<open>None\<close> is a non-zero return
  code. What the development relies on is stated by the locales below, which list documented
  behaviour: objects are immutable and content addressed, trees and history are acyclic, a
  tree builder holds what was inserted, a reference update changes that reference and logs
  the movement. An executable instance of all of them is in \<open>Vost_Git_Memory\<close>.
\<close>

section \<open>Handles\<close>

text \<open>\<^verbatim>\<open>git_oid\<close>: the raw bytes of an object id.\<close>

type_synonym git_oid = "byte list"

record tree_entry =
  te_name :: string
  te_oid :: git_oid
  te_mode :: u32

type_synonym git_tree = "tree_entry list"

record git_signature =
  gs_name :: string
  gs_email :: string
  gs_when :: u64

record git_commit =
  gc_message :: "string option"
  gc_author :: "git_signature option"
  gc_time :: u64
  gc_tree :: git_oid
  gc_parents :: "git_oid list"

record git_reference =
  gref_name :: string
  gref_target :: "git_oid + string"  \<comment> \<open>direct or symbolic\<close>

record git_reflog_entry =
  rl_old :: git_oid
  rl_new :: git_oid
  rl_committer :: "git_signature option"
  rl_message :: "string option"

datatype flock_rc = Flock_acquired | Flock_would_block | Flock_failed string

section \<open>The parameters\<close>

text \<open>
  \<^verbatim>\<open>open\<close> of the lock file (\<open>Some\<close> the \<^verbatim>\<open>strerror\<close> text when it fails), the outcome of the
  \<open>n\<close>-th \<^verbatim>\<open>flock\<close> attempt and the \<open>n\<close>-th reading of the steady clock in milliseconds.
\<close>

record 'r posix =
  os_open_lock :: "'r \<Rightarrow> string \<Rightarrow> string option"
  os_flock :: "'r \<Rightarrow> nat \<Rightarrow> flock_rc"
  os_clock :: "'r \<Rightarrow> nat \<Rightarrow> nat"

text \<open>
  A tree handle is the list of its entries in index order. \<open>git_tree_walk\<close> is the
  sequence of (root, entry) pairs the pre-order walk passes to its callback.
  \<open>git_tree_depth\<close> and \<open>git_commit_depth\<close> are no functions of the library: they bound
  the nesting of a tree and the length of a history, and serve as fuel where the sources
  recurse into subtrees or follow parents.
\<close>

record ('r, 'b) libgit2 = "'r posix" +
  git_error_last :: "'r \<Rightarrow> string option"
  git_oid_fromstr :: "string \<Rightarrow> git_oid option"
  git_oid_tostr :: "git_oid \<Rightarrow> string"
  git_blob_create_from_buffer :: "'r \<Rightarrow> byte list \<Rightarrow> (git_oid \<times> 'r) option"
  git_blob_lookup :: "'r \<Rightarrow> git_oid \<Rightarrow> byte list option"
  git_tree_lookup :: "'r \<Rightarrow> git_oid \<Rightarrow> git_tree option"
  git_tree_entry_byname :: "git_tree \<Rightarrow> string \<Rightarrow> tree_entry option"
  git_tree_walk :: "'r \<Rightarrow> git_oid \<Rightarrow> (string \<times> tree_entry) list option"
  git_treebuilder_new :: "'r \<Rightarrow> git_tree option \<Rightarrow> 'b option"
  git_treebuilder_get :: "'b \<Rightarrow> string \<Rightarrow> tree_entry option"
  git_treebuilder_insert :: "'r \<Rightarrow> 'b \<Rightarrow> string \<Rightarrow> git_oid \<Rightarrow> u32 \<Rightarrow> 'b option"
  git_treebuilder_remove :: "'b \<Rightarrow> string \<Rightarrow> 'b"
  git_treebuilder_entrycount :: "'b \<Rightarrow> nat"
  git_treebuilder_write :: "'r \<Rightarrow> 'b \<Rightarrow> (git_oid \<times> 'r) option"
  git_signature_now :: "'r \<Rightarrow> string \<Rightarrow> string \<Rightarrow> git_signature option"
  git_commit_create :: "'r \<Rightarrow> git_signature \<Rightarrow> string \<Rightarrow> git_oid \<Rightarrow> git_oid list \<Rightarrow> (git_oid \<times> 'r) option"
  git_commit_lookup :: "'r \<Rightarrow> git_oid \<Rightarrow> git_commit option"
  git_reference_lookup :: "'r \<Rightarrow> string \<Rightarrow> git_reference option"
  git_reference_peel :: "'r \<Rightarrow> git_reference \<Rightarrow> git_oid option"
  git_reference_create :: "'r \<Rightarrow> string \<Rightarrow> git_oid \<Rightarrow> bool \<Rightarrow> string \<Rightarrow> 'r option"
  git_reference_set_target :: "'r \<Rightarrow> git_reference \<Rightarrow> git_oid \<Rightarrow> string \<Rightarrow> 'r option"
  git_reference_delete :: "'r \<Rightarrow> git_reference \<Rightarrow> 'r option"
  git_reference_glob :: "'r \<Rightarrow> string \<Rightarrow> git_reference list option"
  git_reflog_read :: "'r \<Rightarrow> string \<Rightarrow> git_reflog_entry list option"
  git_repository_head :: "'r \<Rightarrow> git_reference option"
  git_repository_set_head :: "'r \<Rightarrow> string \<Rightarrow> 'r option"
  git_tree_depth :: "'r \<Rightarrow> git_oid \<Rightarrow> nat"
  git_commit_depth :: "'r \<Rightarrow> git_oid \<Rightarrow> nat"

text \<open>The 40 zeros the sources use for \<^emph>\<open>no object\<close> (\<^verbatim>\<open>std::string(GIT_OID_HEXSZ, '0')\<close>).\<close>

definition zero_hex :: string where
  "zero_hex = replicate 40 (CHR ''0'')"

section \<open>Documented behaviour\<close>

text \<open>Every object of the first world is in the second one, unchanged.\<close>

definition git_extends :: "('r, 'b) libgit2 \<Rightarrow> 'r \<Rightarrow> 'r \<Rightarrow> bool" where
  "git_extends G r r' \<longleftrightarrow>
     (\<forall>oid d. git_blob_lookup G r oid = Some d \<longrightarrow> git_blob_lookup G r' oid = Some d) \<and>
     (\<forall>oid t. git_tree_lookup G r oid = Some t \<longrightarrow> git_tree_lookup G r' oid = Some t) \<and>
     (\<forall>oid c. git_commit_lookup G r oid = Some c \<longrightarrow> git_commit_lookup G r' oid = Some c)"

text \<open>References, their logs and HEAD are the same in both worlds.\<close>

definition git_same_refs :: "('r, 'b) libgit2 \<Rightarrow> 'r \<Rightarrow> 'r \<Rightarrow> bool" where
  "git_same_refs G r r' \<longleftrightarrow>
     git_reference_lookup G r' = git_reference_lookup G r \<and>
     git_reflog_read G r' = git_reflog_read G r \<and>
     git_repository_head G r' = git_repository_head G r"

text \<open>A write to the object database: it adds objects and touches no reference.\<close>

definition git_adds :: "('r, 'b) libgit2 \<Rightarrow> 'r \<Rightarrow> 'r \<Rightarrow> bool" where
  "git_adds G r r' \<longleftrightarrow> git_extends G r r' \<and> git_same_refs G r r'"

text \<open>An update of one reference: the others, and every object, stay.\<close>

definition git_moves :: "('r, 'b) libgit2 \<Rightarrow> string \<Rightarrow> 'r \<Rightarrow> 'r \<Rightarrow> bool" where
  "git_moves G n r r' \<longleftrightarrow>
     git_extends G r r' \<and> git_extends G r' r \<and>
     (\<forall>m. m \<noteq> n \<longrightarrow> git_reference_lookup G r' m = git_reference_lookup G r m
                 \<and> git_reflog_read G r' m = git_reflog_read G r m)"

lemma reflp_git_extends: "reflp (git_extends G)"
  by (simp add: reflp_def git_extends_def)

lemma transp_git_extends: "transp (git_extends G)"
  by (rule transpI) (unfold git_extends_def, blast)

lemma reflp_git_adds: "reflp (git_adds G)"
  by (simp add: reflp_def git_extends_def git_same_refs_def git_adds_def)

lemma transp_git_adds: "transp (git_adds G)"
proof (rule transpI)
  fix r s t
  assume rs: "git_adds G r s" and st: "git_adds G s t"
  then have "git_extends G r t"
    using transpD [OF transp_git_extends] by (auto simp: git_adds_def)
  with rs st show "git_adds G r t"
    by (simp add: git_adds_def git_same_refs_def)
qed

lemma git_extends_refl [simp, intro]: "git_extends G r r"
  using reflp_git_extends by (rule reflpD)

lemma git_extends_trans [trans]:
  "git_extends G r s \<Longrightarrow> git_extends G s t \<Longrightarrow> git_extends G r t"
  using transp_git_extends by (rule transpD)

lemma git_adds_refl [simp, intro]: "git_adds G r r"
  using reflp_git_adds by (rule reflpD)

lemma git_adds_trans: "git_adds G r s \<Longrightarrow> git_adds G s t \<Longrightarrow> git_adds G r t"
  using transp_git_adds by (rule transpD)

lemma git_adds_extends: "git_adds G r r' \<Longrightarrow> git_extends G r r'"
  by (simp add: git_adds_def)

lemma git_moves_extends: "git_moves G n r r' \<Longrightarrow> git_extends G r r'"
  by (simp add: git_moves_def)

lemma git_extends_blob:
  "git_extends G r r' \<Longrightarrow> git_blob_lookup G r oid = Some d \<Longrightarrow> git_blob_lookup G r' oid = Some d"
  by (simp add: git_extends_def)

lemma git_extends_tree:
  "git_extends G r r' \<Longrightarrow> git_tree_lookup G r oid = Some t \<Longrightarrow> git_tree_lookup G r' oid = Some t"
  by (simp add: git_extends_def)

lemma git_extends_commit:
  "git_extends G r r' \<Longrightarrow> git_commit_lookup G r oid = Some c \<Longrightarrow> git_commit_lookup G r' oid = Some c"
  by (simp add: git_extends_def)

lemma git_adds_reference: "git_adds G r r' \<Longrightarrow> git_reference_lookup G r' n = git_reference_lookup G r n"
  by (simp add: git_adds_def git_same_refs_def)

lemma git_adds_reflog: "git_adds G r r' \<Longrightarrow> git_reflog_read G r' n = git_reflog_read G r n"
  by (simp add: git_adds_def git_same_refs_def)

text \<open>The file modes \<^verbatim>\<open>git_treebuilder_insert\<close> accepts.\<close>

definition git_filemodes :: "u32 set" where
  "git_filemodes = {MODE_BLOB, MODE_BLOB_EXEC, MODE_LINK, MODE_TREE, 0xE000}"

text \<open>The object database: ids, blobs, trees and tree builders, commits.\<close>

locale git_odb =
  fixes G :: "('r, 'b) libgit2"
  assumes oid_roundtrip: "git_oid_fromstr G (git_oid_tostr G oid) = Some oid"
    and blob_create: "git_blob_create_from_buffer G r d = Some (oid, r') \<Longrightarrow>
      git_blob_lookup G r' oid = Some d \<and> git_adds G r r'"
    and blob_dedup: "git_blob_lookup G r oid = Some d \<Longrightarrow>
      git_blob_create_from_buffer G r d = Some (oid', r') \<Longrightarrow> oid' = oid"
    and tree_not_null: "git_tree_lookup G r oid = Some t \<Longrightarrow>
      git_oid_tostr G oid \<noteq> [] \<and> git_oid_tostr G oid \<noteq> zero_hex"
    and tree_names: "git_tree_lookup G r oid = Some t \<Longrightarrow>
      distinct (map te_name t) \<and> (\<forall>e\<in>set t. segment (te_name e))"
    and tree_byname: "git_tree_lookup G r oid = Some t \<Longrightarrow>
      git_tree_entry_byname G t n = find (\<lambda>e. te_name e = n) t"
    and tree_acyclic: "git_tree_lookup G r oid = Some t \<Longrightarrow> e \<in> set t \<Longrightarrow> te_mode e = MODE_TREE \<Longrightarrow>
      git_tree_depth G r (te_oid e) < git_tree_depth G r oid"
    and tree_walk: "git_tree_walk G r oid = Some ws \<Longrightarrow>
      \<exists>t. git_tree_lookup G r oid = Some t \<and>
        (\<forall>e\<in>set t. te_mode e = MODE_TREE \<longrightarrow> git_tree_walk G r (te_oid e) \<noteq> None) \<and>
        ws = concat (map (\<lambda>e. ([], e) #
          (if te_mode e = MODE_TREE
           then map (apfst (\<lambda>p. te_name e @ CHR ''/'' # p)) (the (git_tree_walk G r (te_oid e)))
           else [])) t)"
    and builder_new_empty: "git_treebuilder_new G r None = Some b \<Longrightarrow> git_treebuilder_get G b n = None"
    and builder_new_tree: "git_tree_lookup G r oid = Some t \<Longrightarrow> git_treebuilder_new G r (Some t) = Some b \<Longrightarrow>
      git_treebuilder_get G b n = git_tree_entry_byname G t n"
    and builder_insert: "git_treebuilder_insert G r b n oid m = Some b' \<Longrightarrow>
      m \<in> git_filemodes \<and>
      git_treebuilder_get G b' k =
        (if k = n then Some \<lparr>te_name = n, te_oid = oid, te_mode = m\<rparr> else git_treebuilder_get G b k)"
    and builder_remove: "git_treebuilder_get G (git_treebuilder_remove G b n) k =
        (if k = n then None else git_treebuilder_get G b k)"
    and builder_count: "git_treebuilder_entrycount G b = 0 \<longleftrightarrow> (\<forall>k. git_treebuilder_get G b k = None)"
    and builder_write: "git_treebuilder_write G r b = Some (oid, r') \<Longrightarrow>
      (\<exists>t. git_tree_lookup G r' oid = Some t \<and>
           (\<forall>n. git_tree_entry_byname G t n = git_treebuilder_get G b n)) \<and> git_adds G r r'"
    and commit_create: "git_commit_create G r sg msg tree ps = Some (oid, r') \<Longrightarrow>
      (\<exists>c. git_commit_lookup G r' oid = Some c \<and> gc_tree c = tree \<and> gc_parents c = ps \<and>
           gc_message c = Some (dropWhile (\<lambda>ch. ch = CHR 0x0A) msg) \<and>
           gc_author c = Some sg \<and> gc_time c = gs_when sg) \<and> git_adds G r r'"
    and signature_now: "git_signature_now G r n em = Some sg \<Longrightarrow> gs_name sg = n \<and> gs_email sg = em"
    and commit_not_null: "git_commit_lookup G r oid = Some c \<Longrightarrow>
      git_oid_tostr G oid \<noteq> [] \<and> git_oid_tostr G oid \<noteq> zero_hex"
    and history_acyclic: "git_commit_lookup G r oid = Some c \<Longrightarrow> p \<in> set (gc_parents c) \<Longrightarrow>
      git_commit_depth G r p < git_commit_depth G r oid"

text \<open>References.\<close>

locale git_refdb = git_odb +
  assumes reference_name: "git_reference_lookup G r n = Some ref \<Longrightarrow> gref_name ref = n"
    and reference_peel: "git_commit_lookup G r oid \<noteq> None \<Longrightarrow> gref_target ref = Inl oid \<Longrightarrow>
      git_reference_peel G r ref = Some oid"
    and reference_peel_commit: "git_reference_peel G r ref = Some oid \<Longrightarrow> git_commit_lookup G r oid \<noteq> None"
    and reference_create: "git_reference_create G r n oid force msg = Some r' \<Longrightarrow>
      git_reference_lookup G r' n = Some \<lparr>gref_name = n, gref_target = Inl oid\<rparr> \<and> git_moves G n r r'"
    and reference_create_exists: "git_reference_lookup G r n \<noteq> None \<Longrightarrow>
      git_reference_create G r n oid False msg = None"
    and reference_set_target: "git_reference_set_target G r ref oid msg = Some r' \<Longrightarrow>
      git_reference_lookup G r' (gref_name ref) = Some \<lparr>gref_name = gref_name ref, gref_target = Inl oid\<rparr>
      \<and> git_moves G (gref_name ref) r r'"
    and reference_delete: "git_reference_delete G r ref = Some r' \<Longrightarrow>
      git_reference_lookup G r' (gref_name ref) = None \<and> git_moves G (gref_name ref) r r'"

text \<open>
  Reference logs, as a repository with \<^verbatim>\<open>core.logAllRefUpdates = always\<close> keeps them (the
  setting \<^verbatim>\<open>GitStore::open\<close> makes when it creates one): newest entry first.
\<close>

locale git_reflogs = git_refdb +
  assumes reflog_set_target:
    "git_reference_lookup G r n = Some \<lparr>gref_name = n, gref_target = Inl old\<rparr> \<Longrightarrow>
     git_reference_set_target G r \<lparr>gref_name = n, gref_target = Inl old\<rparr> oid msg = Some r' \<Longrightarrow>
     \<exists>e es. git_reflog_read G r' n = Some (e # es) \<and>
       es = (case git_reflog_read G r n of Some xs \<Rightarrow> xs | None \<Rightarrow> []) \<and>
       rl_old e = old \<and> rl_new e = oid \<and> rl_message e = Some msg"

end
