(* ===== verification/Vost_Lock.thy ===== *)
theory Vost_Lock
  imports Vost_Git
begin

text \<open>
  \<^verbatim>\<open>cpp/src/lock.cpp\<close> (the branches for POSIX, for Windows and for other systems) and \<^verbatim>\<open>retry_write\<close> of \<^verbatim>\<open>cpp/include/vost/vost.h\<close>:
  the advisory lock around a commit and the loop that retries a stale write. The in-process
  \<^verbatim>\<open>std::mutex\<close> makes each operation atomic for the other threads; in the model an operation
  is one function of the world, so the mutex has no counterpart.
\<close>

section \<open>with_repo_lock\<close>

definition lock_file :: "string \<Rightarrow> string" where
  "lock_file gitdir = gitdir @ ''/vost.lock''"

text \<open>
  The \<^verbatim>\<open>while (true)\<close> loop from attempt \<open>k\<close> on. It reads the clock once for the deadline
  (reading 0) and once after each refused attempt; \<open>None\<close> is a loop that never ends.
\<close>

partial_function (option) flock_loop ::
  "('r, 'm) posix_scheme \<Rightarrow> 'r \<Rightarrow> string \<Rightarrow> nat \<Rightarrow> nat \<Rightarrow> unit res option" where
  "flock_loop P r lock_str deadline k =
     (case os_flock P r k of
        Flock_acquired \<Rightarrow> Some (Inr ())
      | Flock_failed err \<Rightarrow> Some (Inl (IoError (''flock failed: '' @ err)))
      | Flock_would_block \<Rightarrow>
          if deadline \<le> os_clock P r (Suc k)
          then Some (Inl (VostError (''timeout waiting for repo lock: '' @ lock_str)))
          else flock_loop P r lock_str deadline (Suc k))"

declare flock_loop.simps [code]

definition with_repo_lock ::
  "('r, 'm) posix_scheme \<Rightarrow> string \<Rightarrow> ('r, 'a) vop \<Rightarrow> ('r, 'a) vop" where
  "with_repo_lock P gitdir fn r =
     (let lock_str = lock_file gitdir in
      case os_open_lock P r lock_str of
        Some err \<Rightarrow> (Inl (IoError (''cannot open lock file: '' @ lock_str @ '': '' @ err)), r)
      | None \<Rightarrow>
          (case flock_loop P r lock_str (os_clock P r 0 + 30000) 0 of
             None \<Rightarrow> (Inl Nontermination, r)
           | Some (Inl e) \<Rightarrow> (Inl e, r)
           | Some (Inr u) \<Rightarrow> fn r))"

text \<open>
  The branch for Windows. Creating the file without sharing is the lock, so every refusal is
  retried, whatever its cause; what \<^verbatim>\<open>LockFileEx\<close> returns is not looked at.
\<close>

record 'r win32 =
  win_create_file :: "'r \<Rightarrow> string \<Rightarrow> nat \<Rightarrow> bool"  \<comment> \<open>attempt \<open>k\<close> returns a handle\<close>
  win_clock :: "'r \<Rightarrow> nat \<Rightarrow> nat"                    \<comment> \<open>reading \<open>k\<close> of the steady clock, in milliseconds\<close>

partial_function (option) create_loop :: "'r win32 \<Rightarrow> 'r \<Rightarrow> string \<Rightarrow> nat \<Rightarrow> nat \<Rightarrow> unit res option" where
  "create_loop W r lock_str deadline k =
     (if win_create_file W r lock_str k then Some (Inr ())
      else if deadline \<le> win_clock W r (Suc k)
      then Some (Inl (VostError (''timeout waiting for repo lock: '' @ lock_str)))
      else create_loop W r lock_str deadline (Suc k))"

declare create_loop.simps [code]

definition with_repo_lock_windows :: "'r win32 \<Rightarrow> string \<Rightarrow> ('r, 'a) vop \<Rightarrow> ('r, 'a) vop" where
  "with_repo_lock_windows W gitdir fn r =
     (case create_loop W r (lock_file gitdir) (win_clock W r 0 + 30000) 0 of
        None \<Rightarrow> (Inl Nontermination, r)
      | Some (Inl e) \<Rightarrow> (Inl e, r)
      | Some (Inr u) \<Rightarrow> fn r)"

text \<open>The branch for other systems.\<close>

definition with_repo_lock_fallback :: "string \<Rightarrow> ('r, 'a) vop \<Rightarrow> ('r, 'a) vop" where
  "with_repo_lock_fallback gitdir fn = fn"

section \<open>retry_write\<close>

text \<open>
  \<^verbatim>\<open>for (int attempt = 0; ; ++attempt)\<close>: the operation, and again after a
  \<^verbatim>\<open>StaleSnapshotError\<close> until attempt 5 has failed. The list is the sleeping times in
  milliseconds; other processes may change the world while this one sleeps, so the world a
  retry starts from is the parameter \<open>sleep\<close> of the one the failed attempt left.
\<close>

definition retry_delay :: "nat \<Rightarrow> nat" where
  "retry_delay attempt = min (10 * 2 ^ attempt) 200"

function retry_write :: "(nat \<Rightarrow> 'r \<Rightarrow> 'r) \<Rightarrow> ('r, 'a) vop \<Rightarrow> nat \<Rightarrow> 'r \<Rightarrow> (verror + 'a) \<times> 'r \<times> nat list" where
  "retry_write sleep f attempt r =
     (case f r of
        (Inr x, r') \<Rightarrow> (Inr x, r', [])
      | (Inl (StaleSnapshotError m), r') \<Rightarrow>
          if attempt \<ge> 5 then (Inl (StaleSnapshotError m), r', [])
          else let d = retry_delay attempt;
                   (res, r'', ds) = retry_write sleep f (Suc attempt) (sleep d r')
               in (res, r'', d # ds)
      | (Inl e, r') \<Rightarrow> (Inl e, r', []))"
  by pat_completeness auto
termination
  by (relation "measure (\<lambda>(sleep, f, attempt, r). 5 - attempt)") auto

declare retry_write.simps [simp del]

text \<open>A lock that another process holds for two attempts, and a clock with 60 ms per attempt.\<close>

definition contended_lock :: "unit posix" where
  "contended_lock = \<lparr>os_open_lock = (\<lambda>_ _. None),
     os_flock = (\<lambda>_ k. if k < 2 then Flock_would_block else Flock_acquired),
     os_clock = (\<lambda>_ n. 60 * n)\<rparr>"

section \<open>Properties\<close>

text \<open>Acquiring the lock changes nothing: the body runs on the same world or not at all.\<close>

lemma with_repo_lock_cases:
  "with_repo_lock P d fn r = fn r \<or> (\<exists>e. with_repo_lock P d fn r = (Inl e, r))"
  by (auto simp: with_repo_lock_def Let_def split: option.splits sum.splits)

lemma with_repo_lock_Inr:
  "with_repo_lock P d fn r = (Inr x, r') \<Longrightarrow> fn r = (Inr x, r')"
  using with_repo_lock_cases [of P d fn r] by auto

lemma keeps_with_repo_lock:
  assumes "reflp R" "keeps R fn"
  shows "keeps R (with_repo_lock P d fn)"
proof
  fix r
  show "R r (snd (with_repo_lock P d fn r))"
    using with_repo_lock_cases [of P d fn r] assms
    by (auto simp: keeps_def reflp_def)
qed

text \<open>An undisturbed lock: the file opens and the first attempt acquires it.\<close>

definition lock_free :: "('r, 'm) posix_scheme \<Rightarrow> 'r \<Rightarrow> bool" where
  "lock_free P r \<longleftrightarrow> (\<forall>f. os_open_lock P r f = None) \<and> os_flock P r 0 = Flock_acquired"

lemma with_repo_lock_free: "lock_free P r \<Longrightarrow> with_repo_lock P d fn r = fn r"
  by (simp add: lock_free_def with_repo_lock_def flock_loop.simps)

lemma flock_loop_returns:
  assumes "\<And>n. os_clock P r n + 50 \<le> os_clock P r (Suc n)"
  shows "\<exists>res. flock_loop P r l deadline k = Some res \<and> res \<noteq> Inl Nontermination"
proof (induction "deadline - os_clock P r k" arbitrary: k rule: less_induct)
  case less
  show ?case
  proof (cases "os_flock P r k = Flock_would_block \<and> os_clock P r (Suc k) < deadline")
    case True
    then have "deadline - os_clock P r (Suc k) < deadline - os_clock P r k"
      using assms [of k] by linarith
    with less have "\<exists>res. flock_loop P r l deadline (Suc k) = Some res \<and> res \<noteq> Inl Nontermination"
      by blast
    with True show ?thesis by (subst flock_loop.simps) simp
  next
    case False
    then show ?thesis
      by (subst flock_loop.simps) (auto split: flock_rc.splits)
  qed
qed

lemma create_loop_returns:
  assumes "\<And>n. win_clock W r n + 50 \<le> win_clock W r (Suc n)"
  shows "\<exists>res. create_loop W r l deadline k = Some res \<and> res \<noteq> Inl Nontermination"
proof (induction "deadline - win_clock W r k" arbitrary: k rule: less_induct)
  case less
  show ?case
  proof (cases "\<not> win_create_file W r l k \<and> win_clock W r (Suc k) < deadline")
    case True
    then have "deadline - win_clock W r (Suc k) < deadline - win_clock W r k"
      using assms [of k] by linarith
    with less have "\<exists>res. create_loop W r l deadline (Suc k) = Some res \<and> res \<noteq> Inl Nontermination" by blast
    with True show ?thesis by (subst create_loop.simps) simp
  qed (subst create_loop.simps, auto)
qed

text \<open>A body that ran at most once: its outcome, or an error on the unchanged world.\<close>

definition runs_or_throws :: "('r, 'a) vop \<Rightarrow> ('r, 'a) vop \<Rightarrow> 'r \<Rightarrow> bool" where
  "runs_or_throws locked fn r \<longleftrightarrow> locked r = fn r \<or> (\<exists>e. e \<noteq> Nontermination \<and> locked r = (Inl e, r))"


text \<open>A file that another process holds for good: the deadline ends the wait.\<close>

definition held_file :: "unit win32" where
  "held_file = \<lparr>win_create_file = (\<lambda>_ _ _. False), win_clock = (\<lambda>_ n. 15000 * n)\<rparr>"


end
