(* ===== verification/Vost_Paths.thy ===== *)
theory Vost_Paths
  imports Vost_Types
begin

text \<open>
  \<^verbatim>\<open>cpp/src/paths.cpp\<close>: normalisation of store paths, validation of reference names, the
  root test and the choice of a commit message.
\<close>

section \<open>normalize\<close>

text \<open>
  The \<^verbatim>\<open>while (start < sv.size())\<close> loop on the rest of the path: a segment runs to the next
  slash or to the end; empty segments and \<^verbatim>\<open>.\<close> are skipped, \<^verbatim>\<open>..\<close> throws.
\<close>

function normalize_loop :: "string \<Rightarrow> string list \<Rightarrow> string list res" where
  "normalize_loop sv segments =
     (if sv = [] then Inr segments
      else let seg = takeWhile (\<lambda>c. c \<noteq> CHR ''/'') sv;
               rest = drop 1 (dropWhile (\<lambda>c. c \<noteq> CHR ''/'') sv)
           in if seg = [] then normalize_loop rest segments
              else if seg = ''..'' then
                Inl (InvalidPathError (''path segment '' @ [CHR 0x27] @ seg @ [CHR 0x27] @
                  '' is not allowed''))
              else if seg = ''.'' then normalize_loop rest segments
              else normalize_loop rest (segments @ [seg]))"
  by pat_completeness auto
termination
proof (relation "measure (\<lambda>(sv, segments). length sv)", goal_cases)
  case 1
  show ?case by simp
next
  case (2 sv segments seg rest)
  have "length (dropWhile (\<lambda>c. c \<noteq> CHR ''/'') sv) \<le> length sv" by (rule length_dropWhile_le)
  with 2 show ?case by (cases sv) auto
next
  case (3 sv segments seg rest)
  have "length (dropWhile (\<lambda>c. c \<noteq> CHR ''/'') sv) \<le> length sv" by (rule length_dropWhile_le)
  with 3 show ?case by (cases sv) auto
next
  case (4 sv segments seg rest)
  have "length (dropWhile (\<lambda>c. c \<noteq> CHR ''/'') sv) \<le> length sv" by (rule length_dropWhile_le)
  with 4 show ?case by (cases sv) auto
qed

declare normalize_loop.simps [simp del]

definition normalize :: "string \<Rightarrow> string res" where
  "normalize path =
     (if path = [] then Inr []
      else ebind (normalize_loop path []) (\<lambda>segments.
        if segments = [] then
          if list_all (\<lambda>c. c = CHR ''/'') path then Inr []
          else Inl (InvalidPathError ''path must not be empty'')
        else Inr (join_slash segments)))"

section \<open>Reference names\<close>

text \<open>\<^verbatim>\<open>name.find(pat) != npos\<close>.\<close>

definition contains_str :: "string \<Rightarrow> string \<Rightarrow> bool" where
  "contains_str pat s \<longleftrightarrow> list_ex (prefix pat) (suffixes s)"

definition invalid_ref_chars :: "char list" where
  "invalid_ref_chars = [CHR '':'', CHR '' '', CHR 0x09, CHR 0x0A, CHR 0x0D, CHR 0x5C, CHR ''^'',
     CHR ''~'', CHR ''?'', CHR ''*'', CHR ''['']"

definition validate_ref_name :: "string \<Rightarrow> unit res" where
  "validate_ref_name name =
     (if name = [] then Inl (InvalidRefNameError ''ref name must not be empty'')
      else case find (\<lambda>ch. ch \<in> set invalid_ref_chars) name of
        Some ch \<Rightarrow> Inl (InvalidRefNameError
          (''ref name contains invalid character: '' @ [CHR 0x27, ch, CHR 0x27]))
      | None \<Rightarrow>
          if contains_str ''..'' name then
            Inl (InvalidRefNameError
              (''ref name must not contain '' @ [CHR 0x27] @ ''..'' @ [CHR 0x27]))
          else if contains_str (CHR ''@'' # [CHR 0x7B]) name then
            Inl (InvalidRefNameError
              (''ref name must not contain '' @ [CHR 0x27, CHR ''@'', CHR 0x7B, CHR 0x27]))
          else if last name = CHR ''.'' then
            Inl (InvalidRefNameError
              (''ref name must not end with '' @ [CHR 0x27] @ ''.'' @ [CHR 0x27]))
          else if suffix ''.lock'' name then
            Inl (InvalidRefNameError
              (''ref name must not end with '' @ [CHR 0x27] @ ''.lock'' @ [CHR 0x27]))
          else Inr ())"

definition is_root :: "string \<Rightarrow> bool" where
  "is_root path \<longleftrightarrow> list_all (\<lambda>c. c = CHR ''/'') path"

definition format_message :: "string \<Rightarrow> string option \<Rightarrow> string" where
  "format_message operation message = (case message of Some m \<Rightarrow> m | None \<Rightarrow> operation)"

section \<open>Normal paths\<close>

text \<open>A segment a store path may hold, and the paths \<open>normalize\<close> returns.\<close>

definition path_segment :: "string \<Rightarrow> bool" where
  "path_segment t \<longleftrightarrow> segment t \<and> t \<noteq> ''.'' \<and> t \<noteq> ''..''"

definition normal_path :: "string \<Rightarrow> bool" where
  "normal_path p \<longleftrightarrow> list_all path_segment (split_slash p) \<and> join_slash (split_slash p) = p"

lemma normalize_loop_eq:
  "normalize_loop sv acc =
     (if ''..'' \<in> set (split_slash sv)
      then Inl (InvalidPathError (''path segment '' @ [CHR 0x27] @ ''..'' @ [CHR 0x27] @
             '' is not allowed''))
      else Inr (acc @ filter (\<lambda>t. t \<noteq> ''.'') (split_slash sv)))"
proof (induction sv acc rule: normalize_loop.induct)
  case (1 sv acc)
  show ?case
  proof (cases "sv = []")
    case True
    then show ?thesis by (simp add: normalize_loop.simps)
  next
    case False
    let ?seg = "takeWhile (\<lambda>c. c \<noteq> CHR ''/'') sv"
    let ?rest = "drop 1 (dropWhile (\<lambda>c. c \<noteq> CHR ''/'') sv)"
    have split: "split_slash sv = (if ?seg = [] then [] else [?seg]) @ split_slash ?rest"
      using False by (simp add: split_slash_def getlines_nonempty)
    consider "?seg = []" | "?seg = ''..''" | "?seg = ''.''" | "?seg \<noteq> []" "?seg \<noteq> ''..''" "?seg \<noteq> ''.''"
      by blast
    then show ?thesis
      by cases (insert False 1 split, auto simp: normalize_loop.simps [of sv acc] Let_def)
  qed
qed

lemma path_segment_segment: "path_segment t \<Longrightarrow> segment t"
  by (simp add: path_segment_def)

lemma list_all_segment: "list_all path_segment ts \<Longrightarrow> \<forall>t\<in>set ts. segment t"
  by (auto simp: list_all_iff path_segment_def)

lemma normal_path_Nil [simp]: "normal_path []"
  by (simp add: normal_path_def)

lemma normal_path_join: "list_all path_segment ts \<Longrightarrow> normal_path (join_slash ts)"
  by (simp add: normal_path_def list_all_segment)

lemma normal_path_Nil_iff: "normal_path p \<Longrightarrow> split_slash p = [] \<longleftrightarrow> p = []"
  by (auto simp: normal_path_def)

lemma normalize_eq:
  "normalize p =
     (let segs = split_slash p; kept = filter (\<lambda>t. t \<noteq> ''.'') segs in
      if ''..'' \<in> set segs
      then Inl (InvalidPathError (''path segment '' @ [CHR 0x27] @ ''..'' @ [CHR 0x27] @
             '' is not allowed''))
      else if kept = [] \<and> segs \<noteq> [] then Inl (InvalidPathError ''path must not be empty'')
      else Inr (join_slash kept))"
  by (auto simp: normalize_def normalize_loop_eq Let_def list_all_iff split_slash_Nil_iff
      simp del: list.pred_set)

lemma normalize_Inr_split:
  assumes "normalize p = Inr q"
  shows "split_slash q = filter (\<lambda>t. t \<noteq> ''.'') (split_slash p)"
    and "list_all path_segment (split_slash q)" and "normal_path q"
proof -
  let ?kept = "filter (\<lambda>t. t \<noteq> ''.'') (split_slash p)"
  have q: "q = join_slash ?kept" and dd: "''..'' \<notin> set (split_slash p)"
    using assms by (auto simp: normalize_eq Let_def split: if_splits)
  have segs: "list_all path_segment ?kept"
    using dd by (auto simp: list_all_iff path_segment_def dest: split_slash_segments)
  then have "split_slash q = ?kept"
    by (simp add: q list_all_segment)
  with segs show "split_slash q = ?kept" "list_all path_segment (split_slash q)" "normal_path q"
    by (simp_all add: q normal_path_join)
qed

lemma normalize_normal: "normal_path q \<Longrightarrow> normalize q = Inr q"
  by (auto simp: normalize_eq normal_path_def Let_def list_all_iff path_segment_def
      filter_empty_conv filter_id_conv)

text \<open>C18: a path that \<^verbatim>\<open>normalize\<close> accepts comes back canonical: it is its own segments joined
  by single slashes, no segment is empty, \<^verbatim>\<open>.\<close> or \<^verbatim>\<open>..\<close>, the segments are those of the input
  without the \<^verbatim>\<open>.\<close> markers, and normalising again changes nothing.\<close>

theorem normalize_canonical:
  assumes "normalize p = Inr q"
  shows "join_slash (split_slash q) = q \<and>
    (\<forall>t\<in>set (split_slash q). t \<noteq> [] \<and> t \<noteq> ''.'' \<and> t \<noteq> ''..'' \<and> CHR ''/'' \<notin> set t) \<and>
    split_slash q = filter (\<lambda>t. t \<noteq> ''.'') (split_slash p) \<and>
    normalize q = Inr q"
  using normalize_Inr_split [OF assms] normalize_normal
  by (auto simp: normal_path_def list_all_iff path_segment_def segment_def)

theorem normalize_canonical_witness:
  "normalize ''//a/./b c///d/'' = Inr ''a/b c/d'' \<and> normalize ''a/b c/d'' = Inr ''a/b c/d''"
proof -
  have h: "normalize ''//a/./b c///d/'' = Inr ''a/b c/d''" by code_simp
  from h normalize_canonical [OF h] show ?thesis by blast
qed

text \<open>\<^verbatim>\<open>normalize\<close> throws exactly on paths with a \<^verbatim>\<open>..\<close> segment and on paths that are not all
  slashes but collapse to nothing; a path of slashes only is the root.\<close>

lemma normalize_outcome:
  "((\<exists>e. normalize p = Inl e) \<longleftrightarrow>
     ''..'' \<in> set (split_slash p) \<or> (\<not> is_root p \<and> set (split_slash p) \<subseteq> {''.''})) \<and>
   (normalize p = Inr [] \<longleftrightarrow> is_root p)"
proof (rule conjI)
  have r: "is_root p \<longleftrightarrow> split_slash p = []"
    by (simp add: is_root_def split_slash_Nil_iff list_all_iff)
  show "(\<exists>e. normalize p = Inl e) \<longleftrightarrow>
     ''..'' \<in> set (split_slash p) \<or> (\<not> is_root p \<and> set (split_slash p) \<subseteq> {''.''})"
    unfolding r by (auto simp: normalize_eq Let_def filter_empty_conv)
  have "normalize p = Inr [] \<longleftrightarrow> split_slash p = []"
  proof
    assume n: "normalize p = Inr []"
    from normalize_Inr_split(1) [OF n] have "filter (\<lambda>t. t \<noteq> ''.'') (split_slash p) = []" by simp
    with n show "split_slash p = []" by (auto simp: normalize_eq Let_def split: if_splits)
  qed (simp add: normalize_eq)
  with r show "normalize p = Inr [] \<longleftrightarrow> is_root p" by simp
qed

end
