(* ===== verification/Vost_Tree.thy ===== *)
theory Vost_Tree
  imports Vost_Lock Vost_Paths
begin

text \<open>
  \<^verbatim>\<open>cpp/src/tree.cpp\<close>: reading entries, blobs and listings out of a tree object, rebuilding a
  tree with writes and removes, writing and reading commits. Object ids travel as hex strings,
  as in the sources.
\<close>

section \<open>Helpers\<close>

definition oid_to_hex :: "('r, 'b) libgit2 \<Rightarrow> git_oid \<Rightarrow> string" where
  "oid_to_hex G oid = git_oid_tostr G oid"

definition hex_to_oid :: "('r, 'b) libgit2 \<Rightarrow> string \<Rightarrow> git_oid res" where
  "hex_to_oid G hex =
     (case git_oid_fromstr G hex of None \<Rightarrow> Inl (InvalidHashError hex) | Some oid \<Rightarrow> Inr oid)"

definition throw_git_error :: "('r, 'b) libgit2 \<Rightarrow> 'r \<Rightarrow> string \<Rightarrow> 'a res" where
  "throw_git_error G r context =
     Inl (GitError (case git_error_last G r of Some m \<Rightarrow> context @ '': '' @ m | None \<Rightarrow> context))"

text \<open>\<^verbatim>\<open>if (call != 0) throw_git_error(context)\<close>, for a call that reads and for one that writes.\<close>

definition require_ok :: "('r, 'b) libgit2 \<Rightarrow> 'r \<Rightarrow> string \<Rightarrow> 'a option \<Rightarrow> 'a res" where
  "require_ok G r context x = (case x of None \<Rightarrow> throw_git_error G r context | Some y \<Rightarrow> Inr y)"

definition call_write ::
  "('r, 'b) libgit2 \<Rightarrow> string \<Rightarrow> ('r \<Rightarrow> ('a \<times> 'r) option) \<Rightarrow> ('r, 'a) vop" where
  "call_write G context f r =
     (case f r of None \<Rightarrow> (throw_git_error G r context, r) | Some (x, r') \<Rightarrow> (Inr x, r'))"

text \<open>The errors of the object layer: a call of the library failed, or an id did not parse.\<close>

fun git_failure :: "verror \<Rightarrow> bool" where
  "git_failure (GitError m) \<longleftrightarrow> True"
| "git_failure (InvalidHashError h) \<longleftrightarrow> True"
| "git_failure e \<longleftrightarrow> False"

lemma git_failureD: "git_failure e \<Longrightarrow> (\<exists>m. e = GitError m) \<or> (\<exists>h. e = InvalidHashError h)"
  by (cases e) simp_all

lemma throws_call_write: "throws git_failure (call_write G c f)"
  by (auto simp: throws_def call_write_def throw_git_error_def split: option.splits)

lemma hex_to_oid_failure: "hex_to_oid G h = Inl e \<Longrightarrow> git_failure e"
  by (auto simp: hex_to_oid_def split: option.splits)

lemma require_ok_failure: "require_ok G r c x = Inl e \<Longrightarrow> git_failure e"
  by (auto simp: require_ok_def throw_git_error_def split: option.splits)

lemma require_ok_Inr [outcome_iff]: "require_ok G r c x = Inr y \<longleftrightarrow> x = Some y"
  by (auto simp: require_ok_def throw_git_error_def split: option.splits)

lemma hex_to_oid_Inr [outcome_iff]: "hex_to_oid G h = Inr oid \<longleftrightarrow> git_oid_fromstr G h = Some oid"
  by (auto simp: hex_to_oid_def split: option.splits)

lemma call_write_Inr [outcome_iff]: "call_write G c f r = (Inr x, r') \<longleftrightarrow> f r = Some (x, r')"
  by (auto simp: call_write_def throw_git_error_def split: option.splits)

section \<open>Lookup\<close>

text \<open>The \<^verbatim>\<open>for\<close> loop of \<^verbatim>\<open>entry_at_path\<close> over the segments from a tree on.\<close>

fun entry_at_segs :: "('r, 'b) libgit2 \<Rightarrow> 'r \<Rightarrow> git_oid \<Rightarrow> string list \<Rightarrow> (string \<times> u32) option res" where
  "entry_at_segs G r cur_oid [] = Inr None"
| "entry_at_segs G r cur_oid (seg # segs) =
     ebind (require_ok G r ''git_tree_lookup'' (git_tree_lookup G r cur_oid)) (\<lambda>t.
       case git_tree_entry_byname G t seg of
         None \<Rightarrow> Inr None
       | Some e \<Rightarrow>
           if segs = [] then Inr (Some (oid_to_hex G (te_oid e), te_mode e))
           else if te_mode e \<noteq> MODE_TREE then Inr None
           else entry_at_segs G r (te_oid e) segs)"

definition entry_at_path ::
  "('r, 'b) libgit2 \<Rightarrow> 'r \<Rightarrow> string \<Rightarrow> string \<Rightarrow> (string \<times> u32) option res" where
  "entry_at_path G r tree_oid_hex norm_path =
     (if norm_path = [] then Inr (Some (tree_oid_hex, MODE_TREE))
      else ebind (hex_to_oid G tree_oid_hex) (\<lambda>oid.
        entry_at_segs G r oid (split_slash norm_path)))"

definition lookup :: "('r, 'b) libgit2 \<Rightarrow> 'r \<Rightarrow> string \<Rightarrow> string \<Rightarrow> (string \<times> u32) option res" where
  "lookup G r tree_oid_hex norm_path = entry_at_path G r tree_oid_hex norm_path"

definition read_blob :: "('r, 'b) libgit2 \<Rightarrow> 'r \<Rightarrow> string \<Rightarrow> string \<Rightarrow> byte list res" where
  "read_blob G r tree_oid_hex norm_path =
     ebind (entry_at_path G r tree_oid_hex norm_path) (\<lambda>entry.
       case entry of
         None \<Rightarrow> Inl (NotFoundError norm_path)
       | Some (oid_hex, mode) \<Rightarrow>
           if mode = MODE_TREE then Inl (IsADirectoryError norm_path)
           else ebind (hex_to_oid G oid_hex) (\<lambda>oid.
             require_ok G r ''git_blob_lookup'' (git_blob_lookup G r oid)))"

section \<open>Listings\<close>

definition walk_entry_of :: "('r, 'b) libgit2 \<Rightarrow> tree_entry \<Rightarrow> WalkEntry" where
  "walk_entry_of G e = \<lparr>we_name = te_name e, we_oid = oid_to_hex G (te_oid e), we_mode = te_mode e\<rparr>"

text \<open>The first lines shared by the listings: the id of the tree at a path.\<close>

definition target_tree :: "('r, 'b) libgit2 \<Rightarrow> 'r \<Rightarrow> string \<Rightarrow> string \<Rightarrow> string res" where
  "target_tree G r tree_oid_hex norm_path =
     (if norm_path = [] then Inr tree_oid_hex
      else ebind (entry_at_path G r tree_oid_hex norm_path) (\<lambda>entry.
        case entry of
          None \<Rightarrow> Inl (NotFoundError norm_path)
        | Some (oid_hex, mode) \<Rightarrow>
            if mode \<noteq> MODE_TREE then Inl (NotADirectoryError norm_path) else Inr oid_hex))"

definition list_tree_by_oid :: "('r, 'b) libgit2 \<Rightarrow> 'r \<Rightarrow> string \<Rightarrow> WalkEntry list res" where
  "list_tree_by_oid G r tree_oid_hex =
     ebind (hex_to_oid G tree_oid_hex) (\<lambda>oid.
       ebind (require_ok G r ''git_tree_lookup'' (git_tree_lookup G r oid)) (\<lambda>t.
         Inr (map (walk_entry_of G) t)))"

definition list_tree :: "('r, 'b) libgit2 \<Rightarrow> 'r \<Rightarrow> string \<Rightarrow> string \<Rightarrow> WalkEntry list res" where
  "list_tree G r tree_oid_hex norm_path =
     ebind (target_tree G r tree_oid_hex norm_path) (\<lambda>target_oid_hex.
       ebind (hex_to_oid G target_oid_hex) (\<lambda>oid.
         ebind (require_ok G r ''git_tree_lookup'' (git_tree_lookup G r oid)) (\<lambda>t.
           Inr (map (walk_entry_of G) t))))"

text \<open>
  The callback of \<^verbatim>\<open>git_tree_walk\<close>: directories are skipped, for the other entries the root and
  the name are concatenated and a trailing slash dropped.
\<close>

definition walk_callback :: "('r, 'b) libgit2 \<Rightarrow> string \<times> tree_entry \<Rightarrow> (string \<times> WalkEntry) list" where
  "walk_callback G = (\<lambda>(root, e).
     if te_mode e = MODE_TREE then []
     else let rel = root @ te_name e;
              rel = (if rel \<noteq> [] \<and> last rel = CHR ''/'' then butlast rel else rel)
          in [(rel, walk_entry_of G e)])"

definition walk_tree :: "('r, 'b) libgit2 \<Rightarrow> 'r \<Rightarrow> string \<Rightarrow> string \<Rightarrow> (string \<times> WalkEntry) list res" where
  "walk_tree G r tree_oid_hex norm_path =
     ebind (target_tree G r tree_oid_hex norm_path) (\<lambda>target_oid_hex.
       ebind (hex_to_oid G target_oid_hex) (\<lambda>oid.
         ebind (require_ok G r ''git_tree_lookup'' (git_tree_lookup G r oid)) (\<lambda>t.
           ebind (require_ok G r ''git_tree_walk'' (git_tree_walk G r oid)) (\<lambda>ws.
             let results = concat (map (walk_callback G) ws) in
             Inr (if norm_path = [] then results
                  else map (apfst (\<lambda>p. norm_path @ CHR ''/'' # p)) results)))))"

text \<open>
  The recursive lambda of \<^verbatim>\<open>walk_tree_dirs\<close>. Fuel is the nesting depth of the tree plus one.
\<close>

fun walk_dirs_rec :: "('r, 'b) libgit2 \<Rightarrow> 'r \<Rightarrow> nat \<Rightarrow> string \<Rightarrow> string \<Rightarrow> WalkDirEntry list res" where
  "walk_dirs_rec G r 0 oid_hex pfx = Inl Nontermination"
| "walk_dirs_rec G r (Suc fuel) oid_hex pfx =
     ebind (hex_to_oid G oid_hex) (\<lambda>oid.
       ebind (require_ok G r ''git_tree_lookup'' (git_tree_lookup G r oid)) (\<lambda>t.
         let dirs = filter (\<lambda>e. te_mode e = MODE_TREE) t;
             entry = \<lparr>dirpath = pfx, dirnames = map te_name dirs,
                      wd_files = map (walk_entry_of G) (filter (\<lambda>e. te_mode e \<noteq> MODE_TREE) t)\<rparr>
         in ebind (emap (\<lambda>e. walk_dirs_rec G r fuel (oid_to_hex G (te_oid e))
                    (if pfx = [] then te_name e else pfx @ CHR ''/'' # te_name e)) dirs)
              (\<lambda>subs. Inr (entry # concat subs))))"

definition walk_tree_dirs :: "('r, 'b) libgit2 \<Rightarrow> 'r \<Rightarrow> string \<Rightarrow> string \<Rightarrow> WalkDirEntry list res" where
  "walk_tree_dirs G r tree_oid_hex norm_path =
     ebind (target_tree G r tree_oid_hex norm_path) (\<lambda>target_oid_hex.
       ebind (hex_to_oid G target_oid_hex) (\<lambda>oid.
         walk_dirs_rec G r (Suc (git_tree_depth G r oid)) target_oid_hex norm_path))"

definition count_subdirs :: "('r, 'b) libgit2 \<Rightarrow> 'r \<Rightarrow> string \<Rightarrow> u32 res" where
  "count_subdirs G r tree_oid_hex =
     ebind (hex_to_oid G tree_oid_hex) (\<lambda>oid.
       ebind (require_ok G r ''git_tree_lookup'' (git_tree_lookup G r oid)) (\<lambda>t.
         Inr (word_of_nat (length (filter (\<lambda>e. te_mode e = MODE_TREE) t)))))"

section \<open>Rebuilding a tree\<close>

record PendingWrite =
  pw_segs :: "string list"
  pw_oid_hex :: string
  pw_mode :: u32

type_synonym tree_write = "string \<times> byte list \<times> u32"

text \<open>The first loop of \<^verbatim>\<open>rebuild_tree\<close>: every blob is written before any tree.\<close>

definition write_blob :: "('r, 'b) libgit2 \<Rightarrow> tree_write \<Rightarrow> ('r, PendingWrite) vop" where
  "write_blob G = (\<lambda>(norm_path, data, mode).
     sbind (call_write G ''git_blob_create_from_buffer'' (\<lambda>r. git_blob_create_from_buffer G r data))
       (\<lambda>blob_oid. sreturn \<lparr>pw_segs = split_slash norm_path,
                            pw_oid_hex = oid_to_hex G blob_oid, pw_mode = mode\<rparr>))"

definition matches_prefix :: "string list \<Rightarrow> string list \<Rightarrow> bool" where
  "matches_prefix pfx segs \<longleftrightarrow> length pfx < length segs \<and> take (length pfx) segs = pfx"

text \<open>The builder a level starts from; a tree that cannot be looked up counts as empty.\<close>

definition start_builder :: "('r, 'b) libgit2 \<Rightarrow> 'r \<Rightarrow> string \<Rightarrow> 'b res" where
  "start_builder G r cur_tree_oid_hex =
     ebind (hex_to_oid G cur_tree_oid_hex) (\<lambda>base_oid.
       case (if cur_tree_oid_hex = zero_hex then None else git_tree_lookup G r base_oid) of
         Some t \<Rightarrow> require_ok G r ''git_treebuilder_new'' (git_treebuilder_new G r (Some t))
       | None \<Rightarrow> require_ok G r ''git_treebuilder_new (empty)'' (git_treebuilder_new G r None))"

text \<open>\<^verbatim>\<open>subtree_writes[name]\<close>, set on the first change below \<open>name\<close>.\<close>

definition note_subtree :: "('r, 'b) libgit2 \<Rightarrow> 'b \<Rightarrow> string \<Rightarrow> string std_map \<Rightarrow> string std_map" where
  "note_subtree G b name subtree_writes =
     (if map_of subtree_writes name \<noteq> None then subtree_writes
      else smap_set name
        (case git_treebuilder_get G b name of
           Some e \<Rightarrow> if te_mode e = MODE_TREE then oid_to_hex G (te_oid e) else zero_hex
         | None \<Rightarrow> zero_hex) subtree_writes)"

type_synonym leaf_map = "(string \<times> u32) std_map"

fun scan_pending :: "('r, 'b) libgit2 \<Rightarrow> 'b \<Rightarrow> string list \<Rightarrow> PendingWrite list \<Rightarrow>
    leaf_map \<Rightarrow> string std_map \<Rightarrow> leaf_map \<times> string std_map" where
  "scan_pending G b pfx [] inserts subtree_writes = (inserts, subtree_writes)"
| "scan_pending G b pfx (pw # pending) inserts subtree_writes =
     (let depth = length pfx in
      if \<not> matches_prefix pfx (pw_segs pw)
      then scan_pending G b pfx pending inserts subtree_writes
      else if length (pw_segs pw) = depth + 1
      then scan_pending G b pfx pending
             (smap_set (pw_segs pw ! depth) (pw_oid_hex pw, pw_mode pw) inserts) subtree_writes
      else scan_pending G b pfx pending inserts
             (note_subtree G b (pw_segs pw ! depth) subtree_writes))"

fun scan_removes :: "('r, 'b) libgit2 \<Rightarrow> string list \<Rightarrow> string list list \<Rightarrow>
    'b \<Rightarrow> string std_map \<Rightarrow> 'b \<times> string std_map" where
  "scan_removes G pfx [] b subtree_writes = (b, subtree_writes)"
| "scan_removes G pfx (rv # remove_segs) b subtree_writes =
     (let depth = length pfx in
      if \<not> matches_prefix pfx rv then scan_removes G pfx remove_segs b subtree_writes
      else if length rv = depth + 1
      then scan_removes G pfx remove_segs (git_treebuilder_remove G b (rv ! depth)) subtree_writes
      else scan_removes G pfx remove_segs b (note_subtree G b (rv ! depth) subtree_writes))"

definition insert_entry ::
  "('r, 'b) libgit2 \<Rightarrow> string \<Rightarrow> string \<Rightarrow> string \<Rightarrow> u32 \<Rightarrow> 'b \<Rightarrow> ('r, 'b) vop" where
  "insert_entry G context name oid_hex mode b = sread (\<lambda>r.
     ebind (hex_to_oid G oid_hex) (\<lambda>oid.
       require_ok G r context (git_treebuilder_insert G r b name oid mode)))"

text \<open>
  The recursive lambda \<^verbatim>\<open>rebuild\<close>. Fuel is one more than the number of segments a changed path
  can still have below \<open>pfx\<close>; \<open>throws_rebuild\<close> shows that it is enough.
\<close>

fun rebuild :: "('r, 'b) libgit2 \<Rightarrow> PendingWrite list \<Rightarrow> string list list \<Rightarrow> nat \<Rightarrow>
    string \<Rightarrow> string list \<Rightarrow> ('r, string) vop" where
  "rebuild G pending remove_segs 0 cur_tree_oid_hex pfx = sthrow Nontermination"
| "rebuild G pending remove_segs (Suc fuel) cur_tree_oid_hex pfx =
     sbind (sread (\<lambda>r. start_builder G r cur_tree_oid_hex)) (\<lambda>b0.
       case scan_pending G b0 pfx pending [] [] of (inserts, subs0) \<Rightarrow>
       case scan_removes G pfx remove_segs b0 subs0 of (b1, subtree_writes) \<Rightarrow>
       sbind (sfold (\<lambda>(name, sub_oid) b.
                sbind (rebuild G pending remove_segs fuel sub_oid (pfx @ [name])) (\<lambda>new_sub_oid.
                  insert_entry G ''git_treebuilder_insert subtree'' name new_sub_oid MODE_TREE b))
              subtree_writes b1) (\<lambda>b2.
       sbind (sfold (\<lambda>(name, oid_hex, mode) b.
                insert_entry G ''git_treebuilder_insert blob'' name oid_hex mode b)
              inserts b2) (\<lambda>b3.
       sbind (call_write G ''git_treebuilder_write'' (\<lambda>r. git_treebuilder_write G r b3)) (\<lambda>oid.
         sreturn (oid_to_hex G oid)))))"

declare rebuild.simps(2) [simp del]

definition rebuild_tree ::
  "('r, 'b) libgit2 \<Rightarrow> string \<Rightarrow> tree_write list \<Rightarrow> string list \<Rightarrow> ('r, string) vop" where
  "rebuild_tree G base_tree_oid_hex writes removes =
     sbind (smap (write_blob G) writes) (\<lambda>pending.
       let remove_segs = map split_slash removes;
           fuel = Suc (fold max (map length (map pw_segs pending @ remove_segs)) 0)
       in rebuild G pending remove_segs fuel base_tree_oid_hex [])"

section \<open>Commits\<close>

definition commit_parents :: "('r, 'b) libgit2 \<Rightarrow> string list \<Rightarrow> 'r \<Rightarrow> git_oid list res" where
  "commit_parents G parent_oids r =
     emap (\<lambda>oid_hex.
       ebind (hex_to_oid G oid_hex) (\<lambda>parent_oid.
         ebind (require_ok G r ''git_commit_lookup (parent)'' (git_commit_lookup G r parent_oid)) (\<lambda>c.
           Inr parent_oid))) (filter (\<lambda>h. h \<noteq> []) parent_oids)"

definition write_commit ::
  "('r, 'b) libgit2 \<Rightarrow> string \<Rightarrow> string list \<Rightarrow> Signature \<Rightarrow> string \<Rightarrow> ('r, string) vop" where
  "write_commit G tree_oid_hex parent_oids sig message =
     sbind (sread (\<lambda>r.
       ebind (hex_to_oid G tree_oid_hex) (\<lambda>tree_oid.
       ebind (require_ok G r ''git_tree_lookup (write_commit)'' (git_tree_lookup G r tree_oid)) (\<lambda>t.
       ebind (require_ok G r ''git_signature_now'' (git_signature_now G r (sig_name sig) (sig_email sig))) (\<lambda>author_sig.
       ebind (commit_parents G parent_oids r) (\<lambda>parents.
         Inr (tree_oid, author_sig, parents)))))))
     (\<lambda>(tree_oid, author_sig, parents).
       sbind (call_write G ''git_commit_create'' (\<lambda>r. git_commit_create G r author_sig message tree_oid parents))
         (\<lambda>new_commit_oid. sreturn (oid_to_hex G new_commit_oid)))"

definition tree_oid_for_commit :: "('r, 'b) libgit2 \<Rightarrow> 'r \<Rightarrow> string \<Rightarrow> string res" where
  "tree_oid_for_commit G r commit_oid_hex =
     ebind (hex_to_oid G commit_oid_hex) (\<lambda>commit_oid.
       ebind (require_ok G r ''git_commit_lookup (tree_oid_for_commit)'' (git_commit_lookup G r commit_oid)) (\<lambda>c.
         Inr (oid_to_hex G (gc_tree c))))"

record CommitMeta =
  cm_message :: string
  cm_time :: u64
  cm_author_name :: string
  cm_author_email :: string
  cm_tree_oid_hex :: string
  cm_parent_oid_hex :: string  \<comment> \<open>empty for an initial commit\<close>

definition strip_newlines :: "string \<Rightarrow> string" where
  "strip_newlines s = rev (dropWhile (\<lambda>ch. ch = CHR 0x0A) (rev s))"

definition read_commit :: "('r, 'b) libgit2 \<Rightarrow> 'r \<Rightarrow> string \<Rightarrow> CommitMeta res" where
  "read_commit G r commit_oid_hex =
     ebind (hex_to_oid G commit_oid_hex) (\<lambda>commit_oid.
       ebind (require_ok G r ''git_commit_lookup (read_commit)'' (git_commit_lookup G r commit_oid)) (\<lambda>c.
         Inr \<lparr>cm_message = strip_newlines (case gc_message c of Some m \<Rightarrow> m | None \<Rightarrow> []),
              cm_time = gc_time c,
              cm_author_name = (case gc_author c of Some a \<Rightarrow> gs_name a | None \<Rightarrow> []),
              cm_author_email = (case gc_author c of Some a \<Rightarrow> gs_email a | None \<Rightarrow> []),
              cm_tree_oid_hex = oid_to_hex G (gc_tree c),
              cm_parent_oid_hex = (case gc_parents c of p # ps \<Rightarrow> oid_to_hex G p | [] \<Rightarrow> [])\<rparr>))"

end
