(* ===== verification/Vost_Git_Memory.thy ===== *)
theory Vost_Git_Memory
  imports Vost_Git
begin

text \<open>
  An executable object and reference database in memory that satisfies every law of
  \<open>Vost_Git\<close>: it shows that the laws are consistent and runs the operations of the model on
  concrete repositories. Objects are a list that only grows and never holds an object twice;
  the id of the \<open>i\<close>-th object is \<open>i + 1\<close> bytes of value 1, so an object can only refer to
  objects with a shorter id.
\<close>

section \<open>Object ids in hexadecimal\<close>

definition hex_digit :: "nat \<Rightarrow> char" where
  "hex_digit n = (if n < 10 then char_of (48 + n) else char_of (87 + n))"

definition hex_value :: "char \<Rightarrow> nat option" where
  "hex_value c = (let n = of_char c in
     if 48 \<le> n \<and> n \<le> 57 then Some (n - 48)
     else if 97 \<le> n \<and> n \<le> 102 then Some (n - 87) else None)"

fun hex_of_bytes :: "byte list \<Rightarrow> string" where
  "hex_of_bytes [] = []"
| "hex_of_bytes (b # bs) = hex_digit (unat b div 16) # hex_digit (unat b mod 16) # hex_of_bytes bs"

fun bytes_of_hex :: "string \<Rightarrow> byte list option" where
  "bytes_of_hex [] = Some []"
| "bytes_of_hex [c] = None"
| "bytes_of_hex (c # d # s) =
     (case (hex_value c, hex_value d, bytes_of_hex s) of
        (Some x, Some y, Some bs) \<Rightarrow> Some (word_of_nat (16 * x + y) # bs)
      | _ \<Rightarrow> None)"

lemma hex_value_digit: "n < 16 \<Longrightarrow> hex_value (hex_digit n) = Some n"
proof -
  assume "n < 16"
  moreover have "\<forall>n\<in>{..<16}. hex_value (hex_digit n) = Some n"
    by (simp add: lessThan_nat_numeral lessThan_Suc hex_value_def hex_digit_def)
  ultimately show ?thesis by simp
qed

lemma unat_byte_less: "unat (b :: byte) < 256"
  using unsigned_less [of b, where ?'a = nat] by simp

lemma bytes_of_hex_of_bytes [simp]: "bytes_of_hex (hex_of_bytes bs) = Some bs"
proof (induction bs)
  case (Cons b bs)
  have "unat b div 16 < 16" using unat_byte_less [of b] by simp
  then show ?case using Cons by (simp add: hex_value_digit)
qed simp

lemma hex_of_bytes_inject: "hex_of_bytes bs = hex_of_bytes cs \<Longrightarrow> bs = cs"
  by (metis bytes_of_hex_of_bytes option.inject)

section \<open>The store\<close>

datatype mem_obj = MBlob "byte list" | MTree git_tree | MCommit git_commit

record mem =
  m_objs :: "mem_obj list"
  m_refs :: "(string \<times> (git_oid + string)) list"
  m_logs :: "(string \<times> git_reflog_entry list) list"
  m_head :: string

definition mem_empty :: mem where
  "mem_empty = \<lparr>m_objs = [], m_refs = [], m_logs = [], m_head = ''refs/heads/main''\<rparr>"

definition mem_oid :: "nat \<Rightarrow> git_oid" where
  "mem_oid i = replicate (Suc i) 1"

fun index_of :: "'a \<Rightarrow> 'a list \<Rightarrow> nat option" where
  "index_of x [] = None"
| "index_of x (y # ys) = (if x = y then Some 0 else map_option Suc (index_of x ys))"

definition mem_get :: "mem \<Rightarrow> git_oid \<Rightarrow> mem_obj option" where
  "mem_get r oid =
     (let i = length oid - 1 in
      if oid \<noteq> [] \<and> list_all (\<lambda>b. b = 1) oid \<and> length oid \<le> length (m_objs r)
         \<and> index_of (m_objs r ! i) (m_objs r) = Some i
      then Some (m_objs r ! i) else None)"

definition mem_put :: "mem \<Rightarrow> mem_obj \<Rightarrow> git_oid \<times> mem" where
  "mem_put r obj = (case index_of obj (m_objs r) of
       Some i \<Rightarrow> (mem_oid i, r)
     | None \<Rightarrow> (mem_oid (length (m_objs r)), r\<lparr>m_objs := m_objs r @ [obj]\<rparr>))"

definition mem_blob_lookup :: "mem \<Rightarrow> git_oid \<Rightarrow> byte list option" where
  "mem_blob_lookup r oid = (case mem_get r oid of Some (MBlob d) \<Rightarrow> Some d | _ \<Rightarrow> None)"

definition mem_tree_ok :: "git_oid \<Rightarrow> git_tree \<Rightarrow> bool" where
  "mem_tree_ok oid t \<longleftrightarrow> distinct (map te_name t) \<and> list_all (\<lambda>e. segment (te_name e)) t \<and>
     list_all (\<lambda>e. te_mode e = MODE_TREE \<longrightarrow> length (te_oid e) < length oid) t"

definition mem_tree_lookup :: "mem \<Rightarrow> git_oid \<Rightarrow> git_tree option" where
  "mem_tree_lookup r oid =
     (case mem_get r oid of
        Some (MTree t) \<Rightarrow> if mem_tree_ok oid t then Some t else None
      | _ \<Rightarrow> None)"

definition mem_commit_lookup :: "mem \<Rightarrow> git_oid \<Rightarrow> git_commit option" where
  "mem_commit_lookup r oid =
     (case mem_get r oid of
        Some (MCommit c) \<Rightarrow>
          if list_all (\<lambda>p. length p < length oid) (gc_parents c) then Some c else None
      | _ \<Rightarrow> None)"

definition mem_byname :: "git_tree \<Rightarrow> string \<Rightarrow> tree_entry option" where
  "mem_byname t n = find (\<lambda>e. te_name e = n) t"

definition mem_blob_create :: "mem \<Rightarrow> byte list \<Rightarrow> (git_oid \<times> mem) option" where
  "mem_blob_create r d = Some (mem_put r (MBlob d))"

definition mem_tree_write :: "mem \<Rightarrow> git_tree \<Rightarrow> (git_oid \<times> mem) option" where
  "mem_tree_write r b =
     (let (oid, r') = mem_put r (MTree b)
      in if mem_tree_lookup r' oid = Some b then Some (oid, r') else None)"

definition mem_commit_create ::
  "mem \<Rightarrow> git_signature \<Rightarrow> string \<Rightarrow> git_oid \<Rightarrow> git_oid list \<Rightarrow> (git_oid \<times> mem) option" where
  "mem_commit_create r sg msg tree ps =
     (let c = \<lparr>gc_message = Some (dropWhile (\<lambda>ch. ch = CHR 0x0A) msg), gc_author = Some sg,
               gc_time = gs_when sg, gc_tree = tree, gc_parents = ps\<rparr>;
          (oid, r') = mem_put r (MCommit c)
      in if mem_commit_lookup r' oid = Some c then Some (oid, r') else None)"

definition mem_insert :: "git_tree \<Rightarrow> string \<Rightarrow> git_oid \<Rightarrow> u32 \<Rightarrow> git_tree option" where
  "mem_insert b n oid m =
     (if m = MODE_BLOB \<or> m = MODE_BLOB_EXEC \<or> m = MODE_LINK \<or> m = MODE_TREE \<or> m = 0xE000
      then Some (insort_key te_name \<lparr>te_name = n, te_oid = oid, te_mode = m\<rparr>
             (filter (\<lambda>e. te_name e \<noteq> n) b))
      else None)"

fun mem_walk :: "nat \<Rightarrow> mem \<Rightarrow> git_oid \<Rightarrow> (string \<times> tree_entry) list option" where
  "mem_walk 0 r oid = None"
| "mem_walk (Suc k) r oid =
     (case mem_tree_lookup r oid of
        None \<Rightarrow> None
      | Some t \<Rightarrow>
          if list_all (\<lambda>e. te_mode e = MODE_TREE \<longrightarrow> mem_walk k r (te_oid e) \<noteq> None) t
          then Some (concat (map (\<lambda>e. ([], e) #
                 (if te_mode e = MODE_TREE
                  then map (apfst (\<lambda>p. te_name e @ CHR ''/'' # p)) (the (mem_walk k r (te_oid e)))
                  else [])) t))
          else None)"

definition alist_set :: "string \<Rightarrow> 'v \<Rightarrow> (string \<times> 'v) list \<Rightarrow> (string \<times> 'v) list" where
  "alist_set k v xs = (k, v) # filter (\<lambda>x. fst x \<noteq> k) xs"

definition mem_ref_lookup :: "mem \<Rightarrow> string \<Rightarrow> git_reference option" where
  "mem_ref_lookup r n = map_option (\<lambda>t. \<lparr>gref_name = n, gref_target = t\<rparr>) (map_of (m_refs r) n)"

definition mem_null :: git_oid where
  "mem_null = replicate 20 0"

definition mem_ref_write :: "mem \<Rightarrow> string \<Rightarrow> git_oid \<Rightarrow> string \<Rightarrow> mem" where
  "mem_ref_write r n oid msg =
     (let old = (case map_of (m_refs r) n of Some (Inl x) \<Rightarrow> x | _ \<Rightarrow> mem_null);
          e = \<lparr>rl_old = old, rl_new = oid, rl_committer = None, rl_message = Some msg\<rparr>;
          es = (case map_of (m_logs r) n of Some xs \<Rightarrow> xs | None \<Rightarrow> [])
      in r\<lparr>m_refs := alist_set n (Inl oid) (m_refs r), m_logs := alist_set n (e # es) (m_logs r)\<rparr>)"

definition mem_git :: "(mem, git_tree) libgit2" where
  "mem_git = \<lparr>
     os_open_lock = (\<lambda>_ _. None),
     os_flock = (\<lambda>_ _. Flock_acquired),
     os_clock = (\<lambda>_ n. 50 * n),
     git_error_last = (\<lambda>_. None),
     git_oid_fromstr = bytes_of_hex,
     git_oid_tostr = hex_of_bytes,
     git_blob_create_from_buffer = mem_blob_create,
     git_blob_lookup = mem_blob_lookup,
     git_tree_lookup = mem_tree_lookup,
     git_tree_entry_byname = mem_byname,
     git_tree_walk = (\<lambda>r oid. mem_walk (Suc (length oid)) r oid),
     git_treebuilder_new = (\<lambda>_ t. Some (case t of Some es \<Rightarrow> es | None \<Rightarrow> [])),
     git_treebuilder_get = mem_byname,
     git_treebuilder_insert = (\<lambda>_. mem_insert),
     git_treebuilder_remove = (\<lambda>b n. filter (\<lambda>e. te_name e \<noteq> n) b),
     git_treebuilder_entrycount = length,
     git_treebuilder_write = mem_tree_write,
     git_signature_now = (\<lambda>_ n e. Some \<lparr>gs_name = n, gs_email = e, gs_when = 7\<rparr>),
     git_commit_create = mem_commit_create,
     git_commit_lookup = mem_commit_lookup,
     git_reference_lookup = mem_ref_lookup,
     git_reference_peel = (\<lambda>r ref. case gref_target ref of
         Inl oid \<Rightarrow> if mem_commit_lookup r oid \<noteq> None then Some oid else None
       | Inr _ \<Rightarrow> None),
     git_reference_create = (\<lambda>r n oid force msg.
         if force \<or> mem_ref_lookup r n = None then Some (mem_ref_write r n oid msg) else None),
     git_reference_set_target = (\<lambda>r ref oid msg. Some (mem_ref_write r (gref_name ref) oid msg)),
     git_reference_delete = (\<lambda>r ref.
         Some (r\<lparr>m_refs := filter (\<lambda>x. fst x \<noteq> gref_name ref) (m_refs r),
                 m_logs := filter (\<lambda>x. fst x \<noteq> gref_name ref) (m_logs r)\<rparr>)),
     git_reference_glob = (\<lambda>r p. Some (map (\<lambda>(n, t). \<lparr>gref_name = n, gref_target = t\<rparr>)
         (filter (\<lambda>(n, t). prefix (butlast p) n) (m_refs r)))),
     git_reflog_read = (\<lambda>r n. map_of (m_logs r) n),
     git_repository_head = (\<lambda>r. mem_ref_lookup r (m_head r)),
     git_repository_set_head = (\<lambda>r n. Some (r\<lparr>m_head := n\<rparr>)),
     git_tree_depth = (\<lambda>_ oid. length oid),
     git_commit_depth = (\<lambda>_ oid. length oid)\<rparr>"

section \<open>The laws hold\<close>

lemmas mem_lookup_defs = mem_blob_lookup_def mem_tree_lookup_def mem_commit_lookup_def

lemma mem_git_sel:
  "git_oid_fromstr mem_git = bytes_of_hex" "git_oid_tostr mem_git = hex_of_bytes"
  "git_blob_create_from_buffer mem_git = mem_blob_create" "git_blob_lookup mem_git = mem_blob_lookup"
  "git_tree_lookup mem_git = mem_tree_lookup" "git_tree_entry_byname mem_git = mem_byname"
  "git_treebuilder_get mem_git = mem_byname" "git_treebuilder_write mem_git = mem_tree_write"
  "git_commit_create mem_git = mem_commit_create" "git_commit_lookup mem_git = mem_commit_lookup"
  "git_reference_lookup mem_git = mem_ref_lookup"
  "git_reflog_read mem_git = (\<lambda>r n. map_of (m_logs r) n)"
  "git_repository_head mem_git = (\<lambda>r. mem_ref_lookup r (m_head r))"
  "git_tree_walk mem_git = (\<lambda>r oid. mem_walk (Suc (length oid)) r oid)"
  "git_tree_depth mem_git = (\<lambda>_ oid. length oid)" "git_commit_depth mem_git = (\<lambda>_ oid. length oid)"
  by (simp_all add: mem_git_def)

lemma index_of_Some: "index_of x xs = Some i \<Longrightarrow> i < length xs \<and> xs ! i = x"
  by (induction xs arbitrary: i) (auto split: if_splits)

lemma index_of_append:
  "index_of x (xs @ ys) =
     (case index_of x xs of Some i \<Rightarrow> Some i
      | None \<Rightarrow> map_option (\<lambda>j. length xs + j) (index_of x ys))"
  by (induction xs; cases "index_of x ys") (auto split: option.splits)

lemma mem_get_oid: "mem_get r (mem_oid i) = Some x \<longleftrightarrow> index_of x (m_objs r) = Some i"
  by (auto simp: mem_get_def mem_oid_def list_all_iff Let_def dest: index_of_Some)

lemma mem_get_SomeD:
  assumes "mem_get r oid = Some x"
  shows "\<exists>i. oid = mem_oid i \<and> index_of x (m_objs r) = Some i"
proof -
  from assms have h: "oid \<noteq> []" "list_all (\<lambda>b. b = 1) oid"
      "m_objs r ! (length oid - 1) = x" "index_of x (m_objs r) = Some (length oid - 1)"
    by (auto simp: mem_get_def Let_def split: if_splits)
  then have "oid = mem_oid (length oid - 1)"
    by (auto simp: mem_oid_def list_all_iff intro!: replicate_eqI)
  with h(4) show ?thesis by blast
qed

lemma mem_put_get: "mem_put r obj = (oid, r') \<Longrightarrow> mem_get r' oid = Some obj"
  by (auto simp: mem_put_def mem_get_oid index_of_append split: option.splits)

lemma mem_put_mono: "mem_put r obj = (oid, r') \<Longrightarrow> mem_get r x = Some y \<Longrightarrow> mem_get r' x = Some y"
  by (frule mem_get_SomeD) (auto simp: mem_put_def mem_get_oid index_of_append split: option.splits)

lemma mem_put_refs:
  "mem_put r obj = (oid, r') \<Longrightarrow> m_refs r' = m_refs r \<and> m_logs r' = m_logs r \<and> m_head r' = m_head r"
  by (auto simp: mem_put_def split: option.splits)

lemma mem_put_adds:
  assumes "mem_put r obj = (oid, r')"
  shows "git_adds mem_git r r'"
  using mem_put_mono [OF assms] mem_put_refs [OF assms]
  unfolding git_adds_def git_extends_def git_same_refs_def mem_git_sel mem_ref_lookup_def mem_lookup_defs
  by (auto split: option.splits mem_obj.splits if_splits simp: fun_eq_iff)

lemma find_filter: "find P (filter Q xs) = find (\<lambda>x. Q x \<and> P x) xs"
  by (induction xs) auto

lemma find_insort_key:
  assumes "\<forall>y\<in>set xs. te_name y \<noteq> te_name x"
  shows "find (\<lambda>e. te_name e = k) (insort_key te_name x xs) =
    (if k = te_name x then Some x else find (\<lambda>e. te_name e = k) xs)"
  using assms by (induction xs) auto

lemma mem_byname_insert:
  "mem_insert b n oid m = Some b' \<Longrightarrow>
     mem_byname b' k =
       (if k = n then Some \<lparr>te_name = n, te_oid = oid, te_mode = m\<rparr> else mem_byname b k)"
proof -
  assume "mem_insert b n oid m = Some b'"
  then have b': "b' = insort_key te_name \<lparr>te_name = n, te_oid = oid, te_mode = m\<rparr>
      (filter (\<lambda>e. te_name e \<noteq> n) b)" by (auto simp: mem_insert_def split: if_splits)
  have "find (\<lambda>e. te_name e \<noteq> n \<and> te_name e = k) b = find (\<lambda>e. te_name e = k) b" if "k \<noteq> n"
    using that by (intro arg_cong [where f = "\<lambda>P. find P b"]) auto
  then show ?thesis
    by (simp add: b' mem_byname_def find_insort_key find_filter)
qed

lemma mem_byname_remove:
  "mem_byname (filter (\<lambda>e. te_name e \<noteq> n) b) k = (if k = n then None else mem_byname b k)"
  unfolding mem_byname_def find_filter
  by (auto simp: find_None_iff intro!: arg_cong [where f = "\<lambda>P. find P b"])

lemma mem_byname_Nil: "length b = 0 \<longleftrightarrow> (\<forall>k. mem_byname b k = None)"
  by (cases b) (auto simp: mem_byname_def)

lemma mem_get_not_null:
  assumes "mem_get r oid = Some x"
  shows "hex_of_bytes oid \<noteq> [] \<and> hex_of_bytes oid \<noteq> zero_hex"
proof -
  from mem_get_SomeD [OF assms] obtain i where "oid = mem_oid i" by blast
  moreover have "hex_of_bytes (mem_oid i) \<noteq> []" by (simp add: mem_oid_def)
  moreover have "hex_digit 1 = CHR ''1''" by code_simp
  then have "hex_of_bytes (mem_oid i) ! 1 = CHR ''1''" by (simp add: mem_oid_def)
  moreover have "zero_hex ! 1 = CHR ''0''" by (simp add: zero_hex_def)
  ultimately show ?thesis by force
qed

lemma mem_walk_stable:
  "length oid < k \<Longrightarrow> length oid < k' \<Longrightarrow> mem_walk k r oid = mem_walk k' r oid"
proof (induction k arbitrary: k' oid)
  case (Suc k)
  then obtain l where l: "k' = Suc l" by (cases k') auto
  have "mem_walk k r (te_oid e) = mem_walk l r (te_oid e)"
    if "mem_tree_lookup r oid = Some t" "e \<in> set t" "te_mode e = MODE_TREE" for t e
  proof -
    from that have "length (te_oid e) < length oid"
      by (auto simp: mem_tree_lookup_def mem_tree_ok_def list_all_iff
          split: option.splits mem_obj.splits if_splits)
    with Suc.prems l show ?thesis by (intro Suc.IH) auto
  qed
  then show ?case
    by (auto simp: l list_all_iff split: option.splits intro!: arg_cong [where f = concat] map_cong)
qed simp

lemma mem_put_dedup: "mem_get r oid = Some obj \<Longrightarrow> mem_put r obj = (oid', r') \<Longrightarrow> oid' = oid"
  by (auto simp: mem_put_def dest!: mem_get_SomeD)

lemma map_of_alist_set: "map_of (alist_set k v xs) l = (if l = k then Some v else map_of xs l)"
  by (induction xs) (auto simp: alist_set_def)

lemma map_of_filter_key: "map_of (filter (\<lambda>x. fst x \<noteq> k) xs) l = (if l = k then None else map_of xs l)"
  by (induction xs) auto

lemma mem_moves:
  assumes "m_objs r' = m_objs r" "\<And>l. l \<noteq> n \<Longrightarrow> map_of (m_refs r') l = map_of (m_refs r) l"
    "\<And>l. l \<noteq> n \<Longrightarrow> map_of (m_logs r') l = map_of (m_logs r) l"
  shows "git_moves mem_git n r r'"
proof -
  have "mem_get r' = mem_get r" by (rule ext) (simp only: mem_get_def assms(1))
  with assms(2,3) show ?thesis
    by (simp add: git_moves_def git_extends_def mem_git_sel mem_lookup_defs mem_ref_lookup_def)
qed

lemma mem_ref_write_spec:
  "git_reference_lookup mem_git (mem_ref_write r n oid msg) n =
     Some \<lparr>gref_name = n, gref_target = Inl oid\<rparr> \<and> git_moves mem_git n r (mem_ref_write r n oid msg)"
proof -
  have "git_moves mem_git n r (mem_ref_write r n oid msg)"
    by (rule mem_moves) (simp_all add: mem_ref_write_def Let_def map_of_alist_set)
  then show ?thesis
    by (simp add: mem_git_sel mem_ref_lookup_def mem_ref_write_def Let_def map_of_alist_set)
qed

interpretation memory: git_reflogs mem_git
proof (unfold_locales, goal_cases)
  case (1 oid)
  show ?case by (simp add: mem_git_sel)
next
  case (2 r d oid r')
  then have p: "mem_put r (MBlob d) = (oid, r')" by (simp add: mem_git_sel mem_blob_create_def)
  from mem_put_get [OF p] mem_put_adds [OF p] show ?case
    by (simp add: mem_git_sel mem_blob_lookup_def)
next
  case (3 r oid d oid' r')
  then have "mem_get r oid = Some (MBlob d)" "mem_put r (MBlob d) = (oid', r')"
    by (auto simp: mem_git_sel mem_blob_lookup_def mem_blob_create_def
        split: option.splits mem_obj.splits)
  then show ?case by (rule mem_put_dedup)
next
  case (4 r oid t)
  then show ?case
    by (auto simp: mem_git_sel mem_tree_lookup_def dest: mem_get_not_null split: option.splits)
next
  case (5 r oid t)
  then show ?case
    by (auto simp: mem_git_sel mem_tree_lookup_def mem_tree_ok_def list_all_iff
        split: option.splits mem_obj.splits if_splits)
next
  case (6 r oid t n)
  then show ?case by (simp add: mem_git_sel mem_byname_def)
next
  case (7 r oid t e)
  then show ?case
    by (auto simp: mem_git_sel mem_tree_lookup_def mem_tree_ok_def list_all_iff
        split: option.splits mem_obj.splits if_splits)
next
  case (8 r oid ws)
  then obtain t where t: "mem_tree_lookup r oid = Some t"
    by (auto simp: mem_git_sel split: option.splits)
  have "mem_walk (length oid) r (te_oid e) = mem_walk (Suc (length (te_oid e))) r (te_oid e)"
    if "e \<in> set t" "te_mode e = MODE_TREE" for e
    using t that by (intro mem_walk_stable)
      (auto simp: mem_tree_lookup_def mem_tree_ok_def list_all_iff
        split: option.splits mem_obj.splits if_splits)
  with 8 t show ?case
    by (auto simp: mem_git_sel list_all_iff split: if_splits
        intro!: arg_cong [where f = concat] map_cong)
next
  case (9 r b n)
  then show ?case by (auto simp: mem_git_def mem_byname_def)
next
  case (10 r oid t b n)
  then show ?case by (simp add: mem_git_def)
next
  case (11 r b n oid m b' k)
  then have "mem_insert b n oid m = Some b'" by (simp add: mem_git_def)
  then show ?case
    by (auto simp: mem_git_sel mem_byname_insert)
      (auto simp: mem_insert_def git_filemodes_def split: if_splits)
next
  case (12 b n k)
  show ?case by (simp add: mem_git_def mem_byname_remove)
next
  case (13 b)
  show ?case using mem_byname_Nil [of b] by (simp add: mem_git_def)
next
  case (14 r b oid r')
  then obtain s x where p: "mem_put r (MTree b) = (oid, r')" "mem_tree_lookup r' oid = Some b"
    by (auto simp: mem_git_sel mem_tree_write_def split: prod.splits if_splits)
  with mem_put_adds [OF p(1)] show ?case by (simp add: mem_git_sel)
next
  case (15 r sg msg tree ps oid r')
  then show ?case
    by (auto simp: mem_git_sel mem_commit_create_def Let_def dest: mem_put_adds
        split: prod.splits if_splits)
next
  case (16 r n em sg)
  then show ?case by (auto simp: mem_git_def)
next
  case (17 r oid c)
  then show ?case
    by (auto simp: mem_git_sel mem_commit_lookup_def dest: mem_get_not_null split: option.splits)
next
  case (18 r oid c p)
  then show ?case
    by (auto simp: mem_git_sel mem_commit_lookup_def list_all_iff
        split: option.splits mem_obj.splits if_splits)
next
  case (19 r n ref)
  then show ?case by (auto simp: mem_git_sel mem_ref_lookup_def)
next
  case (20 r oid ref)
  then show ?case by (auto simp: mem_git_def)
next
  case (21 r ref oid)
  then show ?case by (auto simp: mem_git_def split: sum.splits if_splits)
next
  case (22 r n oid force msg r')
  then have "r' = mem_ref_write r n oid msg" by (simp add: mem_git_def split: if_splits)
  then show ?case by (simp add: mem_ref_write_spec)
next
  case (23 r n oid msg)
  then show ?case by (auto simp: mem_git_def)
next
  case (24 r ref oid msg r')
  then have "r' = mem_ref_write r (gref_name ref) oid msg" by (simp add: mem_git_def)
  then show ?case by (simp add: mem_ref_write_spec)
next
  case (25 r ref r')
  let ?n = "gref_name ref"
  from 25 have r': "r' = r\<lparr>m_refs := filter (\<lambda>x. fst x \<noteq> ?n) (m_refs r),
      m_logs := filter (\<lambda>x. fst x \<noteq> ?n) (m_logs r)\<rparr>" by (simp add: mem_git_def)
  have "git_moves mem_git ?n r r'" by (rule mem_moves) (simp_all add: r' map_of_filter_key)
  then show ?case by (simp add: r' mem_git_sel mem_ref_lookup_def map_of_filter_key)
next
  case (26 r n old oid msg r')
  then have "map_of (m_refs r) n = Some (Inl old)" "r' = mem_ref_write r n oid msg"
    by (auto simp: mem_git_def mem_ref_lookup_def)
  then show ?case
    by (simp add: mem_git_sel mem_ref_write_def Let_def map_of_alist_set)
qed

end
