(* ===== verification/Vost_Rebuild.thy ===== *)
theory Vost_Rebuild
  imports Vost_Tree Vost_Git_Memory
begin

text \<open>
  Correctness of \<^verbatim>\<open>tree::rebuild_tree\<close>. One level of the recursion is described by
  \<open>rebuild_level\<close>: what each name of the new tree holds. From it follow, by induction on the
  path, what a written, a removed and an untouched path hold afterwards, and the refinement of
  the abstract update of a file system, \<open>apply_changes\<close>. The recursion never runs out of fuel,
  it only adds objects to the repository, and the ways it can fail are listed.
\<close>

section \<open>What a path holds\<close>

text \<open>The lookup of a path below a tree id, where the id of 40 zeros stands for the empty tree.\<close>

definition view :: "('r, 'b) libgit2 \<Rightarrow> 'r \<Rightarrow> string \<Rightarrow> string list \<Rightarrow> (string \<times> u32) option res" where
  "view G r hex segs =
     (if hex = zero_hex then Inr None
      else ebind (hex_to_oid G hex) (\<lambda>oid. entry_at_segs G r oid segs))"

text \<open>The entry a tree id holds under one name; a tree that is not there holds none.\<close>

definition old_entry :: "('r, 'b) libgit2 \<Rightarrow> 'r \<Rightarrow> string \<Rightarrow> string \<Rightarrow> tree_entry option" where
  "old_entry G r hex n =
     (if hex = zero_hex then None
      else case git_oid_fromstr G hex of
             None \<Rightarrow> None
           | Some oid \<Rightarrow> (case git_tree_lookup G r oid of
               None \<Rightarrow> None
             | Some t \<Rightarrow> git_tree_entry_byname G t n))"

definition subtree_hex :: "('r, 'b) libgit2 \<Rightarrow> tree_entry option \<Rightarrow> string" where
  "subtree_hex G x = (case x of
     Some e \<Rightarrow> if te_mode e = MODE_TREE then oid_to_hex G (te_oid e) else zero_hex
   | None \<Rightarrow> zero_hex)"

lemma note_subtree_hex:
  "note_subtree G b n m = (if map_of m n \<noteq> None then m
     else smap_set n (subtree_hex G (git_treebuilder_get G b n)) m)"
  by (simp add: note_subtree_def subtree_hex_def)

section \<open>The scans of one level\<close>

definition last_write :: "PendingWrite list \<Rightarrow> string list \<Rightarrow> PendingWrite option" where
  "last_write pending p = find (\<lambda>pw. pw_segs pw = p) (rev pending)"

lemma matches_prefix_iff: "matches_prefix pfx p \<longleftrightarrow> (\<exists>n q. p = pfx @ n # q)"
proof
  assume m: "matches_prefix pfx p"
  then have "p = pfx @ drop (length pfx) p" "drop (length pfx) p \<noteq> []"
    by (auto simp: matches_prefix_def) (metis append_take_drop_id)
  then show "\<exists>n q. p = pfx @ n # q" by (metis list.exhaust)
qed (auto simp: matches_prefix_def)

lemma last_write_Cons:
  "last_write (pw # ps) p =
     (case last_write ps p of Some x \<Rightarrow> Some x | None \<Rightarrow> if pw_segs pw = p then Some pw else None)"
proof -
  have "find P (xs @ [x]) = (case find P xs of Some y \<Rightarrow> Some y | None \<Rightarrow> if P x then Some x else None)"
    for P and x :: PendingWrite and xs
    by (induction xs) auto
  then show ?thesis by (simp add: last_write_def)
qed

lemma last_write_None: "last_write ps p = None \<longleftrightarrow> p \<notin> pw_segs ` set ps"
  by (auto simp: last_write_def find_None_iff)

lemma last_write_Some: "last_write ps p = Some pw \<Longrightarrow> pw \<in> set ps \<and> pw_segs pw = p"
  by (auto simp: last_write_def find_Some_iff) (metis nth_mem set_rev length_rev)

lemma scan_pending_ok:
  assumes "smap_ok ins" "smap_ok subs" "scan_pending G b pfx ps ins subs = (ins', subs')"
  shows "smap_ok ins' \<and> smap_ok subs'"
  using assms
  by (induction G b pfx ps ins subs rule: scan_pending.induct)
    (auto simp: Let_def note_subtree_hex split: if_splits)

lemma scan_pending_inserts:
  assumes "smap_ok ins" "scan_pending G b pfx ps ins subs = (ins', subs')"
  shows "map_of ins' n =
    (case last_write ps (pfx @ [n]) of
       Some pw \<Rightarrow> Some (pw_oid_hex pw, pw_mode pw) | None \<Rightarrow> map_of ins n)"
  using assms
proof (induction G b pfx ps ins subs rule: scan_pending.induct)
  case (2 G b pfx pw ps ins subs)
  show ?case
  proof (cases "matches_prefix pfx (pw_segs pw)")
    case True
    then obtain m q where s: "pw_segs pw = pfx @ m # q" by (auto simp: matches_prefix_iff)
    with 2 True show ?thesis
      by (cases q) (auto simp: last_write_Cons map_of_smap_set split: option.splits)
  next
    case False
    then have "pw_segs pw \<noteq> pfx @ [n]" by (auto simp: matches_prefix_iff)
    with 2 False show ?thesis by (auto simp: last_write_Cons split: option.splits)
  qed
qed (simp add: last_write_def)

definition deeper :: "string list \<Rightarrow> string list list \<Rightarrow> bool" where
  "deeper p cs \<longleftrightarrow> (\<exists>c\<in>set cs. strict_prefix p c)"

lemma deeper_Cons: "deeper p (c # cs) \<longleftrightarrow> strict_prefix p c \<or> deeper p cs"
  by (auto simp: deeper_def)

lemma strict_prefix_Cons_iff: "strict_prefix (pfx @ [n]) c \<longleftrightarrow> (\<exists>m q. c = pfx @ n # m # q)"
  by (auto simp: strict_prefix_def prefix_def) (metis neq_Nil_conv)

lemma scan_pending_subs:
  assumes "smap_ok subs" "scan_pending G b pfx ps ins subs = (ins', subs')"
  shows "map_of subs' n =
    (case map_of subs n of
       Some h \<Rightarrow> Some h
     | None \<Rightarrow> if deeper (pfx @ [n]) (map pw_segs ps)
               then Some (subtree_hex G (git_treebuilder_get G b n)) else None)"
  using assms
proof (induction G b pfx ps ins subs rule: scan_pending.induct)
  case (2 G b pfx pw ps ins subs)
  show ?case
  proof (cases "matches_prefix pfx (pw_segs pw)")
    case True
    then obtain m q where s: "pw_segs pw = pfx @ m # q" by (auto simp: matches_prefix_iff)
    with 2 True show ?thesis
      by (cases q) (auto simp: deeper_Cons strict_prefix_Cons_iff note_subtree_hex map_of_smap_set
          split: option.splits if_splits)
  next
    case False
    then have "\<not> strict_prefix (pfx @ [n]) (pw_segs pw)"
      by (auto simp: matches_prefix_iff strict_prefix_Cons_iff)
    with 2 False show ?thesis by (simp add: deeper_Cons)
  qed
qed (simp add: deeper_def split: option.splits)

lemma scan_removes_ok:
  assumes "smap_ok subs" "scan_removes G pfx rms b subs = (b', subs')"
  shows "smap_ok subs'"
  using assms
  by (induction G pfx rms b subs rule: scan_removes.induct)
    (auto simp: Let_def note_subtree_hex split: if_splits)

section \<open>What a change does to a path\<close>

text \<open>Some path of \<open>S\<close> lies on the way from \<open>pfx\<close> down to \<open>pfx @ p\<close>, the end included.\<close>

fun on_way :: "string list set \<Rightarrow> string list \<Rightarrow> string list \<Rightarrow> bool" where
  "on_way S pfx [] \<longleftrightarrow> False"
| "on_way S pfx (n # p) \<longleftrightarrow> pfx @ [n] \<in> S \<or> on_way S (pfx @ [n]) p"

lemma on_way_iff: "on_way S pfx p \<longleftrightarrow> (\<exists>q. q \<noteq> [] \<and> prefix q p \<and> pfx @ q \<in> S)"
proof (induction p arbitrary: pfx)
  case (Cons n p)
  show ?case
  proof
    assume "on_way S pfx (n # p)"
    then show "\<exists>q. q \<noteq> [] \<and> prefix q (n # p) \<and> pfx @ q \<in> S"
      using Cons by (auto intro: exI [of _ "[n]"])
  next
    assume "\<exists>q. q \<noteq> [] \<and> prefix q (n # p) \<and> pfx @ q \<in> S"
    then obtain q where "prefix q p" "pfx @ n # q \<in> S" by (auto simp: prefix_Cons)
    with Cons show "on_way S pfx (n # p)" by (cases "q = []") auto
  qed
qed simp

lemma on_way_mono: "on_way S pfx p \<Longrightarrow> S \<subseteq> T \<Longrightarrow> on_way T pfx p"
  by (auto simp: on_way_iff)

text \<open>
  The lookup \<open>y\<close> of a path after the changes, from the lookup \<open>x\<close> before: nothing when a
  directory on the way was written as a file, else the last write to the path, else a
  directory when something changed below it, else nothing when the path or a directory above
  it was removed and nothing below that one changed, else what was there. In the one case
  left, a removed directory below which something else changed, the sources keep or lose the
  old contents depending on the order of the changes.
\<close>

definition changed_view :: "PendingWrite list \<Rightarrow> string list list \<Rightarrow> string list \<Rightarrow> string list \<Rightarrow>
    (string \<times> u32) option \<Rightarrow> (string \<times> u32) option \<Rightarrow> bool" where
  "changed_view ps rms pfx p x y =
     (let C = map pw_segs ps @ rms in
      if on_way (pw_segs ` set ps) pfx (butlast p) then y = None
      else case last_write ps (pfx @ p) of
        Some pw \<Rightarrow> y = Some (pw_oid_hex pw, pw_mode pw)
      | None \<Rightarrow>
          if deeper (pfx @ p) C then \<exists>h. y = Some (h, MODE_TREE)
          else if on_way {q \<in> set rms. \<not> deeper q C} pfx p then y = None
          else if on_way (set rms) pfx p then y = x \<or> y = None
          else y = x)"

lemma deeper_prefix: "deeper (p @ q) cs \<Longrightarrow> deeper p cs"
  by (auto simp: deeper_def strict_prefix_def prefix_def)

lemma on_way_deeper:
  assumes "on_way S pfx p" "S \<subseteq> set cs" "\<not> deeper pfx cs"
  shows False
proof -
  from assms(1) obtain q where "q \<noteq> []" "pfx @ q \<in> S" by (auto simp: on_way_iff)
  with assms(2) have "strict_prefix pfx (pfx @ q)" "pfx @ q \<in> set cs"
    by (auto simp: strict_prefix_def)
  with assms(3) show False by (auto simp: deeper_def)
qed

lemma changed_view_below:
  assumes "changed_view ps rms (pfx @ [n]) p x' y"
    and "x' = x \<or> pfx @ [n] \<in> set rms \<and> x' = None"
    and "deeper (pfx @ [n]) (map pw_segs ps @ rms)" "p \<noteq> []" "pfx @ [n] \<notin> pw_segs ` set ps"
  shows "changed_view ps rms pfx (n # p) x y"
  using assms by (auto simp: changed_view_def Let_def split: option.splits if_splits)

lemma changed_view_keep:
  assumes "last_write ps (pfx @ [n]) = None" "\<not> deeper (pfx @ [n]) (map pw_segs ps @ rms)"
  shows "changed_view ps rms pfx (n # p) x y \<longleftrightarrow> y = (if pfx @ [n] \<in> set rms then None else x)"
proof -
  let ?C = "map pw_segs ps @ rms"
  have no: "\<not> on_way S (pfx @ [n]) q" if "S \<subseteq> set ?C" for S q
    using on_way_deeper [OF _ that assms(2)] by blast
  have b: "\<not> on_way (pw_segs ` set ps) pfx (butlast (n # p))"
    using assms(1) no by (auto simp: last_write_None)
  have w: "last_write ps (pfx @ n # p) = None"
  proof (cases "p = []")
    case False
    then have "strict_prefix (pfx @ [n]) (pfx @ n # p)" by (simp add: strict_prefix_def)
    with assms(2) show ?thesis by (auto simp: last_write_None deeper_def)
  qed (use assms in simp)
  have d: "\<not> deeper (pfx @ n # p) ?C"
    using assms(2) deeper_prefix [of "pfx @ [n]" p] by auto
  have "\<not> on_way {q \<in> set rms. \<not> deeper q ?C} (pfx @ [n]) p" "\<not> on_way (set rms) (pfx @ [n]) p"
    using no [of "{q \<in> set rms. \<not> deeper q ?C}" p] no [of "set rms" p] by auto
  with b w d assms(2) show ?thesis by (simp add: changed_view_def Let_def)
qed

section \<open>One level\<close>

text \<open>What the tree that one level writes holds under each name.\<close>

definition level_entry ::
  "('r, 'b) libgit2 \<Rightarrow> PendingWrite list \<Rightarrow> string list list \<Rightarrow> nat \<Rightarrow> string \<Rightarrow> string list \<Rightarrow>
   'r \<Rightarrow> 'r \<Rightarrow> string \<Rightarrow> tree_entry option \<Rightarrow> bool" where
  "level_entry G ps rms fuel cur pfx r r' n x =
     (case last_write ps (pfx @ [n]) of
        Some pw \<Rightarrow> \<exists>oid. git_oid_fromstr G (pw_oid_hex pw) = Some oid \<and>
          x = Some \<lparr>te_name = n, te_oid = oid, te_mode = pw_mode pw\<rparr>
      | None \<Rightarrow>
          if deeper (pfx @ [n]) (map pw_segs ps @ rms)
          then \<exists>h r1 r2 new oid. rebuild G ps rms fuel h (pfx @ [n]) r1 = (Inr new, r2) \<and>
            git_adds G r r1 \<and> git_adds G r2 r' \<and> git_oid_fromstr G new = Some oid \<and>
            x = Some \<lparr>te_name = n, te_oid = oid, te_mode = MODE_TREE\<rparr> \<and>
            (h = subtree_hex G (old_entry G r cur n) \<or> pfx @ [n] \<in> set rms \<and> h = zero_hex)
          else x = (if pfx @ [n] \<in> set rms then None else old_entry G r cur n))"

context git_odb
begin

lemma scan_removes_builder:
  assumes "scan_removes G pfx rms b subs = (b', subs')"
  shows "git_treebuilder_get G b' n = (if pfx @ [n] \<in> set rms then None else git_treebuilder_get G b n)"
  using assms
proof (induction rms arbitrary: b subs)
  case (Cons rv rms)
  show ?case
  proof (cases "matches_prefix pfx rv")
    case True
    then obtain m q where "rv = pfx @ m # q" by (auto simp: matches_prefix_iff)
    with Cons True show ?thesis
      by (cases q) (auto simp: builder_remove)
  next
    case False
    then have "rv \<noteq> pfx @ [n]" by (auto simp: matches_prefix_iff)
    with Cons False show ?thesis by auto
  qed
qed simp

lemma scan_removes_subs:
  assumes "smap_ok subs" "scan_removes G pfx rms b subs = (b', subs')"
  shows "case map_of subs n of
      Some h \<Rightarrow> map_of subs' n = Some h
    | None \<Rightarrow> if deeper (pfx @ [n]) rms
        then map_of subs' n = Some (subtree_hex G (git_treebuilder_get G b n)) \<or>
             pfx @ [n] \<in> set rms \<and> map_of subs' n = Some zero_hex
        else map_of subs' n = None"
  using assms
proof (induction rms arbitrary: b subs)
  case (Cons rv rms)
  show ?case
  proof (cases "matches_prefix pfx rv")
    case True
    then obtain m q where rv: "rv = pfx @ m # q" by (auto simp: matches_prefix_iff)
    show ?thesis
    proof (cases q)
      case Nil
      with Cons.prems True rv
      have "scan_removes G pfx rms (git_treebuilder_remove G b m) subs = (b', subs')" by simp
      from Cons.IH [OF Cons.prems(1) this] Nil rv show ?thesis
        by (auto simp: deeper_Cons strict_prefix_Cons_iff builder_remove subtree_hex_def
            split: option.splits if_splits)
    next
      case (Cons x xs)
      let ?subs = "note_subtree G b m subs"
      have ok: "smap_ok ?subs" using Cons.prems by (simp add: note_subtree_hex)
      have sc: "scan_removes G pfx rms b ?subs = (b', subs')"
        using Cons.prems True rv Cons by simp
      have "map_of ?subs n = (if m = n \<and> map_of subs n = None
          then Some (subtree_hex G (git_treebuilder_get G b n)) else map_of subs n)"
        using Cons.prems by (auto simp: note_subtree_hex map_of_smap_set)
      with Cons.IH [OF ok sc] rv Cons show ?thesis
        by (auto simp: deeper_Cons strict_prefix_Cons_iff split: option.splits if_splits)
    qed
  next
    case False
    then have "\<not> strict_prefix (pfx @ [n]) rv" "rv \<noteq> pfx @ [n]"
      by (auto simp: matches_prefix_iff strict_prefix_Cons_iff)
    moreover have "scan_removes G pfx rms b subs = (b', subs')" using Cons.prems False by simp
    ultimately show ?thesis
      using Cons.IH [OF Cons.prems(1), of b]
      by (auto simp: deeper_Cons split: option.splits if_splits)
  qed
qed (auto simp: deeper_def split: option.splits)

lemma start_builder_get:
  assumes "start_builder G r h = Inr b"
  shows "git_treebuilder_get G b n = old_entry G r h n"
  using assms
  by (auto simp: start_builder_def old_entry_def hex_to_oid_def require_ok_def throw_git_error_def
      outcome_iff builder_new_empty builder_new_tree
      split: option.splits if_splits)

lemma insert_entry_Inr:
  assumes "insert_entry G c n h m b r = (Inr b', r')"
  shows "r' = r \<and> m \<in> git_filemodes \<and> (\<exists>oid. git_oid_fromstr G h = Some oid \<and>
    (\<forall>k. git_treebuilder_get G b' k =
      (if k = n then Some \<lparr>te_name = n, te_oid = oid, te_mode = m\<rparr> else git_treebuilder_get G b k)))"
  using assms builder_insert
  by (auto simp: insert_entry_def hex_to_oid_def require_ok_def throw_git_error_def outcome_iff
      split: option.splits)

lemma insert_leaves:
  assumes "sfold (\<lambda>(n, h, m) b. insert_entry G c n h m b) ins b r = (Inr b', r')"
    "distinct (map fst ins)"
  shows "r' = r \<and> (case map_of ins k of
      None \<Rightarrow> git_treebuilder_get G b' k = git_treebuilder_get G b k
    | Some (h, m) \<Rightarrow> \<exists>oid. git_oid_fromstr G h = Some oid \<and>
        git_treebuilder_get G b' k = Some \<lparr>te_name = k, te_oid = oid, te_mode = m\<rparr>)"
  using assms
proof (induction ins arbitrary: b)
  case (Cons x ins)
  obtain n h m where x: "x = (n, h, m)" by (cases x) auto
  from Cons.prems obtain b1 r1 where
      i: "insert_entry G c n h m b r = (Inr b1, r1)"
      and f: "sfold (\<lambda>(n, h, m) b. insert_entry G c n h m b) ins b1 r1 = (Inr b', r')"
    by (auto simp: x outcome_iff)
  note ins = insert_entry_Inr [OF i]
  from Cons.prems have "k = n \<Longrightarrow> map_of ins k = None" by (auto simp: x map_of_eq_None_iff)
  with Cons.IH [of b1] f ins Cons.prems show ?case
    by (cases "map_of ins k") (auto simp: x)
qed simp

lemma insert_subtrees:
  assumes "sfold (\<lambda>(n, h) b. sbind (F n h) (\<lambda>new. insert_entry G c n new MODE_TREE b)) subs b r
      = (Inr b', r')"
    and "distinct (map fst subs)" and F: "\<And>n h. keeps (git_adds G) (F n h)"
  shows "git_adds G r r' \<and> (case map_of subs k of
      None \<Rightarrow> git_treebuilder_get G b' k = git_treebuilder_get G b k
    | Some h \<Rightarrow> \<exists>r1 r2 new oid. F k h r1 = (Inr new, r2) \<and> git_adds G r r1 \<and> git_adds G r2 r' \<and>
        git_oid_fromstr G new = Some oid \<and>
        git_treebuilder_get G b' k = Some \<lparr>te_name = k, te_oid = oid, te_mode = MODE_TREE\<rparr>)"
  using assms(1,2)
proof (induction subs arbitrary: b r)
  case Nil
  then show ?case by (simp add: reflpD [OF reflp_git_adds])
next
  case (Cons x subs)
  obtain n h where x: "x = (n, h)" by (cases x)
  from Cons.prems obtain new r1 b1 where
      f: "F n h r = (Inr new, r1)" and i: "insert_entry G c n new MODE_TREE b r1 = (Inr b1, r1)"
      and s: "sfold (\<lambda>(n, h) b. sbind (F n h) (\<lambda>new. insert_entry G c n new MODE_TREE b)) subs b1 r1
        = (Inr b', r')"
    using insert_entry_Inr by (fastforce simp: x outcome_iff)
  note ins = insert_entry_Inr [OF i]
  have a: "git_adds G r r1" using F f by (rule keepsD)
  from Cons.prems have d: "distinct (map fst subs)" "k = n \<Longrightarrow> map_of subs k = None"
    by (auto simp: x map_of_eq_None_iff)
  note IH = Cons.IH [OF s d(1)]
  from IH a have t: "git_adds G r r'" by (blast intro: transpD [OF transp_git_adds])
  show ?case
  proof (cases "k = n")
    case True
    with IH d(2) ins f t show ?thesis
      using reflpD [OF reflp_git_adds] by (fastforce simp: x)
  next
    case False
    with IH ins t show ?thesis
      using transpD [OF transp_git_adds a] by (fastforce simp: x split: option.splits)
  qed
qed

text \<open>Only objects are added, whatever the outcome.\<close>

lemma keeps_call_write:
  assumes "\<And>r x r'. f r = Some (x, r') \<Longrightarrow> git_adds G r r'"
  shows "keeps (git_adds G) (call_write G c f)"
  using assms reflpD [OF reflp_git_adds]
  by (auto simp: keeps_def call_write_def split: option.splits)

lemmas keeps_adds = keeps_sbind [OF transp_git_adds] keeps_pure [OF reflp_git_adds]
  keeps_sfold [OF reflp_git_adds transp_git_adds] keeps_smap [OF reflp_git_adds transp_git_adds]

lemma keeps_insert_entry: "keeps (git_adds G) (insert_entry G c n h m b)"
  by (simp add: insert_entry_def keeps_adds)

lemma keeps_rebuild: "keeps (git_adds G) (rebuild G ps rms fuel cur pfx)"
proof (induction fuel arbitrary: cur pfx)
  case (Suc fuel)
  then show ?case
    unfolding rebuild.simps
    by (auto intro!: keeps_adds keeps_insert_entry keeps_call_write dest: builder_write
        split: prod.splits)
qed (simp add: keeps_adds)

lemma keeps_write_blob: "keeps (git_adds G) (write_blob G w)"
  unfolding write_blob_def
  by (auto intro!: keeps_adds keeps_call_write dest: blob_create split: prod.splits)

lemma keeps_rebuild_tree: "keeps (git_adds G) (rebuild_tree G base writes removes)"
  unfolding rebuild_tree_def Let_def
  by (intro keeps_adds keeps_write_blob keeps_rebuild)

lemma keeps_write_commit: "keeps (git_adds G) (write_commit G tree parents sig message)"
  unfolding write_commit_def
  by (auto intro!: keeps_adds keeps_call_write dest: commit_create split: prod.splits)

lemma rebuild_level:
  assumes "rebuild G ps rms (Suc fuel) cur pfx r = (Inr new, r')"
  shows "git_adds G r r' \<and> (\<exists>oid t. new = git_oid_tostr G oid \<and> git_tree_lookup G r' oid = Some t \<and>
     (\<forall>n. level_entry G ps rms fuel cur pfx r r' n (git_tree_entry_byname G t n)))"
proof -
  from assms obtain b0 where b0: "start_builder G r cur = Inr b0"
    by (auto simp: outcome_iff rebuild.simps)
  obtain ins subs0 where p: "scan_pending G b0 pfx ps [] [] = (ins, subs0)" by fastforce
  obtain b1 subs where rm: "scan_removes G pfx rms b0 subs0 = (b1, subs)" by fastforce
  let ?F = "\<lambda>n h. rebuild G ps rms fuel h (pfx @ [n])"
  from assms b0 p rm obtain b2 r2 b3 r3 oid where
      s: "sfold (\<lambda>(n, h) b. sbind (?F n h) (\<lambda>new. insert_entry G ''git_treebuilder_insert subtree'' n new MODE_TREE b))
            subs b1 r = (Inr b2, r2)"
      and l: "sfold (\<lambda>(n, h, m) b. insert_entry G ''git_treebuilder_insert blob'' n h m b) ins b2 r2 = (Inr b3, r3)"
      and w: "git_treebuilder_write G r3 b3 = Some (oid, r')" and new: "new = git_oid_tostr G oid"
    by (auto simp: rebuild.simps outcome_iff call_write_def throw_git_error_def oid_to_hex_def
        split: option.splits)
  have ok: "smap_ok ins" "smap_ok subs0" "smap_ok subs"
    using scan_pending_ok [OF _ _ p] scan_removes_ok [OF _ rm] by auto
  then have d: "distinct (map fst ins)" "distinct (map fst subs)" by (auto simp: smap_ok_def)
  note S = insert_subtrees [OF s d(2) keeps_rebuild]
  note L = insert_leaves [OF l d(1)]
  from builder_write [OF w] L obtain t where
      t: "git_tree_lookup G r' oid = Some t" "\<And>n. git_tree_entry_byname G t n = git_treebuilder_get G b3 n"
      and a: "git_adds G r2 r'" by blast
  have ar: "git_adds G r r'" using S a by (blast intro: transpD [OF transp_git_adds])
  have "level_entry G ps rms fuel cur pfx r r' n (git_treebuilder_get G b3 n)" for n
  proof (cases "last_write ps (pfx @ [n])")
    case (Some pw)
    with scan_pending_inserts [OF _ p, of n] L [of n] show ?thesis
      by (simp add: level_entry_def)
  next
    case None
    with scan_pending_inserts [OF _ p, of n] L [of n]
    have g: "git_treebuilder_get G b3 n = git_treebuilder_get G b2 n" by simp
    note D = scan_pending_subs [OF _ p, of n] scan_removes_subs [OF ok(2) rm, of n]
      scan_removes_builder [OF rm, of n] start_builder_get [OF b0, of n]
    show ?thesis
    proof (cases "deeper (pfx @ [n]) (map pw_segs ps @ rms)")
      case True
      with D obtain h where h: "map_of subs n = Some h"
          "h = subtree_hex G (old_entry G r cur n) \<or> pfx @ [n] \<in> set rms \<and> h = zero_hex"
        by (auto simp: deeper_def split: if_splits)
      with S [of n] obtain r1 r4 new' oid' where
          "?F n h r1 = (Inr new', r4)" "git_adds G r r1" "git_adds G r4 r2"
          "git_oid_fromstr G new' = Some oid'"
          "git_treebuilder_get G b2 n = Some \<lparr>te_name = n, te_oid = oid', te_mode = MODE_TREE\<rparr>"
        by auto
      moreover from this(3) a have "git_adds G r4 r'" by (rule transpD [OF transp_git_adds])
      ultimately show ?thesis using h(2) g None True by (auto simp: level_entry_def)
    next
      case False
      with D have "map_of subs n = None" by (auto simp: deeper_def split: if_splits)
      with S [of n] g None False D show ?thesis by (simp add: level_entry_def)
    qed
  qed
  with t ar new show ?thesis by auto
qed

section \<open>Paths\<close>

lemma entry_at_segs_extends:
  "git_extends G r r' \<Longrightarrow> entry_at_segs G r oid p = Inr x \<Longrightarrow> entry_at_segs G r' oid p = Inr x"
proof (induction p arbitrary: oid)
  case (Cons n p)
  then obtain t where t: "git_tree_lookup G r oid = Some t"
    by (auto simp: require_ok_def throw_git_error_def split: option.splits)
  with Cons.prems(1) have "git_tree_lookup G r' oid = Some t" by (rule git_extends_tree)
  with Cons t show ?case
    by (auto simp: require_ok_def split: option.splits if_splits)
qed simp

lemma view_tostr:
  assumes "git_tree_lookup G r oid = Some t"
  shows "view G r (git_oid_tostr G oid) p = entry_at_segs G r oid p"
  using tree_not_null [OF assms] by (simp add: view_def hex_to_oid_def oid_roundtrip)

lemma entry_at_segs_Cons:
  assumes "git_tree_lookup G r oid = Some t"
  shows "entry_at_segs G r oid (n # p) =
    (case git_tree_entry_byname G t n of
       None \<Rightarrow> Inr None
     | Some e \<Rightarrow> if p = [] then Inr (Some (oid_to_hex G (te_oid e), te_mode e))
         else if te_mode e \<noteq> MODE_TREE then Inr None else entry_at_segs G r (te_oid e) p)"
  using assms by (simp add: require_ok_def)

text \<open>A rebuilt subtree, looked up in the final world.\<close>

lemma rebuild_view:
  assumes "rebuild G ps rms fuel h pfx r1 = (Inr new, r2)" "git_adds G r2 r'"
    "git_oid_fromstr G new = Some oid"
  shows "view G r2 new p = Inr x \<Longrightarrow> entry_at_segs G r' oid p = Inr x"
proof -
  assume v: "view G r2 new p = Inr x"
  from assms(1) obtain k where "fuel = Suc k" by (cases fuel) auto
  with assms(1) rebuild_level obtain oid' t
    where o': "new = git_oid_tostr G oid'" "git_tree_lookup G r2 oid' = Some t" by blast
  with assms(3) oid_roundtrip have "oid' = oid" by simp
  with o' v view_tostr [of r2 oid t p] have "entry_at_segs G r2 oid p = Inr x" by simp
  with assms(2) show ?thesis by (meson entry_at_segs_extends git_adds_extends)
qed

text \<open>What the recursion starts from in a subdirectory.\<close>

lemma view_single:
  "view G r cur [n] = Inr x \<Longrightarrow>
     x = map_option (\<lambda>e. (oid_to_hex G (te_oid e), te_mode e)) (old_entry G r cur n)"
  by (auto simp: view_def old_entry_def hex_to_oid_def require_ok_def throw_git_error_def
      outcome_iff split: option.splits if_splits)

lemma entry_below:
  assumes "view G r cur (n # p) = Inr x" "p \<noteq> []"
  shows "(\<exists>e. old_entry G r cur n = Some e \<and> te_mode e = MODE_TREE \<and>
              entry_at_segs G r (te_oid e) p = Inr x)
     \<or> (\<forall>e. old_entry G r cur n = Some e \<longrightarrow> te_mode e \<noteq> MODE_TREE) \<and> x = None"
  using assms
  by (auto simp: view_def old_entry_def hex_to_oid_def require_ok_def throw_git_error_def
      outcome_iff split: option.splits if_splits)

lemma view_subtree:
  assumes "view G r cur (n # p) = Inr x" "p \<noteq> []"
  shows "view G r (subtree_hex G (old_entry G r cur n)) p = Inr x"
  using entry_below [OF assms]
proof (elim disjE exE conjE)
  fix e assume e: "old_entry G r cur n = Some e" "te_mode e = MODE_TREE"
    and s: "entry_at_segs G r (te_oid e) p = Inr x"
  from assms(2) s obtain t where "git_tree_lookup G r (te_oid e) = Some t"
    by (cases p) (auto simp: require_ok_def throw_git_error_def split: option.splits)
  with e s view_tostr show ?thesis by (simp add: subtree_hex_def oid_to_hex_def)
next
  assume "\<forall>e. old_entry G r cur n = Some e \<longrightarrow> te_mode e \<noteq> MODE_TREE" "x = None"
  then show ?thesis by (auto simp: subtree_hex_def view_def split: option.splits)
qed

lemma view_extends:
  assumes "git_extends G r r'" "view G r h p = Inr x" "p \<noteq> []"
  shows "view G r' h p = Inr x"
  using assms entry_at_segs_extends by (auto simp: view_def outcome_iff split: if_splits)

lemma kept_entry:
  assumes "git_extends G r r'" "view G r cur (n # p) = Inr x" "git_tree_lookup G r' oid = Some t"
    and old: "git_tree_entry_byname G t n = old_entry G r cur n"
  shows "entry_at_segs G r' oid (n # p) = Inr x"
proof (cases "p = []")
  case True
  with assms view_single [of r cur n x] show ?thesis
    unfolding entry_at_segs_Cons [OF assms(3)] by (auto split: option.splits)
next
  case False
  from entry_below [OF assms(2) False] False old entry_at_segs_extends [OF assms(1)] show ?thesis
    unfolding entry_at_segs_Cons [OF assms(3)] by (auto split: option.splits)
qed

lemma rebuild_path:
  assumes "rebuild G ps rms fuel cur pfx r = (Inr new, r')" "p \<noteq> []" "view G r cur p = Inr x"
    and blobs: "\<forall>pw\<in>set ps. pw_mode pw \<noteq> MODE_TREE \<and> pw_oid_hex pw \<in> range (git_oid_tostr G)"
  shows "\<exists>y. view G r' new p = Inr y \<and> changed_view ps rms pfx p x y"
  using assms(1-3)
proof (induction p arbitrary: fuel cur pfx r new r' x)
  case (Cons n p)
  from Cons.prems(1) obtain k where k: "fuel = Suc k" by (cases fuel) auto
  from rebuild_level [OF Cons.prems(1) [unfolded k]] obtain oid t where
      new: "new = git_oid_tostr G oid" "git_tree_lookup G r' oid = Some t"
      and lev: "level_entry G ps rms k cur pfx r r' n (git_tree_entry_byname G t n)"
      and ar: "git_adds G r r'" by blast
  have V: "view G r' new (n # p) = entry_at_segs G r' oid (n # p)"
    using new view_tostr by blast
  note E = V entry_at_segs_Cons [OF new(2)]
  consider (written) pw where "last_write ps (pfx @ [n]) = Some pw"
    | (below) "last_write ps (pfx @ [n]) = None" "deeper (pfx @ [n]) (map pw_segs ps @ rms)"
    | (keep) "last_write ps (pfx @ [n]) = None" "\<not> deeper (pfx @ [n]) (map pw_segs ps @ rms)"
    by fastforce
  then show ?case
  proof cases
    case written
    with last_write_Some have w: "pw \<in> set ps" "pfx @ [n] \<in> pw_segs ` set ps" by force+
    with blobs written lev show ?thesis
      unfolding E by (cases "p = []")
        (force simp: level_entry_def changed_view_def oid_roundtrip oid_to_hex_def)+
  next
    case below
    with lev obtain h r1 r2 new' oid' where
        s: "rebuild G ps rms k h (pfx @ [n]) r1 = (Inr new', r2)" "git_adds G r2 r'"
          "git_oid_fromstr G new' = Some oid'"
        and e: "git_tree_entry_byname G t n = Some \<lparr>te_name = n, te_oid = oid', te_mode = MODE_TREE\<rparr>"
        and h: "h = subtree_hex G (old_entry G r cur n) \<or> pfx @ [n] \<in> set rms \<and> h = zero_hex"
        and a: "git_adds G r r1"
      by (auto simp: level_entry_def)
    show ?thesis
    proof (cases "p = []")
      case True
      with e below show ?thesis unfolding E by (simp add: changed_view_def)
    next
      case False
      from h view_extends [OF git_adds_extends [OF a] view_subtree [OF Cons.prems(3) False] False]
      have "view G r1 h p = Inr x \<or> pfx @ [n] \<in> set rms \<and> view G r1 h p = Inr None"
        by (auto simp: view_def)
      with Cons.IH [OF s(1) False] obtain x' y where
          y: "view G r2 new' p = Inr y" "changed_view ps rms (pfx @ [n]) p x' y"
            "x' = x \<or> pfx @ [n] \<in> set rms \<and> x' = None" by blast
      from changed_view_below [OF y(2,3) below(2) False] below(1) have "changed_view ps rms pfx (n # p) x y"
        by (simp add: last_write_None)
      with rebuild_view [OF s y(1)] e False show ?thesis unfolding E by simp
    qed
  next
    case keep
    show ?thesis
    proof (cases "pfx @ [n] \<in> set rms")
      case True
      with keep lev show ?thesis
        unfolding E by (auto simp: level_entry_def changed_view_keep)
    next
      case False
      with keep lev have old: "git_tree_entry_byname G t n = old_entry G r cur n"
        by (simp add: level_entry_def)
      have "view G r' new (n # p) = Inr x"
        unfolding V using git_adds_extends [OF ar] Cons.prems(3) new(2) old by (rule kept_entry)
      with False keep show ?thesis by (simp add: changed_view_keep)
    qed
  qed
qed simp

section \<open>Termination and errors\<close>

lemma throws_insert_entry: "throws git_failure (insert_entry G c n h m b)"
  by (auto simp: insert_entry_def throws_pure ebind_Inl_iff
      dest: hex_to_oid_failure require_ok_failure)

lemma start_builder_failure: "start_builder G r cur = Inl e \<Longrightarrow> git_failure e"
  by (auto simp: start_builder_def ebind_Inl_iff dest: hex_to_oid_failure require_ok_failure
      split: option.splits)

lemma scan_keys:
  assumes "scan_pending G b0 pfx ps [] [] = (ins, subs0)"
    "scan_removes G pfx rms b0 subs0 = (b1, subs)" "(n, h) \<in> set subs"
  shows "deeper (pfx @ [n]) (map pw_segs ps @ rms)"
proof -
  have ok: "smap_ok subs0" "smap_ok subs"
    using scan_pending_ok [OF _ _ assms(1)] scan_removes_ok [OF _ assms(2)] by auto
  with assms(3) have "map_of subs n = Some h" by (simp add: smap_ok_def)
  with scan_pending_subs [OF _ assms(1), of n] scan_removes_subs [OF ok(1) assms(2), of n]
  show ?thesis by (auto simp: deeper_def split: if_splits)
qed

lemma throws_rebuild:
  assumes "\<forall>c \<in> set (map pw_segs ps @ rms). length c < length pfx + fuel" "0 < fuel"
  shows "throws git_failure (rebuild G ps rms fuel cur pfx)"
  using assms
proof (induction fuel arbitrary: cur pfx)
  case (Suc fuel)
  have sub: "throws git_failure (rebuild G ps rms fuel h (pfx @ [n]))"
    if d: "deeper (pfx @ [n]) (map pw_segs ps @ rms)" for n h
  proof (rule Suc.IH)
    from d obtain c where "c \<in> set (map pw_segs ps @ rms)" "strict_prefix (pfx @ [n]) c"
      by (auto simp: deeper_def)
    with Suc.prems(1) prefix_length_less [of "pfx @ [n]" c] show "0 < fuel" by fastforce
  qed (use Suc.prems in auto)
  show ?case
    unfolding rebuild.simps
    by (intro throws_sbind) (auto simp: throws_pure start_builder_failure split: prod.splits
        intro!: throws_sbind throws_sfold throws_insert_entry throws_call_write sub scan_keys)
qed simp

lemma fold_max_le: "x \<in> set xs \<Longrightarrow> x \<le> fold max xs (n :: nat)"
  using Max_ge [of "set (n # xs)" x] by (simp only: Max.set_eq_fold) simp

lemma throws_rebuild_tree: "throws git_failure (rebuild_tree G base writes removes)"
  unfolding rebuild_tree_def Let_def
proof (intro throws_sbind throws_smap throws_rebuild ballI)
  fix w
  show "throws git_failure (write_blob G w)"
    by (cases w) (auto simp: write_blob_def throws_pure intro!: throws_sbind throws_call_write)
next
  fix ps c
  assume "c \<in> set (map pw_segs ps @ map split_slash removes)"
  then have "length c \<in> set (map length (map pw_segs ps @ map split_slash removes))" by auto
  from fold_max_le [OF this, of 0]
  show "length c < length [] + Suc (fold max (map length (map pw_segs ps @ map split_slash removes)) 0)"
    by simp
qed simp

end

section \<open>The abstract file system\<close>

text \<open>
  What a reader of a tree can observe at a path: nothing, a directory, or a file (a symbolic
  link is a file with mode \<^verbatim>\<open>0120000\<close>) with its bytes and its mode.
\<close>

datatype node = Dir | File "byte list" u32

definition node_at :: "('r, 'b) libgit2 \<Rightarrow> 'r \<Rightarrow> string \<Rightarrow> string list \<Rightarrow> node option res" where
  "node_at G r hex p =
     ebind (view G r hex p) (\<lambda>e. case e of
       None \<Rightarrow> Inr None
     | Some (h, m) \<Rightarrow>
         if m = MODE_TREE then Inr (Some Dir)
         else ebind (hex_to_oid G h) (\<lambda>oid.
           ebind (require_ok G r ''git_blob_lookup'' (git_blob_lookup G r oid)) (\<lambda>d.
             Inr (Some (File d m)))))"

definition write_node :: "tree_write \<Rightarrow> string list \<times> node" where
  "write_node = (\<lambda>(path, d, m). (split_slash path, File d m))"

definition apply_changes :: "tree_write list \<Rightarrow> string list \<Rightarrow>
    (string list \<Rightarrow> node option) \<Rightarrow> string list \<Rightarrow> node option" where
  "apply_changes writes removes old p =
     (let ws = map write_node writes; rms = map split_slash removes in
      if on_way (fst ` set ws) [] (butlast p) then None
      else case map_of (rev ws) p of
        Some nd \<Rightarrow> Some nd
      | None \<Rightarrow>
          if deeper p (map fst ws @ rms) then Some Dir
          else if on_way (set rms) [] p then None
          else old p)"

text \<open>No change lies below a path that is removed, and no write carries the mode of a directory.\<close>

definition settled :: "tree_write list \<Rightarrow> string list \<Rightarrow> bool" where
  "settled writes removes \<longleftrightarrow>
     (\<forall>q\<in>set (map split_slash removes).
        \<not> deeper q (map (fst \<circ> write_node) writes @ map split_slash removes)) \<and>
     (\<forall>w\<in>set writes. snd (snd w) \<noteq> MODE_TREE)"

definition blob_written :: "('r, 'b) libgit2 \<Rightarrow> 'r \<Rightarrow> tree_write \<Rightarrow> PendingWrite \<Rightarrow> bool" where
  "blob_written G r w pw \<longleftrightarrow> pw_segs pw = fst (write_node w) \<and> pw_mode pw = snd (snd w) \<and>
     (\<exists>oid. pw_oid_hex pw = git_oid_tostr G oid \<and> git_blob_lookup G r oid = Some (fst (snd w)))"

lemma last_write_list_all2:
  assumes "list_all2 (\<lambda>w pw. pw_segs pw = fst w \<and> Q w pw) ws ps"
  shows "case last_write ps p of
      None \<Rightarrow> map_of (rev ws) p = None
    | Some pw \<Rightarrow> \<exists>v. map_of (rev ws) p = Some v \<and> Q (p, v) pw"
  using assms
proof (induction rule: list_all2_induct)
  case (Cons w ws pw ps)
  then show ?case
    by (cases w) (auto simp: last_write_Cons map_add_def split: option.splits)
qed (simp add: last_write_def)

context git_odb
begin

lemma write_blobs:
  assumes "smap (write_blob G) writes r = (Inr ps, r')"
  shows "git_adds G r r' \<and> list_all2 (blob_written G r') writes ps"
  using assms
proof (induction writes arbitrary: r ps)
  case Nil
  then show ?case by (simp add: reflpD [OF reflp_git_adds])
next
  case (Cons w writes)
  then obtain pw ps' r1 where w: "write_blob G w r = (Inr pw, r1)"
      and s: "smap (write_blob G) writes r1 = (Inr ps', r')" and ps: "ps = pw # ps'"
    by (auto simp: outcome_iff)
  from w blob_create have A: "git_adds G r r1" "blob_written G r1 w pw"
    by (auto simp: write_blob_def blob_written_def write_node_def outcome_iff call_write_def
        throw_git_error_def oid_to_hex_def split: option.splits prod.splits)
  from Cons.IH [OF s] have B: "git_adds G r1 r'" "list_all2 (blob_written G r') writes ps'"
    by auto
  with A(2) have "blob_written G r' w pw"
    by (auto simp: blob_written_def git_adds_def git_extends_def)
  with A B show ?case
    using transpD [OF transp_git_adds] by (auto simp: ps)
qed

lemma node_at_extends:
  assumes "git_extends G r r'" "node_at G r h p = Inr x" "p \<noteq> []"
  shows "node_at G r' h p = Inr x"
proof -
  from assms(2) obtain e where v: "view G r h p = Inr e" by (auto simp: node_at_def outcome_iff)
  with view_extends [OF assms(1) _ assms(3)] have v': "view G r' h p = Inr e" by blast
  show ?thesis
  proof (cases "hex_to_oid G (fst (the e))")
    case (Inr oid)
    with v v' assms(1,2) git_extends_blob [OF assms(1)] show ?thesis
      by (auto simp: node_at_def require_ok_def throw_git_error_def split: option.splits if_splits)
  qed (use v v' assms(2) in \<open>auto simp: node_at_def split: option.splits if_splits\<close>)
qed

text \<open>The node that the lookup of a rebuilt path stands for.\<close>

lemma node_at_changed:
  assumes "view G r' new p = Inr y" "changed_view ps rms [] p x y"
    and blobs: "list_all2 (\<lambda>w pw. pw_segs pw = fst w \<and> (\<exists>d oid. snd w = File d (pw_mode pw) \<and>
        pw_mode pw \<noteq> MODE_TREE \<and> pw_oid_hex pw = git_oid_tostr G oid \<and>
        git_blob_lookup G r' oid = Some d)) ws ps"
    and settled: "\<forall>q\<in>set rms. \<not> deeper q (map fst ws @ rms)"
    and old: "y = x \<Longrightarrow> node_at G r' new p = Inr old"
  shows "node_at G r' new p = Inr
    (if on_way (fst ` set ws) [] (butlast p) then None
     else case map_of (rev ws) p of
       Some nd \<Rightarrow> Some nd
     | None \<Rightarrow> if deeper p (map fst ws @ rms) then Some Dir
         else if on_way (set rms) [] p then None else old)"
proof -
  have segs: "map pw_segs ps = map fst ws"
    using blobs by (auto simp: list_all2_conv_all_nth intro: nth_equalityI)
  then have W: "pw_segs ` set ps = fst ` set ws" by (metis list.set_map)
  have R: "{q \<in> set rms. \<not> deeper q (map fst ws @ rms)} = set rms" using settled by auto
  note c = assms(2) [unfolded changed_view_def Let_def segs W R]
  show ?thesis
  proof (cases "on_way (fst ` set ws) [] (butlast p)")
    case True
    with c assms(1) show ?thesis by (simp add: node_at_def)
  next
    case on: False
    show ?thesis
    proof (cases "last_write ps p")
      case None
      with on c old assms(1) last_write_list_all2 [OF blobs, of p] show ?thesis
        by (auto simp: node_at_def split: if_splits)
    next
      case (Some pw)
      with on c assms(1) last_write_list_all2 [OF blobs, of p] show ?thesis
        by (auto simp: node_at_def hex_to_oid_def oid_roundtrip require_ok_def)
    qed
  qed
qed

lemma rebuild_tree_node:
  assumes "rebuild_tree G base writes removes r = (Inr new, r')" "p \<noteq> []"
    and old: "node_at G r base p = Inr (old p)" and s: "settled writes removes"
  shows "node_at G r' new p = Inr (apply_changes writes removes old p)"
proof -
  let ?rms = "map split_slash removes"
  from assms(1) obtain ps r1 fuel where ps: "smap (write_blob G) writes r = (Inr ps, r1)"
      and rb: "rebuild G ps ?rms fuel base [] r1 = (Inr new, r')"
    unfolding rebuild_tree_def outcome_iff Let_def by blast
  note B = write_blobs [OF ps]
  have a: "git_adds G r1 r'" using keeps_rebuild rb by (rule keepsD)
  have old1: "node_at G r1 base p = Inr (old p)"
    using B node_at_extends [OF git_adds_extends _ assms(2)] old by blast
  then obtain x where x: "view G r1 base p = Inr x" by (auto simp: node_at_def outcome_iff)
  from B s have "list_all2 (\<lambda>w pw. pw_segs pw = fst (write_node w) \<and>
      (\<exists>d oid. snd (write_node w) = File d (pw_mode pw) \<and> pw_mode pw \<noteq> MODE_TREE \<and>
        pw_oid_hex pw = git_oid_tostr G oid \<and> git_blob_lookup G r' oid = Some d)) writes ps"
    using git_extends_blob [OF git_adds_extends [OF a]]
    by (fastforce simp: settled_def blob_written_def write_node_def split: prod.splits
        elim!: list.rel_mono_strong)
  then have L: "list_all2 (\<lambda>w pw. pw_segs pw = fst w \<and>
      (\<exists>d oid. snd w = File d (pw_mode pw) \<and> pw_mode pw \<noteq> MODE_TREE \<and>
        pw_oid_hex pw = git_oid_tostr G oid \<and> git_blob_lookup G r' oid = Some d)) (map write_node writes) ps"
    by (simp add: list_all2_map1)
  then have "\<forall>pw\<in>set ps. pw_mode pw \<noteq> MODE_TREE \<and> pw_oid_hex pw \<in> range (git_oid_tostr G)"
    by (fastforce simp: in_set_conv_nth list_all2_conv_all_nth)
  with rebuild_path [OF rb assms(2) x] obtain y where
      y: "view G r' new p = Inr y" "changed_view ps ?rms [] p x y" by blast
  have "node_at G r' new p = Inr (old p)" if "y = x"
    using node_at_extends [OF git_adds_extends [OF a] old1 assms(2)] x y(1) that
      view_extends [OF git_adds_extends [OF a] x assms(2)] by (simp add: node_at_def)
  from node_at_changed [OF y L _ this] s show ?thesis
    by (simp add: apply_changes_def settled_def Let_def comp_def)
qed

end

section \<open>The interface of the tree store\<close>

text \<open>Three consequences of the abstract update that the clients use.\<close>

lemma not_on_way_self: "p \<noteq> [] \<Longrightarrow> \<not> on_way {p} [] (butlast p)"
proof
  assume "p \<noteq> []" "on_way {p} [] (butlast p)"
  then have "prefix p (butlast p)" by (auto simp: on_way_iff)
  then have "length p \<le> length p - 1" 
    by (metis prefix_length_le length_butlast)
  moreover have "0 < length p" using \<open>p \<noteq> []\<close> by simp
  ultimately show False by linarith
qed

lemma apply_changes_write:
  "split_slash path \<noteq> [] \<Longrightarrow> apply_changes [(path, d, m)] [] old (split_slash path) = Some (File d m)"
  by (simp add: apply_changes_def write_node_def not_on_way_self)

definition comparable :: "string list \<Rightarrow> string list \<Rightarrow> bool" where
  "comparable p q \<longleftrightarrow> prefix p q \<or> prefix q p"

lemma apply_changes_frame:
  assumes "\<And>c. c \<in> fst ` set (map write_node writes) \<union> set (map split_slash removes) \<Longrightarrow> \<not> comparable c p"
  shows "apply_changes writes removes old p = old p"
proof -
  let ?W = "fst ` set (map write_node writes)" and ?R = "set (map split_slash removes)"
  have "\<not> on_way ?W [] (butlast p)"
  proof
    assume "on_way ?W [] (butlast p)"
    then obtain q where "prefix q (butlast p)" "q \<in> ?W" by (auto simp: on_way_iff)
    moreover from this(1) have "prefix q p" by (meson prefix_order.trans prefixeq_butlast)
    ultimately show False using assms by (auto simp: comparable_def)
  qed
  moreover have "map_of (rev (map write_node writes)) p = None"
    using assms by (auto simp: map_of_eq_None_iff comparable_def)
  moreover have "\<not> deeper p (map fst (map write_node writes) @ map split_slash removes)"
    using assms by (auto simp: deeper_def comparable_def strict_prefix_def)
  moreover have "\<not> on_way ?R [] p"
    using assms by (auto simp: on_way_iff comparable_def)
  ultimately show ?thesis by (simp add: apply_changes_def Let_def)
qed

lemma apply_changes_remove:
  assumes "q \<in> set removes" "prefix (split_slash q) p" "split_slash q \<noteq> []" "settled [] removes"
  shows "apply_changes [] removes old p = None"
proof -
  have "on_way (set (map split_slash removes)) [] p"
    unfolding on_way_iff using assms(1-3) by (intro exI [of _ "split_slash q"]) auto
  moreover have "\<not> deeper p (map split_slash removes)"
  proof
    assume "deeper p (map split_slash removes)"
    with assms(2) have "deeper (split_slash q) (map split_slash removes)"
      by (auto simp: deeper_def) (meson prefix_order.le_less_trans)
    with assms(1,4) show False by (auto simp: settled_def)
  qed
  moreover have "\<not> on_way {} [] (butlast p)" by (simp add: on_way_iff)
  ultimately show ?thesis by (simp add: apply_changes_def Let_def)
qed

text \<open>
  What the snapshot layer relies on: rebuilding a tree updates what can be read under the new
  id as \<open>apply_changes\<close> says, and what can be read under any id stays readable while the
  repository grows.
\<close>

locale tree_store =
  fixes store :: "string \<Rightarrow> tree_write list \<Rightarrow> string list \<Rightarrow> ('r, string) vop"
    and node :: "'r \<Rightarrow> string \<Rightarrow> string list \<Rightarrow> node option res"
    and grows :: "'r \<Rightarrow> 'r \<Rightarrow> bool"
  assumes store_grows: "keeps grows (store base writes removes)"
    and node_grows: "grows r r' \<Longrightarrow> p \<noteq> [] \<Longrightarrow> node r h p = Inr x \<Longrightarrow> node r' h p = Inr x"
    and store_node: "store base writes removes r = (Inr new, r') \<Longrightarrow> p \<noteq> [] \<Longrightarrow>
      node r base p = Inr (old p) \<Longrightarrow> settled writes removes \<Longrightarrow>
      node r' new p = Inr (apply_changes writes removes old p)"
begin

lemma store_old:
  "store base writes removes r = (res, r') \<Longrightarrow> p \<noteq> [] \<Longrightarrow> node r h p = Inr x \<Longrightarrow> node r' h p = Inr x"
  using node_grows keepsD [OF store_grows] by blast

lemma store_write:
  assumes "store base [(path, d, m)] [] r = (Inr new, r')" "split_slash path \<noteq> []"
    "node r base (split_slash path) = Inr x" "m \<noteq> MODE_TREE"
  shows "node r' new (split_slash path) = Inr (Some (File d m))"
  using store_node [OF assms(1,2), of "\<lambda>_. x"] assms(2-4) apply_changes_write
  by (simp add: settled_def)

lemma store_frame:
  assumes "store base writes removes r = (Inr new, r')" "p \<noteq> []" "node r base p = Inr x"
    "settled writes removes"
    "\<And>c. c \<in> fst ` set (map write_node writes) \<union> set (map split_slash removes) \<Longrightarrow> \<not> comparable c p"
  shows "node r' new p = Inr x"
  using store_node [OF assms(1,2), of "\<lambda>_. x"] assms(3,4)
    apply_changes_frame [of writes removes p "\<lambda>_. x", OF assms(5)] by simp

lemma store_remove:
  assumes "store base [] removes r = (Inr new, r')" "node r base p = Inr x" "settled [] removes"
    "q \<in> set removes" "prefix (split_slash q) p" "split_slash q \<noteq> []"
  shows "node r' new p = Inr None"
proof -
  from assms(5,6) have "p \<noteq> []" by auto
  from store_node [OF assms(1) this, of "\<lambda>_. x"] assms(2-6) apply_changes_remove
  show ?thesis by simp
qed

end

sublocale git_odb \<subseteq> trees: tree_store "rebuild_tree G" "node_at G" "git_extends G"
proof unfold_locales
  show "keeps (git_extends G) (rebuild_tree G base writes removes)" for base writes removes
    using keeps_rebuild_tree git_adds_extends by (rule keeps_mono)
qed (blast intro: node_at_extends, rule rebuild_tree_node)

section \<open>Properties\<close>

text \<open>A repository with \<^verbatim>\<open>a/b\<close> and \<^verbatim>\<open>c\<close>, for the witnesses.\<close>

definition demo_tree :: "string \<times> mem" where
  "demo_tree = (case rebuild_tree mem_git zero_hex
       [(''a/b'', to_bytes ''x'', MODE_BLOB), (''c'', to_bytes ''y'', MODE_BLOB_EXEC)] [] mem_empty of
     (Inr h, r) \<Rightarrow> (h, r) | (Inl e, r) \<Rightarrow> ([], r))"

text \<open>C1: rebuilding a tree implements the update of a file system. After
  \<^verbatim>\<open>rebuild_tree(base, writes, removes)\<close> every path holds: nothing when a directory above it
  was written as a file; the bytes and mode of the last write to it; a directory when something
  changed below it; nothing when it or a directory above it was removed; and otherwise exactly
  what it held in the base tree. The one restriction is that no change lies below a removed path.\<close>

theorem rebuild_tree_refines:
  assumes "git_odb G" "rebuild_tree G base writes removes r = (Inr new, r')"
    "settled writes removes" "p \<noteq> []" "node_at G r base p = Inr (old p)"
  shows "node_at G r' new p = Inr (apply_changes writes removes old p)"
  by (rule git_odb.rebuild_tree_node [where old = old]) (fact assms)+

theorem rebuild_tree_refines_witness:
  "case rebuild_tree mem_git (fst demo_tree) [(''a/d'', [1], MODE_BLOB)] [''c''] (snd demo_tree) of
     (Inr new, r') \<Rightarrow>
       node_at mem_git r' new [''a'', ''b''] =
         Inr (apply_changes [(''a/d'', [1], MODE_BLOB)] [''c''] (\<lambda>_. Some (File (to_bytes ''x'') MODE_BLOB)) [''a'', ''b''])
   | _ \<Rightarrow> False"
proof -
  let ?w = "[(''a/d'', [1], MODE_BLOB)]"
  have "returned (rebuild_tree mem_git (fst demo_tree) ?w [''c''] (snd demo_tree))" by code_simp
  then obtain new r' where
      eq: "rebuild_tree mem_git (fst demo_tree) ?w [''c''] (snd demo_tree) = (Inr new, r')"
    by (rule returnedE)
  have "settled ?w [''c'']" by code_simp
  moreover have "node_at mem_git (snd demo_tree) (fst demo_tree) [''a'', ''b''] =
      Inr (Some (File (to_bytes ''x'') MODE_BLOB))" by code_simp
  ultimately show ?thesis
    using rebuild_tree_refines [OF memory.git_odb_axioms eq, of "[''a'', ''b'']"] by (simp add: eq)
qed

text \<open>C17: rebuilding a tree always returns, and whatever its outcome it only adds objects: no
  blob, tree or commit that could be read changes, and no reference moves. It fails only when
  a call of libgit2 fails or an object id does not parse.\<close>

theorem rebuild_tree_total:
  assumes "git_odb G"
  shows "(\<exists>new r'. rebuild_tree G base writes removes r = (Inr new, r') \<and> git_adds G r r') \<or>
    (\<exists>e r'. rebuild_tree G base writes removes r = (Inl e, r') \<and> git_adds G r r' \<and>
       ((\<exists>m. e = GitError m) \<or> (\<exists>h. e = InvalidHashError h)))"
proof -
  obtain res r' where eq: "rebuild_tree G base writes removes r = (res, r')" by fastforce
  show ?thesis
    using eq keepsD [OF git_odb.keeps_rebuild_tree [OF assms] eq]
      git_failureD [OF throwsD [OF git_odb.throws_rebuild_tree [OF assms]]]
    by (cases res) auto
qed

theorem rebuild_tree_total_witness:
  "(\<exists>new r'. rebuild_tree mem_git zero_hex [(''a'', [1], MODE_BLOB)] [''b/c''] mem_empty = (Inr new, r') \<and>
      git_adds mem_git mem_empty r') \<or>
   (\<exists>e r'. rebuild_tree mem_git zero_hex [(''a'', [1], MODE_BLOB)] [''b/c''] mem_empty = (Inl e, r') \<and>
      git_adds mem_git mem_empty r' \<and> ((\<exists>m. e = GitError m) \<or> (\<exists>h. e = InvalidHashError h)))"
  by (rule rebuild_tree_total [OF memory.git_odb_axioms])

end
