(* ===== verification/Vost_Listing.thy ===== *)
theory Vost_Listing
  imports Vost_Rebuild
begin

text \<open>
  What the read operations of \<^verbatim>\<open>cpp/src/tree.cpp\<close> return, in terms of the nodes of a tree:
  \<^verbatim>\<open>lookup\<close> and \<^verbatim>\<open>read_blob\<close> path by path, \<^verbatim>\<open>walk_tree\<close> as the list of exactly the files below a
  directory, and the recursion of \<^verbatim>\<open>walk_tree_dirs\<close>, which ends because trees are acyclic.
\<close>

section \<open>Single paths\<close>

lemma lookup_view:
  "path \<noteq> [] \<Longrightarrow> hex \<noteq> zero_hex \<Longrightarrow> lookup G r hex path = view G r hex (split_slash path)"
  by (simp add: lookup_def entry_at_path_def view_def)

lemma read_blob_node:
  assumes "path \<noteq> []" "hex \<noteq> zero_hex"
  shows "read_blob G r hex path =
    ebind (node_at G r hex (split_slash path)) (\<lambda>nd. case nd of
      None \<Rightarrow> Inl (NotFoundError path)
    | Some Dir \<Rightarrow> Inl (IsADirectoryError path)
    | Some (File d m) \<Rightarrow> Inr d)"
proof -
  have *: "entry_at_path G r hex path = view G r hex (split_slash path)"
    using assms lookup_view by (simp add: lookup_def)
  show ?thesis
    unfolding read_blob_def * node_at_def
    by (auto simp: ebind_def split: sum.splits option.splits)
qed

lemma lookup_node:
  assumes "path \<noteq> []" "hex \<noteq> zero_hex" "node_at G r hex (split_slash path) = Inr nd"
  shows "\<exists>e. lookup G r hex path = Inr e \<and> (e = None \<longleftrightarrow> nd = None) \<and>
    (\<forall>h m. e = Some (h, m) \<longrightarrow> (m = MODE_TREE \<longleftrightarrow> nd = Some Dir) \<and>
       (\<forall>d m'. nd = Some (File d m') \<longrightarrow> m' = m))"
proof -
  from assms(3) obtain e where v: "view G r hex (split_slash path) = Inr e"
    by (auto simp: node_at_def outcome_iff)
  with assms(3) show ?thesis
    unfolding lookup_view [OF assms(1,2)] node_at_def
    by (cases e) (auto simp: outcome_iff split: if_splits)
qed

section \<open>Walks\<close>

text \<open>The files below a tree, each with its segments and the entry a walk reports for it.\<close>

definition files_below :: "('r, 'b) libgit2 \<Rightarrow> 'r \<Rightarrow> git_oid \<Rightarrow> (string list \<times> WalkEntry) set" where
  "files_below G r oid = {(p, we). p \<noteq> [] \<and> we_name we = last p \<and> we_mode we \<noteq> MODE_TREE \<and>
     entry_at_segs G r oid p = Inr (Some (we_oid we, we_mode we))}"

lemma walk_callback_segment:
  "segment (te_name e) \<Longrightarrow> walk_callback G (root, e) =
     (if te_mode e = MODE_TREE then [] else [(root @ te_name e, walk_entry_of G e)])"
  by (auto simp: walk_callback_def segment_def Let_def) (metis last_in_set)

lemma walk_callback_prefix:
  assumes "\<forall>x\<in>set ws. segment (te_name (snd x))"
  shows "concat (map (walk_callback G) (map (apfst (\<lambda>p. n @ CHR ''/'' # p)) ws)) =
    map (apfst (\<lambda>p. n @ CHR ''/'' # p)) (concat (map (walk_callback G) ws))"
  using assms by (induction ws) (auto simp: walk_callback_segment)

lemma apfst_Cons_image: "(n # q, w) \<in> apfst (Cons m) ` A \<longleftrightarrow> n = m \<and> (q, w) \<in> A"
  by force

lemma join_slash_Cons: "p \<noteq> [] \<Longrightarrow> join_slash (n # p) = n @ CHR ''/'' # join_slash p"
  by (cases p) auto

context git_odb
begin

lemma byname_mem:
  assumes "git_tree_lookup G r oid = Some t"
  shows "git_tree_entry_byname G t n = Some e \<longleftrightarrow> e \<in> set t \<and> te_name e = n"
proof
  assume "git_tree_entry_byname G t n = Some e"
  then show "e \<in> set t \<and> te_name e = n"
    using tree_byname [OF assms] by (auto simp: find_Some_iff)
next
  assume e: "e \<in> set t \<and> te_name e = n"
  then have "find (\<lambda>e. te_name e = n) t \<noteq> None" by (auto simp: find_None_iff)
  then obtain e' where "find (\<lambda>e. te_name e = n) t = Some e'" by blast
  moreover from this e have "e' \<in> set t" "te_name e' = te_name e" by (auto simp: find_Some_iff)
  with e tree_names [OF assms] have "e' = e" by (auto simp: distinct_map inj_on_def)
  ultimately show "git_tree_entry_byname G t n = Some e" using tree_byname [OF assms] by simp
qed

lemma entry_at_segs_step:
  assumes "git_tree_lookup G r oid = Some t"
  shows "entry_at_segs G r oid (n # p) = Inr (Some (h, m)) \<longleftrightarrow>
    (\<exists>e\<in>set t. te_name e = n \<and>
       (if p = [] then h = oid_to_hex G (te_oid e) \<and> m = te_mode e
        else te_mode e = MODE_TREE \<and> entry_at_segs G r (te_oid e) p = Inr (Some (h, m))))"
proof (cases "git_tree_entry_byname G t n")
  case None
  then have "\<not> (\<exists>e\<in>set t. te_name e = n)" using byname_mem [OF assms, of n] by auto
  with None show ?thesis unfolding entry_at_segs_Cons [OF assms] by auto
next
  case (Some e)
  then have "e' \<in> set t \<and> te_name e' = n \<longleftrightarrow> e' = e" for e'
    using byname_mem [OF assms, of n e'] by auto
  then have "(\<exists>e\<in>set t. te_name e = n \<and> P e) \<longleftrightarrow> P e" for P by metis
  with Some show ?thesis unfolding entry_at_segs_Cons [OF assms] by auto
qed

lemma files_below_step:
  assumes "git_tree_lookup G r oid = Some t"
  shows "files_below G r oid = (\<Union>e\<in>set t.
    if te_mode e = MODE_TREE then apfst (Cons (te_name e)) ` files_below G r (te_oid e)
    else {([te_name e], walk_entry_of G e)})" (is "_ = ?R")
proof (intro set_eqI, clarify)
  fix p and we :: WalkEntry
  show "(p, we) \<in> files_below G r oid \<longleftrightarrow> (p, we) \<in> ?R"
  proof (cases p)
    case Nil
    then show ?thesis by (auto simp: files_below_def split: if_splits)
  next
    case (Cons n q)
    have "(n # q, we) \<in> ?R \<longleftrightarrow> (\<exists>e\<in>set t. te_name e = n \<and>
        (if te_mode e = MODE_TREE then (q, we) \<in> files_below G r (te_oid e)
         else q = [] \<and> we = walk_entry_of G e))"
      by (auto simp: apfst_Cons_image)
    also have "\<dots> \<longleftrightarrow> (n # q, we) \<in> files_below G r oid"
    proof (cases "q = []")
      case True
      then show ?thesis
        unfolding files_below_def mem_Collect_eq case_prod_conv entry_at_segs_step [OF assms]
        by (cases we) (auto simp: walk_entry_of_def)
    next
      case False
      then show ?thesis
        unfolding files_below_def mem_Collect_eq case_prod_conv entry_at_segs_step [OF assms]
        by auto
    qed
    finally show ?thesis using Cons by simp
  qed
qed

lemma walk_tree_files:
  assumes "git_tree_walk G r oid = Some ws"
  shows "set (concat (map (walk_callback G) ws)) = map_prod join_slash id ` files_below G r oid \<and>
    (\<forall>x\<in>set ws. segment (te_name (snd x)))"
  using assms
proof (induction "git_tree_depth G r oid" arbitrary: oid ws rule: less_induct)
  case less
  from tree_walk [OF less.prems] obtain t where t: "git_tree_lookup G r oid = Some t"
      and sub: "\<And>e. e \<in> set t \<Longrightarrow> te_mode e = MODE_TREE \<Longrightarrow> git_tree_walk G r (te_oid e) \<noteq> None"
      and ws: "ws = concat (map (\<lambda>e. ([], e) #
          (if te_mode e = MODE_TREE
           then map (apfst (\<lambda>p. te_name e @ CHR ''/'' # p)) (the (git_tree_walk G r (te_oid e)))
           else [])) t)" by auto
  note seg = conjunct2 [OF tree_names [OF t]]
  have IH: "set (concat (map (walk_callback G) (the (git_tree_walk G r (te_oid e))))) =
        map_prod join_slash id ` files_below G r (te_oid e)"
      "\<forall>x\<in>set (the (git_tree_walk G r (te_oid e))). segment (te_name (snd x))"
    if "e \<in> set t" "te_mode e = MODE_TREE" for e
    using less.hyps [OF tree_acyclic [OF t that], of "the (git_tree_walk G r (te_oid e))"]
      sub [OF that] by simp_all
  have below: "set (concat (map (walk_callback G)
        (map (apfst (\<lambda>p. te_name e @ CHR ''/'' # p)) (the (git_tree_walk G r (te_oid e)))))) =
      map_prod join_slash id ` apfst (Cons (te_name e)) ` files_below G r (te_oid e)"
    if e: "e \<in> set t" "te_mode e = MODE_TREE" for e
    unfolding walk_callback_prefix [OF IH(2) [OF e]] set_map IH(1) [OF e] image_image
    by (rule image_cong) (auto simp: files_below_def join_slash_Cons)
  have each: "set (walk_callback G ([], e)) \<union> (if te_mode e = MODE_TREE
        then set (concat (map (walk_callback G)
          (map (apfst (\<lambda>p. te_name e @ CHR ''/'' # p)) (the (git_tree_walk G r (te_oid e))))))
        else {}) =
      map_prod join_slash id ` (if te_mode e = MODE_TREE
        then apfst (Cons (te_name e)) ` files_below G r (te_oid e)
        else {([te_name e], walk_entry_of G e)})" if "e \<in> set t" for e
    using that seg below [OF that] by (simp add: walk_callback_segment del: set_concat set_map)
  have "set (concat (map (walk_callback G) ws)) = (\<Union>e\<in>set t.
      set (walk_callback G ([], e)) \<union> (if te_mode e = MODE_TREE
        then set (concat (map (walk_callback G)
          (map (apfst (\<lambda>p. te_name e @ CHR ''/'' # p)) (the (git_tree_walk G r (te_oid e))))))
        else {}))"
    by (simp add: ws map_concat comp_def if_distrib cong: if_cong)
  also have "\<dots> = (\<Union>e\<in>set t.
      map_prod join_slash id ` (if te_mode e = MODE_TREE
        then apfst (Cons (te_name e)) ` files_below G r (te_oid e)
        else {([te_name e], walk_entry_of G e)}))"
    by (rule SUP_cong [OF refl each])
  finally have "set (concat (map (walk_callback G) ws)) = map_prod join_slash id ` files_below G r oid"
    unfolding files_below_step [OF t] image_UN .
  moreover have "\<forall>x\<in>set ws. segment (te_name (snd x))"
    using seg IH(2) by (fastforce simp: ws)
  ultimately show ?case by blast
qed

text \<open>The recursion of \<^verbatim>\<open>walk_tree_dirs\<close> has enough fuel, and lists the same files.\<close>

lemma walk_dirs_rec_failure:
  assumes "walk_dirs_rec G r fuel h pfx = Inl e" "hex_to_oid G h = Inr oid"
    "git_tree_depth G r oid < fuel"
  shows "git_failure e"
  using assms
proof (induction fuel arbitrary: h pfx oid)
  case (Suc fuel)
  show ?case
  proof (cases "git_tree_lookup G r oid")
    case None
    with Suc.prems show ?thesis by (auto simp: require_ok_def throw_git_error_def split: option.splits)
  next
    case (Some t)
    with Suc.prems obtain d pfx' where d: "d \<in> set t" "te_mode d = MODE_TREE"
        "walk_dirs_rec G r fuel (oid_to_hex G (te_oid d)) pfx' = Inl e"
      by (auto simp: require_ok_def Let_def ebind_Inl_iff dest!: emap_Inl split: if_splits)
    moreover have "git_tree_depth G r (te_oid d) < fuel"
      using tree_acyclic [OF Some d(1,2)] Suc.prems(3) by simp
    moreover have "hex_to_oid G (oid_to_hex G (te_oid d)) = Inr (te_oid d)"
      by (simp add: hex_to_oid_def oid_to_hex_def oid_roundtrip)
    ultimately show ?thesis using Suc.IH by blast
  qed
qed simp

end

text \<open>The files of a directory walk with their full paths, as \<^verbatim>\<open>ls(path, recursive)\<close> lists them.\<close>

definition under :: "string \<Rightarrow> string \<Rightarrow> string" where
  "under pfx p = (if pfx = [] then p else pfx @ CHR ''/'' # p)"

definition walk_files :: "WalkDirEntry list \<Rightarrow> (string \<times> WalkEntry) list" where
  "walk_files es = concat (map (\<lambda>wde. map (\<lambda>fe. (under (dirpath wde) (we_name fe), fe)) (wd_files wde)) es)"

definition dir_files :: "WalkDirEntry list \<Rightarrow> string list" where
  "dir_files es = concat (map (\<lambda>wde. map (\<lambda>fe.
     if dirpath wde = [] then we_name fe else dirpath wde @ CHR ''/'' # we_name fe) (wd_files wde)) es)"

lemma dir_files_walk: "dir_files es = map fst (walk_files es)"
  by (simp add: dir_files_def walk_files_def under_def map_concat comp_def)

lemma walk_files_Cons:
  "walk_files (e # es) = map (\<lambda>fe. (under (dirpath e) (we_name fe), fe)) (wd_files e) @ walk_files es"
  by (simp add: walk_files_def)

lemma walk_files_concat: "walk_files (concat ess) = concat (map walk_files ess)"
  by (induction ess) (auto simp: walk_files_def)

lemma UN_if_split: "(\<Union>e\<in>S. f ` (if P e then A e else B e)) =
    (\<Union>e\<in>{e \<in> S. P e}. f ` A e) \<union> (\<Union>e\<in>{e \<in> S. \<not> P e}. f ` B e)"
  by (simp add: if_distrib [of "(`) f"] Int_def cong: if_cong)

lemma under_join: "p \<noteq> [] \<Longrightarrow> n \<noteq> [] \<Longrightarrow> under (under pfx n) (join_slash p) = under pfx (join_slash (n # p))"
  by (simp add: under_def join_slash_Cons)

context git_odb
begin

lemma walk_dirs_entries:
  assumes "walk_dirs_rec G r fuel h pfx = Inr es" "hex_to_oid G h = Inr oid"
  shows "set (walk_files es) = (\<lambda>(p, we). (under pfx (join_slash p), we)) ` files_below G r oid"
  using assms
proof (induction fuel arbitrary: h pfx oid es)
  case (Suc fuel)
  then obtain t subs where t: "git_tree_lookup G r oid = Some t"
      and subs: "emap (\<lambda>e. walk_dirs_rec G r fuel (oid_to_hex G (te_oid e)) (under pfx (te_name e)))
          (filter (\<lambda>e. te_mode e = MODE_TREE) t) = Inr subs"
      and es: "es = \<lparr>dirpath = pfx, dirnames = map te_name (filter (\<lambda>e. te_mode e = MODE_TREE) t),
          wd_files = map (walk_entry_of G) (filter (\<lambda>e. te_mode e \<noteq> MODE_TREE) t)\<rparr> # concat subs"
    by (auto simp: outcome_iff Let_def under_def)
  let ?D = "filter (\<lambda>e. te_mode e = MODE_TREE) t"
  have sub: "set (walk_files s) =
      (\<lambda>(p, we). (under pfx (join_slash p), we)) ` apfst (Cons (te_name e)) ` files_below G r (te_oid e)"
    if s: "walk_dirs_rec G r fuel (oid_to_hex G (te_oid e)) (under pfx (te_name e)) = Inr s"
      and e: "e \<in> set t" for s e
  proof -
    have "hex_to_oid G (oid_to_hex G (te_oid e)) = Inr (te_oid e)"
      by (simp add: hex_to_oid_def oid_to_hex_def oid_roundtrip)
    from Suc.IH [OF s this] show ?thesis
      unfolding image_image using tree_names [OF t] e
      by (auto simp: files_below_def segment_def under_join intro!: image_cong)
  qed
  have all: "list_all2 (\<lambda>e s. set (walk_files s) =
      (\<lambda>(p, we). (under pfx (join_slash p), we)) ` apfst (Cons (te_name e)) ` files_below G r (te_oid e)) ?D subs"
    using subs [unfolded emap_Inr_iff] by (rule list.rel_mono_strong) (use sub in auto)
  then have "set (concat (map walk_files subs)) = (\<Union>e\<in>set ?D.
      (\<lambda>(p, we). (under pfx (join_slash p), we)) ` apfst (Cons (te_name e)) ` files_below G r (te_oid e))"
    by (induction rule: list_all2_induct) auto
  then have "set (walk_files es) = (\<Union>e\<in>set t. (\<lambda>(p, we). (under pfx (join_slash p), we)) `
      (if te_mode e = MODE_TREE then apfst (Cons (te_name e)) ` files_below G r (te_oid e)
       else {([te_name e], walk_entry_of G e)}))"
    unfolding es walk_files_Cons set_append walk_files_concat UN_if_split
    by (auto simp: walk_entry_of_def simp del: set_concat)
  then show ?case unfolding files_below_step [OF t] image_UN .
qed simp

lemma walk_dirs_files:
  assumes "walk_dirs_rec G r fuel h pfx = Inr es" "hex_to_oid G h = Inr oid"
  shows "set (dir_files es) = (\<lambda>(p, we). under pfx (join_slash p)) ` files_below G r oid"
  unfolding dir_files_walk set_map walk_dirs_entries [OF assms] image_image by (rule image_cong) auto

text \<open>A walk of a tree in which every path can be looked up returns.\<close>

lemma walk_dirs_rec_total:
  assumes "\<And>p. p \<noteq> [] \<Longrightarrow> \<exists>x. entry_at_segs G r oid p = Inr x" "hex_to_oid G h = Inr oid"
    "git_tree_depth G r oid < fuel"
  shows "\<exists>es. walk_dirs_rec G r fuel h pfx = Inr es"
  using assms
proof (induction fuel arbitrary: h pfx oid)
  case (Suc fuel)
  from Suc.prems(1) [of "[[]]"] obtain t where t: "git_tree_lookup G r oid = Some t"
    by (auto simp: outcome_iff)
  let ?D = "filter (\<lambda>e. te_mode e = MODE_TREE) t"
  have "\<exists>s. walk_dirs_rec G r fuel (oid_to_hex G (te_oid e)) (under pfx (te_name e)) = Inr s" if e: "e \<in> set ?D" for e
  proof (rule Suc.IH)
    have by_name: "git_tree_entry_byname G t (te_name e) = Some e" using e byname_mem [OF t] by simp
    show "\<exists>x. entry_at_segs G r (te_oid e) p = Inr x" if "p \<noteq> []" for p
      using Suc.prems(1) [of "te_name e # p", unfolded entry_at_segs_Cons [OF t] by_name] that e by simp
    show "hex_to_oid G (oid_to_hex G (te_oid e)) = Inr (te_oid e)"
      by (simp add: hex_to_oid_def oid_to_hex_def oid_roundtrip)
    show "git_tree_depth G r (te_oid e) < fuel" using tree_acyclic [OF t, of e] e Suc.prems(3) by simp
  qed
  then have "\<exists>subs. emap (\<lambda>e. walk_dirs_rec G r fuel (oid_to_hex G (te_oid e)) (under pfx (te_name e))) ?D = Inr subs"
    by (intro emap_total ballI)
  with t Suc.prems(2) show ?case by (auto simp: require_ok_def under_def Let_def)
qed simp

lemma entry_at_segs_append:
  assumes "entry_at_segs G r oid p = Inr (Some (oid_to_hex G sub, MODE_TREE))" "q \<noteq> []"
  shows "entry_at_segs G r oid (p @ q) = entry_at_segs G r sub q"
  using assms(1)
proof (induction p arbitrary: oid)
  case (Cons n p)
  then obtain t where t: "git_tree_lookup G r oid = Some t" by (auto simp: outcome_iff)
  with Cons.prems obtain e where e: "git_tree_entry_byname G t n = Some e"
    unfolding entry_at_segs_Cons [OF t] by (auto split: option.splits)
  note step = entry_at_segs_Cons [OF t, of n, unfolded e option.case]
  show ?case
  proof (cases "p = []")
    case True
    with Cons.prems have "git_oid_tostr G (te_oid e) = git_oid_tostr G sub" "te_mode e = MODE_TREE"
      unfolding step by (simp_all add: oid_to_hex_def)
    moreover from this(1) have "te_oid e = sub" using oid_roundtrip by (metis option.inject)
    ultimately show ?thesis unfolding append_Cons step using True assms(2) by simp
  next
    case False
    with Cons.prems have "te_mode e = MODE_TREE"
        "entry_at_segs G r (te_oid e) p = Inr (Some (oid_to_hex G sub, MODE_TREE))"
      unfolding step by (simp_all split: if_splits)
    with Cons.IH False show ?thesis unfolding append_Cons step by simp
  qed
qed simp

lemma files_below_segments: "(p, we) \<in> files_below G r oid \<Longrightarrow> \<forall>s\<in>set p. segment s"
proof (induction p arbitrary: oid)
  case (Cons n p)
  then obtain t where t: "git_tree_lookup G r oid = Some t" by (auto simp: files_below_def outcome_iff)
  from Cons.prems obtain e where e: "e \<in> set t" "te_name e = n"
      "p = [] \<or> (p, we) \<in> files_below G r (te_oid e)"
    unfolding files_below_step [OF t] by (auto split: if_splits)
  with tree_names [OF t] Cons.IH show ?case by auto
qed simp

lemma target_tree_oid:
  assumes "\<forall>s\<in>set ss. segment s" "hex_to_oid G hex = Inr root"
    "target_tree G r hex (join_slash ss) = Inr h" "hex_to_oid G h = Inr oid" "q \<noteq> []"
  shows "entry_at_segs G r root (ss @ q) = entry_at_segs G r oid q"
proof (cases "ss = []")
  case False
  with assms(1-3) join_slash_Nil_iff [OF assms(1)]
  have e: "entry_at_segs G r root ss = Inr (Some (h, MODE_TREE))"
    by (auto simp: target_tree_def entry_at_path_def outcome_iff split: option.splits if_splits)
  then obtain sub where "h = oid_to_hex G sub"
    by (induction ss arbitrary: root) (auto simp: outcome_iff split: option.splits if_splits)
  moreover from this assms(4) have "sub = oid" by (simp add: hex_to_oid_def oid_to_hex_def oid_roundtrip)
  ultimately show ?thesis using entry_at_segs_append e assms(5) by blast
qed (use assms in \<open>simp add: target_tree_def\<close>)

lemma walk_tree_set:
  assumes "walk_tree G r hex (join_slash ss) = Inr ws" "\<forall>s\<in>set ss. segment s" "hex_to_oid G hex = Inr root"
  shows "set ws = {(join_slash (ss @ q), we) |q we. q \<noteq> [] \<and> (\<forall>s\<in>set q. segment s) \<and>
    we_name we = last q \<and> we_mode we \<noteq> MODE_TREE \<and>
    entry_at_segs G r root (ss @ q) = Inr (Some (we_oid we, we_mode we))}"
proof -
  from assms(1) obtain h oid xs where h: "target_tree G r hex (join_slash ss) = Inr h"
      "hex_to_oid G h = Inr oid" "git_tree_walk G r oid = Some xs"
      and ws: "ws = (if ss = [] then concat (map (walk_callback G) xs)
        else map (apfst (\<lambda>p. join_slash ss @ CHR ''/'' # p)) (concat (map (walk_callback G) xs)))"
    using join_slash_Nil_iff [OF assms(2)]
    by (auto simp: walk_tree_def outcome_iff Let_def split: if_splits)
  have "set ws = (\<lambda>(q, we). (join_slash (ss @ q), we)) ` files_below G r oid"
  proof (cases "ss = []")
    case True
    then show ?thesis using walk_tree_files [OF h(3)] ws by (simp add: map_prod_def)
  next
    case False
    then have "set ws = (\<lambda>p. apfst (\<lambda>p. join_slash ss @ CHR ''/'' # p) p) ` map_prod join_slash id ` files_below G r oid"
      using walk_tree_files [OF h(3)] ws by (metis list.set_map)
    with False show ?thesis
      unfolding image_image by (auto simp: files_below_def join_slash_append intro!: image_cong)
  qed
  also have "files_below G r oid = {(q, we). q \<noteq> [] \<and> (\<forall>s\<in>set q. segment s) \<and>
    we_name we = last q \<and> we_mode we \<noteq> MODE_TREE \<and>
    entry_at_segs G r root (ss @ q) = Inr (Some (we_oid we, we_mode we))}"
    using files_below_segments target_tree_oid [OF assms(2,3) h(1,2)]
    by (auto simp: files_below_def)
  finally show ?thesis by auto
qed

end

section \<open>Properties\<close>

text \<open>C15: \<^verbatim>\<open>walk_tree\<close> returns exactly the files below a directory: its result holds a path with
  an entry if and only if the path is the directory's path extended by proper segments, a
  lookup of the path finds an object that is not a directory, and the entry carries that
  object's id and mode and the last segment as its name.\<close>

theorem walk_tree_exact:
  assumes "git_odb G" "walk_tree G r hex (join_slash ss) = Inr ws" "\<forall>s\<in>set ss. segment s"
  shows "set ws = {(join_slash (ss @ q), we) |q we. q \<noteq> [] \<and> (\<forall>s\<in>set q. segment s) \<and>
    we_name we = last q \<and> we_mode we \<noteq> MODE_TREE \<and>
    lookup G r hex (join_slash (ss @ q)) = Inr (Some (we_oid we, we_mode we))}"
proof -
  have "\<exists>root. hex_to_oid G hex = Inr root"
    using assms(2) by (auto simp: walk_tree_def target_tree_def entry_at_path_def outcome_iff split: if_splits)
  then obtain root where root: "hex_to_oid G hex = Inr root" ..
  have "lookup G r hex (join_slash (ss @ q)) = entry_at_segs G r root (ss @ q)"
    if q: "q \<noteq> []" "\<forall>s\<in>set q. segment s" for q
  proof -
    have "\<forall>s\<in>set (ss @ q). segment s" using q assms(3) by auto
    with q join_slash_Nil_iff [OF this] root show ?thesis
      by (simp only: lookup_def entry_at_path_def split_join) simp
  qed
  then show ?thesis
    using git_odb.walk_tree_set [OF assms(1-3) root] by (simp cong: conj_cong)
qed

theorem walk_tree_exact_witness:
  "case walk_tree mem_git (snd demo_tree) (fst demo_tree) [] of
     Inr ws \<Rightarrow> set ws = {(join_slash q, we) |q we. q \<noteq> [] \<and> (\<forall>s\<in>set q. segment s) \<and>
       we_name we = last q \<and> we_mode we \<noteq> MODE_TREE \<and>
       lookup mem_git (snd demo_tree) (fst demo_tree) (join_slash q) = Inr (Some (we_oid we, we_mode we))}
   | Inl _ \<Rightarrow> False"
proof -
  have "\<not> isl (walk_tree mem_git (snd demo_tree) (fst demo_tree) [])" by code_simp
  then obtain ws where ws: "walk_tree mem_git (snd demo_tree) (fst demo_tree) [] = Inr ws"
    by (cases "walk_tree mem_git (snd demo_tree) (fst demo_tree) []") auto
  then show ?thesis
    using walk_tree_exact [OF memory.git_odb_axioms, of "snd demo_tree" "fst demo_tree" "[]" ws] by simp
qed

text \<open>\<^verbatim>\<open>walk_tree_dirs\<close> always returns: its recursion descends an acyclic tree, so it fails
  only with the error of the path lookup, a libgit2 error or an unparsable id; when it returns,
  the files it reports are exactly the non-directories below the path.\<close>

lemma walk_tree_dirs_files:
  assumes "git_odb G" "target_tree G r hex path = Inr h" "hex_to_oid G h = Inr oid"
  shows "(\<forall>e. walk_tree_dirs G r hex path = Inl e \<longrightarrow> git_failure e) \<and>
    (\<forall>es. walk_tree_dirs G r hex path = Inr es \<longrightarrow>
       set (dir_files es) = (\<lambda>(p, we). under path (join_slash p)) ` files_below G r oid)"
  using git_odb.walk_dirs_rec_failure [OF assms(1) _ assms(3)]
    git_odb.walk_dirs_files [OF assms(1) _ assms(3)] assms(2,3)
  by (simp add: walk_tree_dirs_def del: walk_dirs_rec.simps)

lemma walk_tree_dirs_files_witness:
  "\<exists>oid. hex_to_oid mem_git (fst demo_tree) = Inr oid \<and>
     (\<forall>es. walk_tree_dirs mem_git (snd demo_tree) (fst demo_tree) [] = Inr es \<longrightarrow>
       set (dir_files es) = (\<lambda>(p, we). under [] (join_slash p)) ` files_below mem_git (snd demo_tree) oid)"
proof -
  have "\<not> isl (hex_to_oid mem_git (fst demo_tree))" by code_simp
  then obtain oid where oid: "hex_to_oid mem_git (fst demo_tree) = Inr oid"
    by (cases "hex_to_oid mem_git (fst demo_tree)") auto
  have "target_tree mem_git (snd demo_tree) (fst demo_tree) [] = Inr (fst demo_tree)"
    by (simp add: target_tree_def)
  from walk_tree_dirs_files [OF memory.git_odb_axioms this oid] oid show ?thesis by blast
qed

end
