(* ===== verification/Vost_Glob.thy ===== *)
theory Vost_Glob
  imports Vost_Paths
begin

text \<open>
  \<^verbatim>\<open>cpp/src/glob.cpp\<close>: the segment matcher \<^verbatim>\<open>fnmatch\<close> and the dotfile-aware \<^verbatim>\<open>glob_match\<close>,
  with a declarative pattern language they are proved to decide; and the directory search
  shared by \<^verbatim>\<open>Fs::iglob\<close> and \<^verbatim>\<open>disk_glob\<close> as an interface.
\<close>

section \<open>fnmatch\<close>

text \<open>
  The class loop \<^verbatim>\<open>while (pi < plen && pattern[pi] != ']')\<close>: the flag \<^verbatim>\<open>matched\<close> and the
  pattern left at the closing bracket (or empty when there is none). Characters compare as
  \<^verbatim>\<open>char\<close>, which is signed on the supported platforms.
\<close>

definition schar :: "char \<Rightarrow> int" where
  "schar c = sint (byte_of_char c)"

fun scan_class :: "char \<Rightarrow> string \<Rightarrow> bool \<Rightarrow> bool \<times> string" where
  "scan_class ch [] matched = (matched, [])"
| "scan_class ch [a] matched =
     (if a = CHR '']'' then (matched, [a]) else (matched \<or> ch = a, []))"
| "scan_class ch [a, d] matched =
     (if a = CHR '']'' then (matched, [a, d]) else scan_class ch [d] (matched \<or> ch = a))"
| "scan_class ch (a # d # b # q) matched =
     (if a = CHR '']'' then (matched, a # d # b # q)
      else if d = CHR ''-'' then
        scan_class ch q (matched \<or> schar a \<le> schar ch \<and> schar ch \<le> schar b)
      else scan_class ch (d # b # q) (matched \<or> ch = a))"

lemma scan_class_length: "length (snd (scan_class ch q m)) \<le> length q"
  by (induction ch q m rule: scan_class.induct) auto

text \<open>
  The main loop on the rest of the pattern and of the name. Recursive calls of the loop and
  of the star branch both shorten the pattern.
\<close>

function fnmatch :: "string \<Rightarrow> string \<Rightarrow> bool" where
  "fnmatch pattern name =
     (case (pattern, name) of
        (pc # ps, ch # cs) \<Rightarrow>
          if pc = CHR ''*'' then
            (let rest = dropWhile (\<lambda>c. c = CHR ''*'') pattern in
             if rest = [] then True
             else list_ex (\<lambda>k. fnmatch rest (drop k name)) [0 ..< Suc (length name)])
          else if pc = CHR ''?'' then fnmatch ps cs
          else if pc = CHR ''['' then
            (let negate = (case ps of c # _ \<Rightarrow> c = CHR ''!'' | [] \<Rightarrow> False);
                 start = (if negate then drop 1 ps else ps);
                 cls = scan_class ch start False
             in if fst cls = negate then False
                else fnmatch (drop 1 (snd cls)) cs)
          else if pc \<noteq> ch then False
          else fnmatch ps cs
      | _ \<Rightarrow> dropWhile (\<lambda>c. c = CHR ''*'') pattern = [] \<and> name = [])"
  by pat_completeness auto
termination
proof (relation "measure (\<lambda>(p, n). length p)", goal_cases)
  case (2 pattern name x y pc ps ch cs rest k)
  have "length (dropWhile (\<lambda>c. c = CHR ''*'') ps) \<le> length ps" by (rule length_dropWhile_le)
  with 2 show ?case by auto
next
  case (4 pattern name x y pc ps ch cs negate start cls)
  have "length (snd (scan_class ch start False)) \<le> length start" by (rule scan_class_length)
  moreover have "length start \<le> length ps" using 4 by auto
  ultimately show ?case using 4 by auto
qed auto

declare fnmatch.simps [simp del]

lemma list_ex_upt_Suc: "list_ex P [0 ..< Suc n] \<longleftrightarrow> (\<exists>k \<le> n. P k)"
  by (auto simp: list_ex_iff less_Suc_eq_le simp del: upt_Suc)

lemma fnmatch_star:
  "fnmatch (CHR ''*'' # ps) (ch # cs) \<longleftrightarrow>
     dropWhile (\<lambda>c. c = CHR ''*'') ps = [] \<or>
     (\<exists>k \<le> length (ch # cs). fnmatch (dropWhile (\<lambda>c. c = CHR ''*'') ps) (drop k (ch # cs)))"
  by (subst fnmatch.simps)
    (simp add: Let_def list_ex_upt_Suc del: upt_Suc dropWhile_eq_Nil_conv)

definition glob_match :: "string \<Rightarrow> string \<Rightarrow> bool" where
  "glob_match pattern name =
     (if name \<noteq> [] \<and> hd name = CHR ''.'' \<and> pattern \<noteq> [] \<and> hd pattern \<noteq> CHR ''.''
         \<and> pattern \<noteq> ''**''
      then False
      else fnmatch pattern name)"

section \<open>The pattern language\<close>

text \<open>
  A pattern is a list of items; a name matches when it splits into pieces that match the
  items one after the other.
\<close>

datatype class_item = Single char | Range char char

datatype glob_item = Star | AnyChar | Class bool "class_item list" | Literal char

fun in_item :: "char \<Rightarrow> class_item \<Rightarrow> bool" where
  "in_item ch (Single a) = (ch = a)"
| "in_item ch (Range a b) = (schar a \<le> schar ch \<and> schar ch \<le> schar b)"

fun class_items :: "string \<Rightarrow> class_item list \<times> string" where
  "class_items [] = ([], [])"
| "class_items [a] = (if a = CHR '']'' then ([], [a]) else ([Single a], []))"
| "class_items [a, d] =
     (if a = CHR '']'' then ([], [a, d]) else apfst (Cons (Single a)) (class_items [d]))"
| "class_items (a # d # b # q) =
     (if a = CHR '']'' then ([], a # d # b # q)
      else if d = CHR ''-'' then apfst (Cons (Range a b)) (class_items q)
      else apfst (Cons (Single a)) (class_items (d # b # q)))"

lemma class_items_length: "length (snd (class_items q)) \<le> length q"
  by (induction q rule: class_items.induct) auto

lemma scan_class_items:
  "scan_class ch q m = (m \<or> list_ex (in_item ch) (fst (class_items q)), snd (class_items q))"
  by (induction ch q m rule: scan_class.induct) auto

function glob_items :: "string \<Rightarrow> glob_item list" where
  "glob_items [] = []"
| "glob_items (pc # ps) =
     (if pc = CHR ''*'' then Star # glob_items ps
      else if pc = CHR ''?'' then AnyChar # glob_items ps
      else if pc = CHR ''['' then
        (let negate = (case ps of c # _ \<Rightarrow> c = CHR ''!'' | [] \<Rightarrow> False);
             start = (if negate then drop 1 ps else ps)
         in Class negate (fst (class_items start)) #
              glob_items (drop 1 (snd (class_items start))))
      else Literal pc # glob_items ps)"
  by pat_completeness auto
termination
proof (relation "measure length", goal_cases)
  case (4 pc ps negate start)
  have "length (snd (class_items start)) \<le> length start" by (rule class_items_length)
  moreover have "length start \<le> length ps" using 4 by auto
  ultimately show ?case by auto
qed auto

declare glob_items.simps(2) [simp del]

inductive item_match :: "glob_item list \<Rightarrow> string \<Rightarrow> bool" where
  finished: "item_match [] []"
| star: "item_match ps v \<Longrightarrow> item_match (Star # ps) (u @ v)"
| anychar: "item_match ps cs \<Longrightarrow> item_match (AnyChar # ps) (c # cs)"
| charclass: "list_ex (in_item c) items \<noteq> negate \<Longrightarrow> item_match ps cs \<Longrightarrow>
     item_match (Class negate items # ps) (c # cs)"
| literal: "item_match ps cs \<Longrightarrow> item_match (Literal c # ps) (c # cs)"

inductive_simps item_match_simps [simp]:
  "item_match [] n"
  "item_match (AnyChar # ps) n"
  "item_match (Class negate items # ps) n"
  "item_match (Literal c # ps) n"

inductive_simps item_match_star: "item_match (Star # ps) n"

lemma item_match_star_suffix:
  "item_match (Star # ps) n \<longleftrightarrow> (\<exists>k \<le> length n. item_match ps (drop k n))"
proof
  assume "item_match (Star # ps) n"
  then obtain u v where "n = u @ v" "item_match ps v" by (auto simp: item_match_star)
  then have "length u \<le> length n \<and> item_match ps (drop (length u) n)" by simp
  then show "\<exists>k \<le> length n. item_match ps (drop k n)" by blast
next
  assume "\<exists>k \<le> length n. item_match ps (drop k n)"
  then obtain k where "item_match ps (drop k n)" by blast
  then have "item_match (Star # ps) (take k n @ drop k n)" by (rule item_match.star)
  then show "item_match (Star # ps) n" by simp
qed

lemma item_match_Star_only [simp]: "item_match [Star] n"
  using item_match.star [OF item_match.finished, of n] by simp

lemma item_match_star_star: "item_match (Star # Star # ps) n \<longleftrightarrow> item_match (Star # ps) n"
proof
  assume "item_match (Star # Star # ps) n"
  then obtain u v w where "n = u @ v @ w" "item_match ps w" by (auto simp: item_match_star)
  then show "item_match (Star # ps) n" using item_match.star [of ps w "u @ v"] by simp
next
  assume "item_match (Star # ps) n"
  then show "item_match (Star # Star # ps) n" using item_match.star [of _ n "[]"] by simp
qed

lemma item_match_stars:
  "pc = CHR ''*'' \<Longrightarrow> item_match (glob_items (pc # ps)) n \<longleftrightarrow>
     item_match (Star # glob_items (dropWhile (\<lambda>c. c = CHR ''*'') ps)) n"
proof (induction ps arbitrary: n)
  case Nil
  then show ?case by (simp add: glob_items.simps)
next
  case (Cons c ps)
  then show ?case
    by (cases "c = CHR ''*''") (auto simp: glob_items.simps item_match_star_star)
qed

lemma item_match_trailing_stars:
  "item_match (glob_items p) [] \<longleftrightarrow> dropWhile (\<lambda>c. c = CHR ''*'') p = []"
proof (induction p)
  case (Cons c p)
  then show ?case
    by (auto simp: glob_items.simps Let_def item_match_star)
qed simp

text \<open>A pattern that begins with a star, when the recursive calls are right.\<close>

lemma fnmatch_star_items:
  fixes ps cs ch
  defines "rest \<equiv> dropWhile (\<lambda>c. c = CHR ''*'') ps" and "name \<equiv> ch # cs"
  assumes "\<And>k. rest \<noteq> [] \<Longrightarrow> k \<le> length name \<Longrightarrow> fnmatch rest (drop k name) \<longleftrightarrow> item_match (glob_items rest) (drop k name)"
  shows "fnmatch (CHR ''*'' # ps) name \<longleftrightarrow> item_match (glob_items (CHR ''*'' # ps)) name"
proof -
  have "fnmatch (CHR ''*'' # ps) name \<longleftrightarrow> rest = [] \<or> (\<exists>k \<le> length name. fnmatch rest (drop k name))"
    unfolding rest_def name_def by (rule fnmatch_star)
  also have "\<dots> \<longleftrightarrow> rest = [] \<or> (\<exists>k \<le> length name. item_match (glob_items rest) (drop k name))"
    using assms(3) by (cases "rest = []") (simp_all cong: conj_cong)
  also have "\<dots> \<longleftrightarrow> item_match (Star # glob_items rest) name"
    by (cases "rest = []") (auto simp: item_match_star_suffix)
  finally show ?thesis by (simp add: item_match_stars rest_def)
qed


end
