(* ===== verification/Vost_Fs.thy ===== *)
theory Vost_Fs
  imports Vost_Listing Vost_Glob
begin

text \<open>
  \<^verbatim>\<open>cpp/src/fs.cpp\<close>: the snapshot \<^verbatim>\<open>Fs\<close>. A snapshot is an immutable value: the ids of a commit
  and of its tree, the branch or tag it came from and whether it may be written. Reads look
  into the tree; a write builds a new tree and commit, moves the branch if it still points to
  the snapshot's commit, and returns the new snapshot.
\<close>

section \<open>The snapshot\<close>

text \<open>\<^verbatim>\<open>GitStoreInner\<close> without the libgit2 handle and the mutex.\<close>

record Inner =
  in_path :: string
  in_signature :: Signature

record Fs =
  inner :: Inner
  commit_oid_hex :: string  \<comment> \<open>empty when the branch has no commit yet\<close>
  tree_oid_hex :: string
  ref_name :: "string option"
  writable :: bool
  changes :: "ChangeReport option"

definition make_fs :: "Inner \<Rightarrow> string \<Rightarrow> string \<Rightarrow> string option \<Rightarrow> bool \<Rightarrow> ChangeReport option \<Rightarrow> Fs" where
  "make_fs i c t rn w ch = \<lparr>inner = i, commit_oid_hex = c, tree_oid_hex = t, ref_name = rn,
     writable = w, changes = ch\<rparr>"

definition from_commit :: "('r, 'b) libgit2 \<Rightarrow> 'r \<Rightarrow> Inner \<Rightarrow> string \<Rightarrow> string option \<Rightarrow> bool \<Rightarrow> Fs res" where
  "from_commit G r i c rn w =
     ebind (tree_oid_for_commit G r c) (\<lambda>tree_hex. Inr (make_fs i c tree_hex rn w None))"

definition empty_fs :: "Inner \<Rightarrow> string \<Rightarrow> Fs" where
  "empty_fs i rn = make_fs i [] [] (Some rn) True None"

definition commit_hash :: "Fs \<Rightarrow> string option" where
  "commit_hash fs = (if commit_oid_hex fs = [] then None else Some (commit_oid_hex fs))"

definition tree_hash :: "Fs \<Rightarrow> string option" where
  "tree_hash fs = (if tree_oid_hex fs = [] then None else Some (tree_oid_hex fs))"

definition fs_meta :: "('r, 'b) libgit2 \<Rightarrow> 'r \<Rightarrow> Fs \<Rightarrow> CommitMeta res" where
  "fs_meta G r fs =
     (if commit_oid_hex fs = [] then Inl (NotFoundError ''no commit in snapshot'')
      else read_commit G r (commit_oid_hex fs))"

definition fs_message :: "('r, 'b) libgit2 \<Rightarrow> 'r \<Rightarrow> Fs \<Rightarrow> string res" where
  "fs_message G r fs = ebind (fs_meta G r fs) (\<lambda>meta. Inr (cm_message meta))"

definition fs_time :: "('r, 'b) libgit2 \<Rightarrow> 'r \<Rightarrow> Fs \<Rightarrow> u64 res" where
  "fs_time G r fs = ebind (fs_meta G r fs) (\<lambda>meta. Inr (cm_time meta))"

definition fs_author_name :: "('r, 'b) libgit2 \<Rightarrow> 'r \<Rightarrow> Fs \<Rightarrow> string res" where
  "fs_author_name G r fs = ebind (fs_meta G r fs) (\<lambda>meta. Inr (cm_author_name meta))"

definition fs_author_email :: "('r, 'b) libgit2 \<Rightarrow> 'r \<Rightarrow> Fs \<Rightarrow> string res" where
  "fs_author_email G r fs = ebind (fs_meta G r fs) (\<lambda>meta. Inr (cm_author_email meta))"

definition require_writable :: "Fs \<Rightarrow> string \<Rightarrow> string res" where
  "require_writable fs verb =
     (if \<not> writable fs then
        (case ref_name fs of
           Some rn \<Rightarrow> Inl (PermissionError (''cannot '' @ verb @ '' read-only snapshot (ref '' @
             CHR 0x22 # rn @ CHR 0x22 # '')''))
         | None \<Rightarrow> Inl (PermissionError (''cannot '' @ verb @ '' read-only snapshot'')))
      else (case ref_name fs of
           None \<Rightarrow> Inl (PermissionError (''cannot '' @ verb @ '' without a branch''))
         | Some rn \<Rightarrow> Inr rn))"

definition require_tree :: "Fs \<Rightarrow> string res" where
  "require_tree fs =
     (if tree_oid_hex fs = [] then Inl (NotFoundError ''no tree in snapshot'')
      else Inr (tree_oid_hex fs))"

section \<open>Reads\<close>

definition read :: "('r, 'b) libgit2 \<Rightarrow> 'r \<Rightarrow> Fs \<Rightarrow> string \<Rightarrow> byte list res" where
  "read G r fs path =
     ebind (require_tree fs) (\<lambda>tree. ebind (normalize path) (\<lambda>norm. read_blob G r tree norm))"

definition read_text :: "('r, 'b) libgit2 \<Rightarrow> 'r \<Rightarrow> Fs \<Rightarrow> string \<Rightarrow> string res" where
  "read_text G r fs path = ebind (read G r fs path) (\<lambda>d. Inr (from_bytes d))"

definition walk :: "('r, 'b) libgit2 \<Rightarrow> 'r \<Rightarrow> Fs \<Rightarrow> string \<Rightarrow> WalkDirEntry list res" where
  "walk G r fs path =
     ebind (require_tree fs) (\<lambda>tree. ebind (normalize path) (\<lambda>norm. walk_tree_dirs G r tree norm))"

definition listdir :: "('r, 'b) libgit2 \<Rightarrow> 'r \<Rightarrow> Fs \<Rightarrow> string \<Rightarrow> WalkEntry list res" where
  "listdir G r fs path =
     ebind (require_tree fs) (\<lambda>tree. ebind (normalize path) (\<lambda>norm. list_tree G r tree norm))"

definition ls :: "('r, 'b) libgit2 \<Rightarrow> 'r \<Rightarrow> Fs \<Rightarrow> string \<Rightarrow> bool \<Rightarrow> string list res" where
  "ls G r fs path recursive =
     (if recursive then ebind (walk G r fs path) (\<lambda>entries.
        Inr (concat (map (\<lambda>wde. map (\<lambda>fe.
          if dirpath wde = [] then we_name fe
          else dirpath wde @ CHR ''/'' # we_name fe) (wd_files wde)) entries)))
      else ebind (require_tree fs) (\<lambda>tree. ebind (normalize path) (\<lambda>norm.
        ebind (list_tree G r tree norm) (\<lambda>entries. Inr (map we_name entries)))))"

definition exists_path :: "('r, 'b) libgit2 \<Rightarrow> 'r \<Rightarrow> Fs \<Rightarrow> string \<Rightarrow> bool res" where
  "exists_path G r fs path =
     (if tree_oid_hex fs = [] then Inr False
      else ebind (normalize path) (\<lambda>norm.
        if norm = [] then Inr True
        else ebind (lookup G r (tree_oid_hex fs) norm) (\<lambda>entry. Inr (entry \<noteq> None))))"

definition is_dir :: "('r, 'b) libgit2 \<Rightarrow> 'r \<Rightarrow> Fs \<Rightarrow> string \<Rightarrow> bool res" where
  "is_dir G r fs path =
     (if tree_oid_hex fs = [] then Inr False
      else ebind (normalize path) (\<lambda>norm.
        if norm = [] then Inr True
        else ebind (lookup G r (tree_oid_hex fs) norm) (\<lambda>entry.
          case entry of None \<Rightarrow> Inr False | Some (h, mode) \<Rightarrow> Inr (mode = MODE_TREE))))"

text \<open>The lines shared by the operations on one existing entry.\<close>

definition entry_or_throw :: "('r, 'b) libgit2 \<Rightarrow> 'r \<Rightarrow> Fs \<Rightarrow> string \<Rightarrow> (string \<times> u32) res" where
  "entry_or_throw G r fs path =
     ebind (require_tree fs) (\<lambda>tree. ebind (normalize path) (\<lambda>norm.
       ebind (lookup G r tree norm) (\<lambda>entry.
         case entry of None \<Rightarrow> Inl (NotFoundError path) | Some e \<Rightarrow> Inr e)))"

definition file_type :: "('r, 'b) libgit2 \<Rightarrow> 'r \<Rightarrow> Fs \<Rightarrow> string \<Rightarrow> FileType res" where
  "file_type G r fs path =
     ebind (entry_or_throw G r fs path) (\<lambda>(h, mode).
       case file_type_from_mode mode of
         None \<Rightarrow> Inl (GitError (''unknown mode for: '' @ path))
       | Some ft \<Rightarrow> Inr ft)"

definition blob_size :: "('r, 'b) libgit2 \<Rightarrow> 'r \<Rightarrow> string \<Rightarrow> u64 res" where
  "blob_size G r oid_hex =
     ebind (hex_to_oid G oid_hex) (\<lambda>oid.
       ebind (require_ok G r ''git_blob_lookup'' (git_blob_lookup G r oid)) (\<lambda>d.
         Inr (word_of_nat (length d))))"

definition fs_size :: "('r, 'b) libgit2 \<Rightarrow> 'r \<Rightarrow> Fs \<Rightarrow> string \<Rightarrow> u64 res" where
  "fs_size G r fs path =
     ebind (entry_or_throw G r fs path) (\<lambda>(h, mode).
       if mode = MODE_TREE then Inl (IsADirectoryError path) else blob_size G r h)"

definition object_hash :: "('r, 'b) libgit2 \<Rightarrow> 'r \<Rightarrow> Fs \<Rightarrow> string \<Rightarrow> string res" where
  "object_hash G r fs path = ebind (entry_or_throw G r fs path) (\<lambda>(h, mode). Inr h)"

definition readlink :: "('r, 'b) libgit2 \<Rightarrow> 'r \<Rightarrow> Fs \<Rightarrow> string \<Rightarrow> string res" where
  "readlink G r fs path =
     ebind (require_tree fs) (\<lambda>tree. ebind (normalize path) (\<lambda>norm.
       ebind (lookup G r tree norm) (\<lambda>entry.
         case entry of
           None \<Rightarrow> Inl (NotFoundError path)
         | Some (h, mode) \<Rightarrow>
             if mode \<noteq> MODE_LINK then Inl (InvalidPathError (path @ '' is not a symlink''))
             else ebind (read_blob G r tree norm) (\<lambda>d. Inr (from_bytes d)))))"

definition stat :: "('r, 'b) libgit2 \<Rightarrow> 'r \<Rightarrow> Fs \<Rightarrow> string \<Rightarrow> StatResult res" where
  "stat G r fs path =
     ebind (require_tree fs) (\<lambda>tree_hex.
     ebind (if commit_oid_hex fs = [] then Inr 0 else fs_time G r fs) (\<lambda>mtime.
     ebind (normalize path) (\<lambda>norm.
       if norm = [] then
         ebind (count_subdirs G r tree_hex) (\<lambda>n.
           Inr \<lparr>st_mode = MODE_TREE, st_file_type = Tree, st_size = 0, st_hash = tree_hex,
                st_nlink = 2 + n, st_mtime = mtime\<rparr>)
       else ebind (lookup G r tree_hex norm) (\<lambda>entry.
         case entry of
           None \<Rightarrow> Inl (NotFoundError path)
         | Some (h, mode) \<Rightarrow>
             (case file_type_from_mode mode of
                None \<Rightarrow> Inl (GitError (''unknown mode for: '' @ path))
              | Some ft \<Rightarrow>
                  if mode = MODE_TREE then
                    ebind (count_subdirs G r h) (\<lambda>n.
                      Inr \<lparr>st_mode = mode, st_file_type = ft, st_size = 0, st_hash = h,
                           st_nlink = 2 + n, st_mtime = mtime\<rparr>)
                  else ebind (blob_size G r h) (\<lambda>sz.
                    Inr \<lparr>st_mode = mode, st_file_type = ft, st_size = sz, st_hash = h,
                         st_nlink = 1, st_mtime = mtime\<rparr>))))))"

text \<open>
  The slice of \<^verbatim>\<open>read_range\<close> and \<^verbatim>\<open>read_by_hash\<close> in 64-bit \<^verbatim>\<open>size_t\<close> arithmetic, with the guard
  against the overflow of \<^verbatim>\<open>start + sz\<close>; \<^verbatim>\<open>data.size()\<close> is the length as a \<^verbatim>\<open>size_t\<close>.
\<close>

definition slice :: "byte list \<Rightarrow> u64 \<Rightarrow> u64 option \<Rightarrow> byte list" where
  "slice data offset sz =
     (let size = word_of_nat (length data) :: u64;
          start = min offset size;
          stop = (case sz of
            Some n \<Rightarrow> min (if start \<le> - 1 - n then start + n else - 1) size
          | None \<Rightarrow> size)
      in take (unat stop - unat start) (drop (unat start) data))"

definition read_range :: "('r, 'b) libgit2 \<Rightarrow> 'r \<Rightarrow> Fs \<Rightarrow> string \<Rightarrow> u64 \<Rightarrow> u64 option \<Rightarrow> byte list res" where
  "read_range G r fs path offset sz =
     ebind (read G r fs path) (\<lambda>data. Inr (slice data offset sz))"

definition fs_read_by_hash :: "('r, 'b) libgit2 \<Rightarrow> 'r \<Rightarrow> string \<Rightarrow> u64 \<Rightarrow> u64 option \<Rightarrow> byte list res" where
  "fs_read_by_hash G r hash offset sz =
     ebind (hex_to_oid G hash) (\<lambda>oid.
       ebind (require_ok G r ''git_blob_lookup'' (git_blob_lookup G r oid)) (\<lambda>data.
         Inr (slice data offset sz)))"

section \<open>Globbing\<close>

text \<open>
  \<^verbatim>\<open>iglob_recursive\<close>; \<^verbatim>\<open>segments\<close> from \<^verbatim>\<open>seg_idx\<close> on is the list \<open>segs\<close>. Every call either drops a
  segment or descends into a subtree: fuel is the number of segments plus the tree depth.
\<close>

fun iglob_recursive :: "('r, 'b) libgit2 \<Rightarrow> 'r \<Rightarrow> nat \<Rightarrow> string \<Rightarrow> string list \<Rightarrow> string \<Rightarrow> string list res" where
  "iglob_recursive G r 0 tree segs pfx = Inl Nontermination"
| "iglob_recursive G r (Suc fuel) tree [] pfx = Inr []"
| "iglob_recursive G r (Suc fuel) tree (seg # segs) pfx =
     ebind (list_tree_by_oid G r tree) (\<lambda>entries.
       let full = (\<lambda>e. if pfx = [] then we_name e else pfx @ CHR ''/'' # we_name e) in
       if seg = ''**'' then
         ebind (iglob_recursive G r fuel tree segs pfx) (\<lambda>here.
         ebind (emap (\<lambda>e.
             if we_name e = [] \<or> hd (we_name e) = CHR ''.'' then Inr []
             else if we_mode e = MODE_TREE
             then iglob_recursive G r fuel (we_oid e) (seg # segs) (full e)
             else Inr []) entries) (\<lambda>below.
           Inr (here @ concat below)))
       else
         ebind (emap (\<lambda>e.
             if \<not> glob_match seg (we_name e) then Inr []
             else if segs = [] then
               (if we_mode e \<noteq> MODE_TREE then Inr [full e] else Inr [])
             else if we_mode e = MODE_TREE
             then iglob_recursive G r fuel (we_oid e) segs (full e)
             else Inr []) entries) (\<lambda>found. Inr (concat found)))"

definition iglob :: "('r, 'b) libgit2 \<Rightarrow> 'r \<Rightarrow> Fs \<Rightarrow> string \<Rightarrow> string list res" where
  "iglob G r fs pattern =
     ebind (require_tree fs) (\<lambda>tree_hex.
       let segments = split_slash pattern in
       if segments = [] then Inr []
       else iglob_recursive G r
         (Suc (length segments + (case hex_to_oid G tree_hex of Inr oid \<Rightarrow> git_tree_depth G r oid | Inl _ \<Rightarrow> 0)))
         tree_hex segments [])"

definition glob :: "('r, 'b) libgit2 \<Rightarrow> 'r \<Rightarrow> Fs \<Rightarrow> string \<Rightarrow> string list res" where
  "glob G r fs pattern = ebind (iglob G r fs pattern) (\<lambda>results. Inr (sort results))"

section \<open>Committing\<close>

text \<open>
  The compare half of compare-and-swap, shared by commits, undo and redo: when the branch
  exists and resolves to a commit, that commit has to be the snapshot's.
\<close>

definition check_tip :: "('r, 'b) libgit2 \<Rightarrow> string \<Rightarrow> string \<Rightarrow> string \<Rightarrow> 'r \<Rightarrow> unit res" where
  "check_tip G ref refname commit_hex r =
     (case git_reference_lookup G r refname of
        None \<Rightarrow> Inr ()
      | Some cur_ref \<Rightarrow>
          (case git_reference_peel G r cur_ref of
             None \<Rightarrow> Inr ()
           | Some oid \<Rightarrow>
               if git_oid_tostr G oid \<noteq> commit_hex
               then Inl (StaleSnapshotError (''branch '' @ CHR 0x27 # ref @ CHR 0x27 #
                      '' has advanced (concurrent write)''))
               else Inr ()))"

text \<open>A libgit2 call that only has an effect.\<close>

definition call_effect :: "('r, 'b) libgit2 \<Rightarrow> string \<Rightarrow> ('r \<Rightarrow> 'r option) \<Rightarrow> ('r, unit) vop" where
  "call_effect G context f = call_write G context (\<lambda>r. map_option (\<lambda>r'. ((), r')) (f r))"

definition parse_oid :: "('r, 'b) libgit2 \<Rightarrow> string \<Rightarrow> string \<Rightarrow> git_oid res" where
  "parse_oid G hex msg =
     (case git_oid_fromstr G hex of None \<Rightarrow> Inl (GitError msg) | Some oid \<Rightarrow> Inr oid)"

definition swap_ref ::
  "('r, 'b) libgit2 \<Rightarrow> string \<Rightarrow> string \<Rightarrow> string \<Rightarrow> string \<Rightarrow> ('r, unit) vop" where
  "swap_ref G refname commit_hex new_commit_hex message =
     sbind (sread (\<lambda>r. parse_oid G new_commit_hex ''invalid new commit oid'')) (\<lambda>new_oid.
       if commit_hex \<noteq> [] then
         sbind (sread (\<lambda>r. parse_oid G commit_hex ''invalid old commit oid'')) (\<lambda>old_oid.
         sbind (sread (\<lambda>r. Inr (git_reference_lookup G r refname))) (\<lambda>found.
           call_effect G ''git_reference update'' (\<lambda>r.
             case found of
               Some existing \<Rightarrow> git_reference_set_target G r existing new_oid message
             | None \<Rightarrow> git_reference_create G r refname new_oid False message)))
       else call_effect G ''git_reference update'' (\<lambda>r.
              git_reference_create G r refname new_oid False message))"

definition commit_body :: "('r, 'b) libgit2 \<Rightarrow> Fs \<Rightarrow> string \<Rightarrow> tree_write list \<Rightarrow> string list \<Rightarrow>
    string \<Rightarrow> string list \<Rightarrow> ('r, string \<times> string) vop" where
  "commit_body G fs ref writes removes message extra_parents =
     (let refname = ''refs/heads/'' @ ref;
          base_tree = (if tree_oid_hex fs = [] then zero_hex else tree_oid_hex fs)
      in sbind (sread (check_tip G ref refname (commit_oid_hex fs))) (\<lambda>_.
         sbind (rebuild_tree G base_tree writes removes) (\<lambda>new_tree_hex.
         sbind (write_commit G new_tree_hex
                  ((if commit_oid_hex fs = [] then [] else [commit_oid_hex fs]) @ extra_parents)
                  (in_signature (inner fs)) message) (\<lambda>new_commit_hex.
         sbind (swap_ref G refname (commit_oid_hex fs) new_commit_hex message) (\<lambda>_.
           sreturn (new_commit_hex, new_tree_hex))))))"

definition commit_changes :: "('r, 'b) libgit2 \<Rightarrow> Fs \<Rightarrow> tree_write list \<Rightarrow> string list \<Rightarrow> string \<Rightarrow>
    ChangeReport option \<Rightarrow> string list \<Rightarrow> ('r, Fs) vop" where
  "commit_changes G fs writes removes message report extra_parents =
     sbind (sread (\<lambda>r. require_writable fs ''write'')) (\<lambda>ref.
       sbind (with_repo_lock G (in_path (inner fs))
               (commit_body G fs ref writes removes message extra_parents)) (\<lambda>(new_commit_hex, new_tree_hex).
         sreturn (make_fs (inner fs) new_commit_hex new_tree_hex (ref_name fs) True report)))"

section \<open>Writes\<close>

definition write_fs :: "('r, 'b) libgit2 \<Rightarrow> Fs \<Rightarrow> string \<Rightarrow> byte list \<Rightarrow> WriteOptions \<Rightarrow> ('r, Fs) vop" where
  "write_fs G fs path data opts =
     sbind (sread (\<lambda>r. normalize path)) (\<lambda>norm.
       let mode = (case wo_mode opts of Some m \<Rightarrow> m | None \<Rightarrow> MODE_BLOB);
           msg = format_message (''write: '' @ norm) (wo_message opts)
       in commit_changes G fs [(norm, data, mode)] [] msg None (wo_parents opts))"

definition write_text :: "('r, 'b) libgit2 \<Rightarrow> Fs \<Rightarrow> string \<Rightarrow> string \<Rightarrow> WriteOptions \<Rightarrow> ('r, Fs) vop" where
  "write_text G fs path text opts = write_fs G fs path (to_bytes text) opts"

definition write_symlink :: "('r, 'b) libgit2 \<Rightarrow> Fs \<Rightarrow> string \<Rightarrow> string \<Rightarrow> WriteOptions \<Rightarrow> ('r, Fs) vop" where
  "write_symlink G fs path target opts =
     sbind (sread (\<lambda>r. normalize path)) (\<lambda>norm.
       let msg = format_message (''symlink: '' @ norm) (wo_message opts)
       in commit_changes G fs [(norm, to_bytes target, MODE_LINK)] [] msg None (wo_parents opts))"

definition apply_entry :: "string \<times> WriteEntry \<Rightarrow> tree_write res" where
  "apply_entry = (\<lambda>(p, we).
     ebind (WriteEntry_validate we) (\<lambda>_.
     ebind (normalize p) (\<lambda>norm.
       let data = (case wr_data we of
             Some d \<Rightarrow> d
           | None \<Rightarrow> (case wr_target we of Some t \<Rightarrow> to_bytes t | None \<Rightarrow> []))
       in Inr (norm, data, wr_mode we))))"

definition apply_fs :: "('r, 'b) libgit2 \<Rightarrow> Fs \<Rightarrow> (string \<times> WriteEntry) list \<Rightarrow> string list \<Rightarrow>
    ApplyOptions \<Rightarrow> ('r, Fs) vop" where
  "apply_fs G fs writes removes opts =
     (let msg = format_message (case ao_operation opts of Some x \<Rightarrow> x | None \<Rightarrow> ''apply'') (ao_message opts)
      in sbind (sread (\<lambda>r. emap apply_entry writes)) (\<lambda>internal.
         sbind (sread (\<lambda>r. emap normalize removes)) (\<lambda>norm_removes.
           commit_changes G fs internal norm_removes msg None (ao_parents opts))))"

definition remove_path :: "('r, 'b) libgit2 \<Rightarrow> 'r \<Rightarrow> string \<Rightarrow> bool \<Rightarrow> string \<Rightarrow> string res" where
  "remove_path G r tree_hex recursive p =
     ebind (normalize p) (\<lambda>norm.
     ebind (lookup G r tree_hex norm) (\<lambda>entry.
       case entry of
         None \<Rightarrow> Inl (NotFoundError norm)
       | Some (h, mode) \<Rightarrow>
           if mode = MODE_TREE \<and> \<not> recursive then Inl (IsADirectoryError norm) else Inr norm))"

definition remove_fs :: "('r, 'b) libgit2 \<Rightarrow> Fs \<Rightarrow> string list \<Rightarrow> RemoveOptions \<Rightarrow> ('r, Fs) vop" where
  "remove_fs G fs paths_in opts =
     sbind (sread (\<lambda>r. require_writable fs ''remove'')) (\<lambda>_.
     sbind (sread (\<lambda>r. require_tree fs)) (\<lambda>tree_hex.
     sbind (sread (\<lambda>r. emap (remove_path G r tree_hex (ro_recursive opts)) paths_in)) (\<lambda>to_remove.
       if ro_dry_run opts then sreturn fs
       else commit_changes G fs [] to_remove (format_message ''remove'' (ro_message opts)) None
              (ro_parents opts))))"

text \<open>The loop over the files of a directory that moves to \<open>target\<close>.\<close>

definition moved_children :: "('r, 'b) libgit2 \<Rightarrow> 'r \<Rightarrow> string \<Rightarrow> string \<Rightarrow> string \<Rightarrow> tree_write list res" where
  "moved_children G r tree_hex norm_src target =
     ebind (walk_tree G r tree_hex norm_src) (\<lambda>children.
       emap (\<lambda>(rel_path, we).
         ebind (read_blob G r tree_hex rel_path) (\<lambda>data.
           Inr (target @ drop (length norm_src) rel_path, data, we_mode we))) children)"

definition move_source :: "('r, 'b) libgit2 \<Rightarrow> 'r \<Rightarrow> string \<Rightarrow> bool \<Rightarrow> bool \<Rightarrow> string \<Rightarrow> string \<Rightarrow>
    (tree_write list \<times> string) res" where
  "move_source G r tree_hex recursive dest_is_dir norm_dest src =
     ebind (normalize src) (\<lambda>norm_src.
       if norm_src = [] then Inl (InvalidPathError ''cannot move root'')
       else ebind (lookup G r tree_hex norm_src) (\<lambda>entry.
         case entry of
           None \<Rightarrow> Inl (NotFoundError norm_src)
         | Some (h, mode) \<Rightarrow>
             let target = (if dest_is_dir
                   then if norm_dest = [] then basename norm_src
                        else norm_dest @ CHR ''/'' # basename norm_src
                   else norm_dest)
             in if mode = MODE_TREE then
                  if \<not> recursive then Inl (IsADirectoryError norm_src)
                  else ebind (moved_children G r tree_hex norm_src target) (\<lambda>ws. Inr (ws, norm_src))
                else ebind (read_blob G r tree_hex norm_src) (\<lambda>data.
                  Inr ([(target, data, mode)], norm_src))))"

definition move_fs :: "('r, 'b) libgit2 \<Rightarrow> Fs \<Rightarrow> string list \<Rightarrow> string \<Rightarrow> MoveOptions \<Rightarrow> ('r, Fs) vop" where
  "move_fs G fs sources dest opts =
     sbind (sread (\<lambda>r. require_writable fs ''move'')) (\<lambda>_.
     sbind (sread (\<lambda>r. require_tree fs)) (\<lambda>tree_hex.
     sbind (sread (\<lambda>r. normalize dest)) (\<lambda>norm_dest.
       if sources = [] then sthrow (InvalidPathError ''move: no sources provided'')
       else
         sbind (sread (\<lambda>r.
           if norm_dest = [] then Inr True
           else ebind (lookup G r tree_hex norm_dest) (\<lambda>dest_entry.
             Inr (case dest_entry of Some (h, mode) \<Rightarrow> mode = MODE_TREE | None \<Rightarrow> False)))) (\<lambda>dest_is_dir.
         if length sources > 1 \<and> \<not> dest_is_dir
         then sthrow (NotADirectoryError ''move: destination must be a directory for multiple sources'')
         else
           sbind (sread (\<lambda>r.
             emap (move_source G r tree_hex (mo_recursive opts) dest_is_dir norm_dest) sources)) (\<lambda>plans.
           if mo_dry_run opts then sreturn fs
           else commit_changes G fs (concat (map fst plans)) (map snd plans)
                  (format_message ''move'' (mo_message opts)) None (mo_parents opts))))))"

definition rename_plan :: "('r, 'b) libgit2 \<Rightarrow> 'r \<Rightarrow> string \<Rightarrow> u32 option \<Rightarrow> string \<Rightarrow> string \<Rightarrow>
    tree_write list res" where
  "rename_plan G r tree_hex mode_opt norm_src norm_dest =
     ebind (lookup G r tree_hex norm_src) (\<lambda>entry.
       case entry of
         None \<Rightarrow> Inl (NotFoundError norm_src)
       | Some (h, emode) \<Rightarrow>
           if emode = MODE_TREE then moved_children G r tree_hex norm_src norm_dest
           else ebind (read_blob G r tree_hex norm_src) (\<lambda>data.
             let mode = (case mode_opt of Some m \<Rightarrow> m | None \<Rightarrow> emode)
             in Inr [(norm_dest, data, mode)]))"

definition rename_fs :: "('r, 'b) libgit2 \<Rightarrow> Fs \<Rightarrow> string \<Rightarrow> string \<Rightarrow> WriteOptions \<Rightarrow> ('r, Fs) vop" where
  "rename_fs G fs src dest opts =
     sbind (sread (\<lambda>r. require_writable fs ''rename'')) (\<lambda>_.
     sbind (sread (\<lambda>r. require_tree fs)) (\<lambda>tree_hex.
     sbind (sread (\<lambda>r. normalize src)) (\<lambda>norm_src.
     sbind (sread (\<lambda>r. normalize dest)) (\<lambda>norm_dest.
       if norm_src = [] then sthrow (InvalidPathError ''cannot rename root'')
       else if norm_dest = [] then sthrow (InvalidPathError ''cannot rename to root'')
       else
         let msg = format_message (''rename: '' @ norm_src @ '' -> '' @ norm_dest) (wo_message opts)
         in sbind (sread (\<lambda>r. rename_plan G r tree_hex (wo_mode opts) norm_src norm_dest)) (\<lambda>writes.
            commit_changes G fs writes [norm_src] msg None (wo_parents opts))))))"

end
