(* ===== verification/Vost_History.thy ===== *)
theory Vost_History
  imports Vost_Fs
begin

text \<open>
  The history operations of \<^verbatim>\<open>cpp/src/fs.cpp\<close> (\<^verbatim>\<open>parent\<close>, \<^verbatim>\<open>back\<close>, \<^verbatim>\<open>undo\<close>, \<^verbatim>\<open>redo\<close>, \<^verbatim>\<open>log\<close>,
  \<^verbatim>\<open>squash\<close>) and the buffered writer \<^verbatim>\<open>FsWriter\<close>.
\<close>

section \<open>Parents\<close>

definition parent :: "('r, 'b) libgit2 \<Rightarrow> 'r \<Rightarrow> Fs \<Rightarrow> Fs option res" where
  "parent G r fs =
     (if commit_oid_hex fs = [] then Inr None
      else ebind (read_commit G r (commit_oid_hex fs)) (\<lambda>meta.
        if cm_parent_oid_hex meta = [] then Inr None
        else Inr (case git_oid_fromstr G (cm_parent_oid_hex meta) of
          None \<Rightarrow> None
        | Some poid \<Rightarrow>
            (case git_commit_lookup G r poid of
               None \<Rightarrow> None
             | Some c \<Rightarrow> Some (make_fs (inner fs) (cm_parent_oid_hex meta)
                 (git_oid_tostr G (gc_tree c)) (ref_name fs) (writable fs) None)))))"

fun back_loop :: "('r, 'b) libgit2 \<Rightarrow> 'r \<Rightarrow> nat \<Rightarrow> nat \<Rightarrow> Fs \<Rightarrow> Fs res" where
  "back_loop G r requested 0 cur = Inr cur"
| "back_loop G r requested (Suc i) cur =
     ebind (parent G r cur) (\<lambda>p. case p of
       None \<Rightarrow> Inl (NotFoundError (''not enough history (requested '' @ to_string requested @ '' commits back)''))
     | Some p \<Rightarrow> back_loop G r requested i p)"

definition back_fs :: "('r, 'b) libgit2 \<Rightarrow> 'r \<Rightarrow> Fs \<Rightarrow> nat \<Rightarrow> Fs res" where
  "back_fs G r fs n = back_loop G r n n fs"

section \<open>Undo and redo\<close>

fun undo_walk :: "('r, 'b) libgit2 \<Rightarrow> 'r \<Rightarrow> nat \<Rightarrow> nat \<Rightarrow> string \<Rightarrow> string res" where
  "undo_walk G r n 0 cur_hex = Inr cur_hex"
| "undo_walk G r n (Suc i) cur_hex =
     ebind (read_commit G r cur_hex) (\<lambda>meta.
       if cm_parent_oid_hex meta = []
       then Inl (NotFoundError (''not enough history to undo '' @ to_string n @ '' commit(s)''))
       else undo_walk G r n i (cm_parent_oid_hex meta))"

text \<open>The locked section that undo and redo share.\<close>

definition reset_ref :: "('r, 'b) libgit2 \<Rightarrow> string \<Rightarrow> string \<Rightarrow> string \<Rightarrow> string \<Rightarrow> string \<Rightarrow> string \<Rightarrow> ('r, unit) vop" where
  "reset_ref G ref refname commit_hex target_hex msg context =
     sbind (sread (check_tip G ref refname commit_hex)) (\<lambda>_.
     sbind (sread (\<lambda>r. parse_oid G target_hex ''invalid target oid'')) (\<lambda>target_oid.
     sbind (sread (\<lambda>r. require_ok G r ''git_reference_lookup'' (git_reference_lookup G r refname))) (\<lambda>existing.
       call_effect G context (\<lambda>r. git_reference_set_target G r existing target_oid msg))))"

definition undo_fs :: "('r, 'b) libgit2 \<Rightarrow> Fs \<Rightarrow> nat \<Rightarrow> ('r, Fs) vop" where
  "undo_fs G fs n =
     sbind (sread (\<lambda>r. require_writable fs ''undo'')) (\<lambda>ref.
       if commit_oid_hex fs = [] then sthrow (NotFoundError ''no commit to undo'')
       else if n = 0 then sreturn fs
       else
         sbind (sread (\<lambda>r. undo_walk G r n n (commit_oid_hex fs))) (\<lambda>target_hex.
         sbind (sread (\<lambda>r. tree_oid_for_commit G r target_hex)) (\<lambda>target_tree_hex.
         sbind (with_repo_lock G (in_path (inner fs))
                 (reset_ref G ref (''refs/heads/'' @ ref) (commit_oid_hex fs) target_hex
                    (''undo: '' @ to_string n @ '' commit(s)'') ''git_reference_set_target (undo)'')) (\<lambda>_.
           sreturn (make_fs (inner fs) target_hex target_tree_hex (ref_name fs) True None)))))"

text \<open>The \<^verbatim>\<open>for\<close> loop of \<^verbatim>\<open>redo\<close> over the reflog, newest entry first.\<close>

fun redo_scan :: "('r, 'b) libgit2 \<Rightarrow> nat \<Rightarrow> git_reflog_entry list \<Rightarrow> string \<Rightarrow> nat \<Rightarrow> string \<times> nat" where
  "redo_scan G n [] cur_hex redo_found = (cur_hex, redo_found)"
| "redo_scan G n (e # es) cur_hex redo_found =
     (if redo_found \<ge> n then (cur_hex, redo_found)
      else
        let entry_msg = (case rl_message e of Some m \<Rightarrow> m | None \<Rightarrow> []) in
        if take 5 entry_msg \<noteq> ''undo:'' \<and> take 5 entry_msg \<noteq> ''redo:''
        then redo_scan G n es cur_hex redo_found
        else if git_oid_tostr G (rl_new e) = cur_hex \<and> git_oid_tostr G (rl_old e) \<noteq> zero_hex
        then redo_scan G n es (git_oid_tostr G (rl_old e)) (Suc redo_found)
        else redo_scan G n es cur_hex redo_found)"

definition redo_target :: "('r, 'b) libgit2 \<Rightarrow> Fs \<Rightarrow> string \<Rightarrow> nat \<Rightarrow> 'r \<Rightarrow> (string \<times> string) res" where
  "redo_target G fs refname n r =
     (case git_reflog_read G r refname of
        None \<Rightarrow> Inl (NotFoundError ''no reflog for redo'')
      | Some rlog \<Rightarrow>
          let (cur_hex, redo_found) = redo_scan G n rlog
                (if commit_oid_hex fs = [] then zero_hex else commit_oid_hex fs) 0
          in if redo_found < n then Inl (NotFoundError ''not enough redo history'')
             else ebind (tree_oid_for_commit G r cur_hex) (\<lambda>t. Inr (cur_hex, t)))"

definition redo_fs :: "('r, 'b) libgit2 \<Rightarrow> Fs \<Rightarrow> nat \<Rightarrow> ('r, Fs) vop" where
  "redo_fs G fs n =
     sbind (sread (\<lambda>r. require_writable fs ''redo'')) (\<lambda>ref.
       if n = 0 then sreturn fs
       else
         let refname = ''refs/heads/'' @ ref in
         sbind (sread (redo_target G fs refname n)) (\<lambda>(target_hex, target_tree_hex).
         sbind (with_repo_lock G (in_path (inner fs))
                 (reset_ref G ref refname (commit_oid_hex fs) target_hex
                    (''redo: '' @ to_string n @ '' commit(s)'') ''git_reference_set_target (redo)'')) (\<lambda>_.
           sreturn (make_fs (inner fs) target_hex target_tree_hex (ref_name fs) True None))))"

section \<open>Log\<close>

definition log_path_matches :: "('r, 'b) libgit2 \<Rightarrow> 'r \<Rightarrow> CommitMeta \<Rightarrow> string \<Rightarrow> bool res" where
  "log_path_matches G r meta path =
     ebind (normalize path) (\<lambda>norm_path.
     ebind (lookup G r (cm_tree_oid_hex meta) norm_path) (\<lambda>this_entry.
       if cm_parent_oid_hex meta \<noteq> [] then
         ebind (read_commit G r (cm_parent_oid_hex meta)) (\<lambda>parent_meta.
         ebind (lookup G r (cm_tree_oid_hex parent_meta) norm_path) (\<lambda>parent_entry.
           Inr (this_entry \<noteq> parent_entry)))
       else Inr (this_entry \<noteq> None)))"

definition log_matches :: "('r, 'b) libgit2 \<Rightarrow> 'r \<Rightarrow> LogOptions \<Rightarrow> CommitMeta \<Rightarrow> bool res" where
  "log_matches G r opts meta =
     (if (case lo_before opts of Some t \<Rightarrow> cm_time meta > t | None \<Rightarrow> False) then Inr False
      else if (case lo_match_pattern opts of Some p \<Rightarrow> \<not> glob_match p (cm_message meta) | None \<Rightarrow> False)
      then Inr False
      else (case lo_path opts of Some p \<Rightarrow> log_path_matches G r meta p | None \<Rightarrow> Inr True))"

definition commit_info :: "string \<Rightarrow> CommitMeta \<Rightarrow> CommitInfo" where
  "commit_info hex meta = \<lparr>ci_commit_hash = hex, ci_message = cm_message meta,
     ci_time = Some (cm_time meta), ci_author_name = Some (cm_author_name meta),
     ci_author_email = Some (cm_author_email meta)\<rparr>"

text \<open>
  The \<^verbatim>\<open>while (!cur_hex.empty())\<close> loop with its variables \<^verbatim>\<open>skipped\<close> and \<^verbatim>\<open>results\<close>. Fuel is the
  length of the history plus one.
\<close>

fun log_loop :: "('r, 'b) libgit2 \<Rightarrow> 'r \<Rightarrow> LogOptions \<Rightarrow> nat \<Rightarrow> string \<Rightarrow> nat \<Rightarrow> CommitInfo list \<Rightarrow> CommitInfo list res" where
  "log_loop G r opts 0 cur_hex skipped results = Inl Nontermination"
| "log_loop G r opts (Suc fuel) cur_hex skipped results =
     (if cur_hex = [] then Inr results
      else ebind (read_commit G r cur_hex) (\<lambda>meta.
           ebind (log_matches G r opts meta) (\<lambda>matches.
             if matches then
               if (case lo_skip opts of Some k \<Rightarrow> skipped < k | None \<Rightarrow> False)
               then log_loop G r opts fuel (cm_parent_oid_hex meta) (Suc skipped) results
               else
                 let results' = results @ [commit_info cur_hex meta] in
                 if (case lo_limit opts of Some k \<Rightarrow> length results' \<ge> k | None \<Rightarrow> False)
                 then Inr results'
                 else log_loop G r opts fuel (cm_parent_oid_hex meta) skipped results'
             else log_loop G r opts fuel (cm_parent_oid_hex meta) skipped results)))"

definition log_fs :: "('r, 'b) libgit2 \<Rightarrow> 'r \<Rightarrow> Fs \<Rightarrow> LogOptions \<Rightarrow> CommitInfo list res" where
  "log_fs G r fs opts =
     (if commit_oid_hex fs = [] then Inr []
      else log_loop G r opts
        (Suc (Suc (case hex_to_oid G (commit_oid_hex fs) of Inr oid \<Rightarrow> git_commit_depth G r oid | Inl _ \<Rightarrow> 0)))
        (commit_oid_hex fs) 0 [])"

section \<open>Squash\<close>

definition squash :: "('r, 'b) libgit2 \<Rightarrow> Fs \<Rightarrow> Fs option \<Rightarrow> string \<Rightarrow> ('r, Fs) vop" where
  "squash G fs parent_fs message =
     sbind (sread (\<lambda>r. require_tree fs)) (\<lambda>tree_hex.
     sbind (sread (\<lambda>r. case parent_fs of
         None \<Rightarrow> Inr []
       | Some p \<Rightarrow> (case commit_hash p of
           None \<Rightarrow> Inl (NotFoundError ''parent snapshot has no commit'')
         | Some ch \<Rightarrow> Inr [ch]))) (\<lambda>parent_oids.
     sbind (write_commit G tree_hex parent_oids (in_signature (inner fs)) message) (\<lambda>new_commit_hex.
       sreturn (make_fs (inner fs) new_commit_hex tree_hex None False None))))"

section \<open>FsWriter\<close>

record FsWriter =
  fw_fs :: Fs
  fw_path :: string
  fw_opts :: WriteOptions
  fw_buffer :: "byte list"
  fw_closed :: bool

definition make_writer :: "Fs \<Rightarrow> string \<Rightarrow> WriteOptions \<Rightarrow> FsWriter" where
  "make_writer fs path opts = \<lparr>fw_fs = fs, fw_path = path, fw_opts = opts, fw_buffer = [], fw_closed = False\<rparr>"

definition writer_write :: "FsWriter \<Rightarrow> byte list \<Rightarrow> FsWriter res" where
  "writer_write w data =
     (if fw_closed w then Inl BatchClosedError else Inr (w\<lparr>fw_buffer := fw_buffer w @ data\<rparr>))"

definition writer_write_text :: "FsWriter \<Rightarrow> string \<Rightarrow> FsWriter res" where
  "writer_write_text w text =
     (if fw_closed w then Inl BatchClosedError
      else Inr (w\<lparr>fw_buffer := fw_buffer w @ to_bytes text\<rparr>))"

text \<open>\<^verbatim>\<open>close\<close> returns the writer too: \<^verbatim>\<open>closed_\<close> is set before the commit, which may throw.\<close>

definition writer_close :: "('r, 'b) libgit2 \<Rightarrow> FsWriter \<Rightarrow> 'r \<Rightarrow> (Fs res \<times> FsWriter) \<times> 'r" where
  "writer_close G w r =
     (if fw_closed w then ((Inl BatchClosedError, w), r)
      else case write_fs G (fw_fs w) (fw_path w) (fw_buffer w) (fw_opts w) r of
        (Inl e, r') \<Rightarrow> ((Inl e, w\<lparr>fw_closed := True\<rparr>), r')
      | (Inr fs', r') \<Rightarrow> ((Inr fs', w\<lparr>fw_closed := True, fw_fs := fs'\<rparr>), r'))"

definition writer_destroy :: "('r, 'b) libgit2 \<Rightarrow> FsWriter \<Rightarrow> 'r \<Rightarrow> 'r" where
  "writer_destroy G w r = (if fw_closed w then r else snd (writer_close G w r))"

end
