(* ===== verification/Vost_Demo.thy ===== *)
theory Vost_Demo
  imports Vost_History
begin

text \<open>
  A concrete repository in memory with two commits on \<^verbatim>\<open>main\<close>, on which the witnesses run the
  operations: \<open>demo_mem\<close> holds the first commit (\<^verbatim>\<open>a/b\<close> with the text \<^verbatim>\<open>x\<close>), \<open>demo_mem2\<close> the
  second one (\<^verbatim>\<open>a/b\<close> rewritten to \<^verbatim>\<open>hi\<close>), and \<open>demo_commit\<close> evaluates the step between them
  piece by piece.
\<close>

definition demo_inner :: Inner where
  "demo_inner = \<lparr>in_path = ''/repo'', in_signature = default_signature\<rparr>"

definition no_write_options :: WriteOptions where
  "no_write_options = \<lparr>wo_message = None, wo_mode = None, wo_parents = []\<rparr>"

definition demo_author :: git_signature where
  "demo_author = \<lparr>gs_name = ''vost'', gs_email = ''vost@localhost'', gs_when = 7\<rparr>"

definition demo_objs :: "mem_obj list" where
  "demo_objs =
     [MBlob [120],
      MTree [\<lparr>te_name = ''b'', te_oid = mem_oid 0, te_mode = MODE_BLOB\<rparr>],
      MTree [\<lparr>te_name = ''a'', te_oid = mem_oid 1, te_mode = MODE_TREE\<rparr>],
      MCommit \<lparr>gc_message = Some ''write: a/b'', gc_author = Some demo_author, gc_time = 7,
        gc_tree = mem_oid 2, gc_parents = []\<rparr>]"

definition demo_objs_tree :: "mem_obj list" where
  "demo_objs_tree = demo_objs @
     [MBlob [104, 105],
      MTree [\<lparr>te_name = ''b'', te_oid = mem_oid 4, te_mode = MODE_BLOB\<rparr>],
      MTree [\<lparr>te_name = ''a'', te_oid = mem_oid 5, te_mode = MODE_TREE\<rparr>]]"

definition demo_objs2 :: "mem_obj list" where
  "demo_objs2 = demo_objs_tree @
     [MCommit \<lparr>gc_message = Some ''write: a/b'', gc_author = Some demo_author, gc_time = 7,
        gc_tree = mem_oid 6, gc_parents = [mem_oid 3]\<rparr>]"

definition demo_log :: "git_reflog_entry list" where
  "demo_log = [\<lparr>rl_old = mem_null, rl_new = mem_oid 3, rl_committer = None, rl_message = Some ''write: a/b''\<rparr>]"

definition demo_log2 :: "git_reflog_entry list" where
  "demo_log2 = \<lparr>rl_old = mem_oid 3, rl_new = mem_oid 7, rl_committer = None, rl_message = Some ''write: a/b''\<rparr> # demo_log"

definition demo_mem :: mem where
  "demo_mem = \<lparr>m_objs = demo_objs, m_refs = [(''refs/heads/main'', Inl (mem_oid 3))],
     m_logs = [(''refs/heads/main'', demo_log)], m_head = ''refs/heads/main''\<rparr>"

definition demo_mem2 :: mem where
  "demo_mem2 = \<lparr>m_objs = demo_objs2, m_refs = [(''refs/heads/main'', Inl (mem_oid 7))],
     m_logs = [(''refs/heads/main'', demo_log2)], m_head = ''refs/heads/main''\<rparr>"

definition demo_fs :: Fs where
  "demo_fs = make_fs demo_inner ''01010101'' ''010101'' (Some ''main'') True None"

definition demo_fs2 :: Fs where
  "demo_fs2 = make_fs demo_inner ''0101010101010101'' ''01010101010101'' (Some ''main'') True None"

text \<open>A commit that succeeds, from its pieces.\<close>

lemma commit_changes_runs:
  assumes "require_writable fs ''write'' = Inr ref" "lock_free G r"
    "check_tip G ref (''refs/heads/'' @ ref) (commit_oid_hex fs) r = Inr ()"
    "rebuild_tree G (if tree_oid_hex fs = [] then zero_hex else tree_oid_hex fs) writes removes r = (Inr th, r1)"
    "write_commit G th ((if commit_oid_hex fs = [] then [] else [commit_oid_hex fs]) @ extra)
       (in_signature (inner fs)) msg r1 = (Inr ch, r2)"
    "swap_ref G (''refs/heads/'' @ ref) (commit_oid_hex fs) ch msg r2 = (Inr (), r3)"
  shows "commit_changes G fs writes removes msg report extra r =
    (Inr (make_fs (inner fs) ch th (ref_name fs) True report), r3)"
  using assms by (simp add: commit_changes_def with_repo_lock_free commit_body_def Let_def)

lemma mem_lock_free: "lock_free mem_git r"
  by (simp add: lock_free_def mem_git_def)

lemma demo_rebuild:
  "rebuild_tree mem_git ''010101'' [(''a/b'', to_bytes ''hi'', MODE_BLOB)] [] demo_mem =
     (Inr ''01010101010101'', demo_mem\<lparr>m_objs := demo_objs_tree\<rparr>)"
  by code_simp

lemma demo_write_commit:
  "write_commit mem_git ''01010101010101'' [''01010101''] default_signature ''write: a/b''
     (demo_mem\<lparr>m_objs := demo_objs_tree\<rparr>) = (Inr ''0101010101010101'', demo_mem\<lparr>m_objs := demo_objs2\<rparr>)"
  by code_simp

lemma demo_swap_ref:
  "swap_ref mem_git ''refs/heads/main'' ''01010101'' ''0101010101010101'' ''write: a/b''
     (demo_mem\<lparr>m_objs := demo_objs2\<rparr>) = (Inr (), demo_mem2)"
  by code_simp

lemma demo_check_tip: "check_tip mem_git ''main'' ''refs/heads/main'' ''01010101'' demo_mem = Inr ()"
  by code_simp

lemma demo_commit:
  "commit_changes mem_git demo_fs [(''a/b'', to_bytes ''hi'', MODE_BLOB)] [] ''write: a/b'' None [] demo_mem =
     (Inr demo_fs2, demo_mem2)"
proof -
  have "commit_changes mem_git demo_fs [(''a/b'', to_bytes ''hi'', MODE_BLOB)] [] ''write: a/b'' None [] demo_mem =
    (Inr (make_fs (inner demo_fs) ''0101010101010101'' ''01010101010101'' (ref_name demo_fs) True None), demo_mem2)"
    by (rule commit_changes_runs [of _ "''main''", OF _ mem_lock_free])
      (use demo_rebuild demo_write_commit demo_swap_ref demo_check_tip in
        \<open>simp_all add: demo_fs_def demo_inner_def make_fs_def require_writable_def\<close>)
  then show ?thesis by (simp add: demo_fs_def demo_fs2_def make_fs_def)
qed

lemma demo_write_text:
  "write_text mem_git demo_fs ''//a/b'' ''hi'' no_write_options demo_mem = (Inr demo_fs2, demo_mem2)"
proof -
  have "normalize ''//a/b'' = Inr ''a/b''" by code_simp
  then show ?thesis
    using demo_commit
    by (simp add: write_text_def write_fs_def no_write_options_def Let_def format_message_def)
qed

lemma demo_node: "node_at mem_git demo_mem ''010101'' [''a'', ''b''] = Inr (Some (File [120] MODE_BLOB))"
  by code_simp

end
