(* ===== verification/Vost_Commit.thy ===== *)
theory Vost_Commit
  imports Vost_Demo
begin

text \<open>
  Correctness of \<^verbatim>\<open>Fs::commit_changes\<close> and of the writes built on it: a commit is atomic (it
  moves exactly one branch or no reference at all), it never overwrites a commit of somebody
  else, the new snapshot holds the changes and nothing else, and every older snapshot can
  still be read.
\<close>

section \<open>Branch tips\<close>

definition branch_ref :: "string \<Rightarrow> string" where
  "branch_ref ref = ''refs/heads/'' @ ref"

definition branch_tip :: "('r, 'b) libgit2 \<Rightarrow> 'r \<Rightarrow> string \<Rightarrow> git_oid option" where
  "branch_tip G r ref =
     (case git_reference_lookup G r (branch_ref ref) of
        None \<Rightarrow> None | Some g \<Rightarrow> git_reference_peel G r g)"

lemma check_tip_iff:
  "check_tip G ref (''refs/heads/'' @ ref) h r = Inr () \<longleftrightarrow>
     (case branch_tip G r ref of None \<Rightarrow> True | Some oid \<Rightarrow> git_oid_tostr G oid = h)"
  by (auto simp: check_tip_def branch_tip_def branch_ref_def split: option.splits)

lemma check_tip_stale:
  "check_tip G ref (''refs/heads/'' @ ref) h r = Inl e \<Longrightarrow> \<exists>m. e = StaleSnapshotError m"
  by (auto simp: check_tip_def split: option.splits if_splits)

text \<open>
  A snapshot is valid when it is empty or when its ids are those of a commit of the repository
  and of that commit's tree.
\<close>

definition fs_valid :: "('r, 'b) libgit2 \<Rightarrow> 'r \<Rightarrow> Fs \<Rightarrow> bool" where
  "fs_valid G r fs \<longleftrightarrow>
     commit_oid_hex fs = [] \<and> tree_oid_hex fs = [] \<or>
     (\<exists>coid c. commit_oid_hex fs = git_oid_tostr G coid \<and> git_commit_lookup G r coid = Some c \<and>
        tree_oid_hex fs = git_oid_tostr G (gc_tree c))"

lemma fs_valid_extends: "git_extends G r r' \<Longrightarrow> fs_valid G r fs \<Longrightarrow> fs_valid G r' fs"
  unfolding fs_valid_def by (blast dest: git_extends_commit)

text \<open>The nodes of a snapshot.\<close>

definition fs_node :: "('r, 'b) libgit2 \<Rightarrow> 'r \<Rightarrow> Fs \<Rightarrow> string list \<Rightarrow> node option res" where
  "fs_node G r fs p =
     (if tree_oid_hex fs = [] then Inr None else node_at G r (tree_oid_hex fs) p)"

lemma call_effect_Inr [outcome_iff]: "call_effect G c f r = (Inr u, r') \<longleftrightarrow> f r = Some r'"
  by (auto simp: call_effect_def call_write_def throw_git_error_def split: option.splits)

lemma call_effect_Inl: "call_effect G c f r = (Inl e, r') \<Longrightarrow> r' = r \<and> git_failure e"
  by (auto simp: call_effect_def call_write_def throw_git_error_def split: option.splits)

lemma swap_ref_Inl: "swap_ref G refname h new msg r = (Inl e, r') \<Longrightarrow> r' = r"
  by (auto simp: swap_ref_def sbind_Inl_iff dest: call_effect_Inl split: if_splits)

section \<open>The commit\<close>

context git_odb
begin

lemma tostr_inject [simp]: "git_oid_tostr G a = git_oid_tostr G b \<longleftrightarrow> a = b"
  by (metis oid_roundtrip option.inject)

lemma write_commit_Inr:
  assumes "write_commit G tree_hex parents sig msg r = (Inr h, r')"
  shows "git_adds G r r' \<and> (\<exists>oid c toid t. h = git_oid_tostr G oid \<and> git_commit_lookup G r' oid = Some c \<and>
    git_oid_fromstr G tree_hex = Some toid \<and> gc_tree c = toid \<and> git_tree_lookup G r toid = Some t \<and>
    list_all2 (\<lambda>p q. git_oid_fromstr G p = Some q \<and> git_commit_lookup G r q \<noteq> None)
      (filter (\<lambda>h. h \<noteq> []) parents) (gc_parents c) \<and>
    gc_message c = Some (dropWhile (\<lambda>ch. ch = CHR 0x0A) msg) \<and>
    (\<exists>sg. gc_author c = Some sg \<and> gs_name sg = sig_name sig \<and> gs_email sg = sig_email sig))"
proof -
  from assms obtain toid t sg ps oid where
      *: "git_oid_fromstr G tree_hex = Some toid" "git_tree_lookup G r toid = Some t"
        "git_signature_now G r (sig_name sig) (sig_email sig) = Some sg"
        "commit_parents G parents r = Inr ps"
        "git_commit_create G r sg msg toid ps = Some (oid, r')" "h = git_oid_tostr G oid"
    by (auto simp: write_commit_def outcome_iff oid_to_hex_def)
  have "list_all2 (\<lambda>p q. git_oid_fromstr G p = Some q \<and> git_commit_lookup G r q \<noteq> None)
      (filter (\<lambda>h. h \<noteq> []) parents) ps"
    using *(4) by (auto simp: commit_parents_def emap_Inr_iff outcome_iff elim!: list.rel_mono_strong)
  with * commit_create [OF *(5)] signature_now [OF *(3)] show ?thesis by auto
qed

end

context git_refdb
begin

lemma swap_ref_Inr:
  assumes "swap_ref G refname h (git_oid_tostr G oid) msg r = (Inr u, r')"
  shows "git_reference_lookup G r' refname = Some \<lparr>gref_name = refname, gref_target = Inl oid\<rparr> \<and>
    git_moves G refname r r'"
proof (cases "\<exists>existing. git_reference_lookup G r refname = Some existing \<and> h \<noteq> []")
  case True
  then obtain existing where e: "git_reference_lookup G r refname = Some existing" "h \<noteq> []" by blast
  with assms have "git_reference_set_target G r existing oid msg = Some r'"
    by (auto simp: swap_ref_def outcome_iff parse_oid_def oid_roundtrip split: option.splits)
  from reference_set_target [OF this] reference_name [OF e(1)] show ?thesis by simp
next
  case False
  with assms have "git_reference_create G r refname oid False msg = Some r'"
    by (auto simp: swap_ref_def outcome_iff parse_oid_def oid_roundtrip split: option.splits if_splits)
  then show ?thesis by (rule reference_create)
qed

lemma commit_body_Inr:
  assumes "commit_body G fs ref writes removes msg extra r = (Inr (ch, th), r')"
  shows "\<exists>r1 r2 oid. check_tip G ref (''refs/heads/'' @ ref) (commit_oid_hex fs) r = Inr () \<and>
    rebuild_tree G (if tree_oid_hex fs = [] then zero_hex else tree_oid_hex fs) writes removes r = (Inr th, r1) \<and>
    git_adds G r r1 \<and>
    write_commit G th ((if commit_oid_hex fs = [] then [] else [commit_oid_hex fs]) @ extra)
      (in_signature (inner fs)) msg r1 = (Inr ch, r2) \<and>
    git_adds G r1 r2 \<and> ch = git_oid_tostr G oid \<and>
    git_reference_lookup G r' (branch_ref ref) = Some \<lparr>gref_name = branch_ref ref, gref_target = Inl oid\<rparr> \<and>
    git_moves G (branch_ref ref) r2 r'"
proof -
  from assms obtain r1 r2 where
      a: "check_tip G ref (''refs/heads/'' @ ref) (commit_oid_hex fs) r = Inr ()"
      and b: "rebuild_tree G (if tree_oid_hex fs = [] then zero_hex else tree_oid_hex fs) writes removes r = (Inr th, r1)"
      and c: "write_commit G th ((if commit_oid_hex fs = [] then [] else [commit_oid_hex fs]) @ extra)
        (in_signature (inner fs)) msg r1 = (Inr ch, r2)"
      and d: "swap_ref G (''refs/heads/'' @ ref) (commit_oid_hex fs) ch msg r2 = (Inr (), r')"
    unfolding commit_body_def Let_def outcome_iff sread_apply sreturn_apply by auto
  from write_commit_Inr [OF c] obtain oid where oid: "ch = git_oid_tostr G oid" and a2: "git_adds G r1 r2"
    by blast
  have a1: "git_adds G r r1" using keeps_rebuild_tree b by (rule keepsD)
  from swap_ref_Inr [OF d [unfolded oid]] a b c a1 a2 oid show ?thesis
    unfolding branch_ref_def by blast
qed

lemma commit_body_Inl:
  assumes "commit_body G fs ref writes removes msg extra r = (Inl e, r')"
  shows "git_adds G r r'"
proof -
  note R = keepsD [OF keeps_rebuild_tree] and W = keepsD [OF keeps_write_commit]
  from assms show ?thesis
    unfolding commit_body_def Let_def sbind_Inl_iff sread_apply sreturn_apply
    by (auto dest!: R W swap_ref_Inl intro: git_adds_trans)
qed

end

text \<open>The effect of a successful commit, in one place.\<close>

definition committed :: "('r, 'b) libgit2 \<Rightarrow> Fs \<Rightarrow> tree_write list \<Rightarrow> string list \<Rightarrow> string \<Rightarrow> string list \<Rightarrow>
    'r \<Rightarrow> Fs \<Rightarrow> 'r \<Rightarrow> bool" where
  "committed G fs writes removes msg extra r fs' r' \<longleftrightarrow>
     (\<exists>ref coid c r1.
        writable fs \<and> ref_name fs = Some ref \<and>
        (branch_tip G r ref = None \<or> map_option (git_oid_tostr G) (branch_tip G r ref) = Some (commit_oid_hex fs)) \<and>
        rebuild_tree G (if tree_oid_hex fs = [] then zero_hex else tree_oid_hex fs) writes removes r
          = (Inr (tree_oid_hex fs'), r1) \<and> git_extends G r1 r' \<and>
        inner fs' = inner fs \<and> ref_name fs' = Some ref \<and> writable fs' \<and>
        commit_oid_hex fs' = git_oid_tostr G coid \<and> branch_tip G r' ref = Some coid \<and>
        git_commit_lookup G r' coid = Some c \<and> git_oid_tostr G (gc_tree c) = tree_oid_hex fs' \<and>
        list_all2 (\<lambda>p q. git_oid_fromstr G p = Some q)
          (filter (\<lambda>h. h \<noteq> []) (commit_oid_hex fs # extra)) (gc_parents c) \<and>
        gc_message c = Some (dropWhile (\<lambda>ch. ch = CHR 0x0A) msg) \<and>
        git_extends G r r' \<and>
        (\<forall>n. n \<noteq> branch_ref ref \<longrightarrow> git_reference_lookup G r' n = git_reference_lookup G r n))"

context git_refdb
begin

lemma rebuild_tree_tostr:
  assumes "rebuild_tree G base writes removes r = (Inr new, r')"
  shows "\<exists>oid t. new = git_oid_tostr G oid \<and> git_tree_lookup G r' oid = Some t"
proof -
  from assms obtain ps r1 fuel where
      "rebuild G ps (map split_slash removes) (Suc fuel) base [] r1 = (Inr new, r')"
    unfolding rebuild_tree_def outcome_iff Let_def by blast
  from rebuild_level [OF this] show ?thesis by blast
qed

lemma branch_tip_moved:
  assumes "git_reference_lookup G r (branch_ref ref) = Some \<lparr>gref_name = branch_ref ref, gref_target = Inl oid\<rparr>"
    "git_commit_lookup G r oid \<noteq> None"
  shows "branch_tip G r ref = Some oid"
  using assms reference_peel [OF assms(2)] by (simp add: branch_tip_def)

lemma commit_changes_Inr:
  assumes "commit_changes G fs writes removes msg report extra r = (Inr fs', r')"
  shows "committed G fs writes removes msg extra r fs' r'"
proof -
  from assms obtain ref ch th where
      ref: "require_writable fs ''write'' = Inr ref"
      and body: "commit_body G fs ref writes removes msg extra r = (Inr (ch, th), r')"
      and fs': "fs' = make_fs (inner fs) ch th (ref_name fs) True report"
    by (auto simp: commit_changes_def outcome_iff dest!: with_repo_lock_Inr)
  from commit_body_Inr [OF body] obtain r1 r2 oid where
      tip: "check_tip G ref (''refs/heads/'' @ ref) (commit_oid_hex fs) r = Inr ()"
      and rb: "rebuild_tree G (if tree_oid_hex fs = [] then zero_hex else tree_oid_hex fs) writes removes r = (Inr th, r1)"
      and wc: "write_commit G th ((if commit_oid_hex fs = [] then [] else [commit_oid_hex fs]) @ extra)
        (in_signature (inner fs)) msg r1 = (Inr ch, r2)"
      and adds: "git_adds G r r1" "git_adds G r1 r2"
      and ch: "ch = git_oid_tostr G oid"
      and look: "git_reference_lookup G r' (branch_ref ref) = Some \<lparr>gref_name = branch_ref ref, gref_target = Inl oid\<rparr>"
      and mv: "git_moves G (branch_ref ref) r2 r'" by blast
  from rebuild_tree_tostr [OF rb] obtain toid where th: "th = git_oid_tostr G toid" by blast
  from write_commit_Inr [OF wc] obtain oid' c where o': "ch = git_oid_tostr G oid'"
      and c: "git_commit_lookup G r2 oid' = Some c" "git_oid_fromstr G th = Some (gc_tree c)"
        "gc_message c = Some (dropWhile (\<lambda>ch. ch = CHR 0x0A) msg)"
      and ps: "list_all2 (\<lambda>p q. git_oid_fromstr G p = Some q \<and> git_commit_lookup G r1 q \<noteq> None)
        (filter (\<lambda>h. h \<noteq> []) ((if commit_oid_hex fs = [] then [] else [commit_oid_hex fs]) @ extra)) (gc_parents c)"
    by blast
  have [simp]: "oid' = oid" using o' ch by simp
  have pars: "list_all2 (\<lambda>p q. git_oid_fromstr G p = Some q)
      (filter (\<lambda>h. h \<noteq> []) (commit_oid_hex fs # extra)) (gc_parents c)"
    using ps by (auto elim!: list.rel_mono_strong simp: list.rel_eq split: if_splits)
  have ext: "git_extends G r1 r'" "git_extends G r r'"
    using adds mv by (meson git_adds_extends git_moves_extends git_extends_trans)+
  have c': "git_commit_lookup G r' oid = Some c"
    using git_extends_commit [OF git_moves_extends [OF mv] c(1)] by simp
  have tree: "git_oid_tostr G (gc_tree c) = th" using c(2) th oid_roundtrip by simp
  have refs: "git_reference_lookup G r' n = git_reference_lookup G r n" if "n \<noteq> branch_ref ref" for n
    using that mv git_adds_reference [OF adds(1)] git_adds_reference [OF adds(2)]
    by (simp add: git_moves_def)
  have "branch_tip G r' ref = Some oid" using branch_tip_moved [OF look] c' by simp
  moreover have "writable fs" "ref_name fs = Some ref"
    using ref by (auto simp: require_writable_def split: option.splits if_splits)
  moreover have "branch_tip G r ref = None \<or>
      map_option (git_oid_tostr G) (branch_tip G r ref) = Some (commit_oid_hex fs)"
    using tip unfolding check_tip_iff by (cases "branch_tip G r ref") auto
  ultimately show ?thesis
    unfolding committed_def fs' make_fs_def using rb ext c c' ch refs pars tree
    by (intro exI [of _ ref] exI [of _ oid] exI [of _ c] exI [of _ r1]) simp
qed

lemma commit_changes_Inl:
  assumes "commit_changes G fs writes removes msg report extra r = (Inl e, r')"
  shows "git_adds G r r'"
proof (cases "require_writable fs ''write''")
  case (Inl e')
  with assms show ?thesis by (simp add: commit_changes_def)
next
  case (Inr ref)
  let ?body = "commit_body G fs ref writes removes msg extra"
  have l: "with_repo_lock G (in_path (inner fs)) ?body r = (Inl e, r')"
    using assms Inr by (auto simp: commit_changes_def sbind_Inl_iff)
  have "?body r = (Inl e, r') \<or> r' = r"
    using with_repo_lock_cases [of G "in_path (inner fs)" ?body r] l by auto
  then show ?thesis using commit_body_Inl by auto
qed

lemma keeps_commit_changes: "keeps (git_extends G) (commit_changes G fs writes removes msg report extra)"
proof
  fix r
  obtain res r' where eq: "commit_changes G fs writes removes msg report extra r = (res, r')" by fastforce
  then show "git_extends G r (snd (commit_changes G fs writes removes msg report extra r))"
    using commit_changes_Inr [of fs writes removes msg report extra r _ r']
      git_adds_extends [OF commit_changes_Inl [of fs writes removes msg report extra r _ r']]
    by (cases res) (auto simp: committed_def)
qed

lemma fs_valid_committed:
  assumes "committed G fs writes removes msg extra r fs' r'"
  shows "fs_valid G r' fs'"
  using assms unfolding committed_def fs_valid_def by metis

lemma commit_changes_stale:
  assumes "writable fs" "ref_name fs = Some ref" "branch_tip G r ref = Some tip"
    "git_oid_tostr G tip \<noteq> commit_oid_hex fs"
  shows "\<exists>e. commit_changes G fs writes removes msg report extra r = (Inl e, r) \<and>
    (lock_free G r \<longrightarrow> (\<exists>m. e = StaleSnapshotError m))"
proof -
  have w: "require_writable fs ''write'' = Inr ref" using assms by (simp add: require_writable_def)
  have "check_tip G ref (''refs/heads/'' @ ref) (commit_oid_hex fs) r \<noteq> Inr ()"
    unfolding check_tip_iff using assms by simp
  then obtain e where e: "check_tip G ref (''refs/heads/'' @ ref) (commit_oid_hex fs) r = Inl e"
    by (cases "check_tip G ref (''refs/heads/'' @ ref) (commit_oid_hex fs) r") auto
  then have b: "commit_body G fs ref writes removes msg extra r = (Inl e, r)"
    by (simp add: commit_body_def Let_def)
  from with_repo_lock_cases [of G "in_path (inner fs)" "commit_body G fs ref writes removes msg extra" r] b w
    check_tip_stale [OF e] with_repo_lock_free [of G r "in_path (inner fs)" "commit_body G fs ref writes removes msg extra"]
  show ?thesis by (auto simp: commit_changes_def)
qed

end

section \<open>Reading what was written\<close>

text \<open>Reads depend only on the objects: they return the same in every later world.\<close>

context git_odb
begin

lemma fs_node_extends:
  "git_extends G r r' \<Longrightarrow> fs_node G r fs p = Inr x \<Longrightarrow> p \<noteq> [] \<Longrightarrow> fs_node G r' fs p = Inr x"
  by (auto simp: fs_node_def node_at_extends split: if_splits)

text \<open>\<^verbatim>\<open>Fs::read\<close> in terms of the nodes of the snapshot.\<close>

lemma read_node:
  assumes "normalize path = Inr norm" "norm \<noteq> []" "tree_oid_hex fs \<noteq> []" "tree_oid_hex fs \<noteq> zero_hex"
  shows "read G r fs path =
    ebind (fs_node G r fs (split_slash norm)) (\<lambda>nd. case nd of
      None \<Rightarrow> Inl (NotFoundError norm)
    | Some Dir \<Rightarrow> Inl (IsADirectoryError norm)
    | Some (File d m) \<Rightarrow> Inr d)"
  using assms by (simp add: read_def require_tree_def fs_node_def read_blob_node)

end

lemma normalize_segs:
  assumes "normalize path = Inr norm" "norm \<noteq> []"
  shows "split_slash norm \<noteq> [] \<and> (\<forall>s\<in>set (split_slash norm). segment s) \<and> join_slash (split_slash norm) = norm"
proof -
  have j: "join_slash (split_slash norm) = norm"
    using normalize_Inr_split(3) [OF assms(1)] unfolding normal_path_def by blast
  have "split_slash norm \<noteq> []" using j assms(2) by (metis join_slash.simps(1))
  moreover have "\<forall>s\<in>set (split_slash norm). segment s" using split_slash_segments by blast
  ultimately show ?thesis using j by blast
qed

context git_refdb
begin

lemma committed_tree:
  assumes "committed G fs writes removes msg extra r fs' r'"
  shows "tree_oid_hex fs' \<noteq> [] \<and> tree_oid_hex fs' \<noteq> zero_hex \<and> git_extends G r r'"
proof -
  obtain base r1 where
      rb: "rebuild_tree G base writes removes r = (Inr (tree_oid_hex fs'), r1)" and e: "git_extends G r r'"
    using assms unfolding committed_def by (elim exE conjE) (rule that)
  from rebuild_tree_tostr [OF rb] obtain oid t where
      t: "tree_oid_hex fs' = git_oid_tostr G oid" "git_tree_lookup G r1 oid = Some t" by blast
  from tree_not_null [OF t(2)] t(1) e show ?thesis by simp
qed

lemma committed_node:
  assumes "committed G fs writes removes msg extra r fs' r'" "settled writes removes" "p \<noteq> []"
    "fs_node G r fs p = Inr (old p)"
  shows "fs_node G r' fs' p = Inr (apply_changes writes removes old p)"
proof -
  from assms(1) obtain r1 where
      rb: "rebuild_tree G (if tree_oid_hex fs = [] then zero_hex else tree_oid_hex fs) writes removes r
        = (Inr (tree_oid_hex fs'), r1)" and e: "git_extends G r1 r'"
    unfolding committed_def by blast
  have "node_at G r (if tree_oid_hex fs = [] then zero_hex else tree_oid_hex fs) p = Inr (old p)"
    using assms(4) by (simp add: fs_node_def node_at_def view_def split: if_splits)
  from trees.store_node [where old = old, OF rb assms(3) this assms(2)]
  have "node_at G r1 (tree_oid_hex fs') p = Inr (apply_changes writes removes old p)" .
  from node_at_extends [OF e this assms(3)] committed_tree [OF assms(1)] show ?thesis
    by (simp add: fs_node_def)
qed

end

lemma demo_fs_valid: "fs_valid mem_git demo_mem demo_fs"
proof -
  have "git_commit_lookup mem_git demo_mem (mem_oid 3) = Some \<lparr>gc_message = Some ''write: a/b'',
      gc_author = Some demo_author, gc_time = 7, gc_tree = mem_oid 2, gc_parents = []\<rparr>"
    "commit_oid_hex demo_fs = git_oid_tostr mem_git (mem_oid 3)"
    "tree_oid_hex demo_fs = git_oid_tostr mem_git (mem_oid 2)" by code_simp+
  then show ?thesis unfolding fs_valid_def by auto
qed

section \<open>Properties\<close>

text \<open>C2: a commit is atomic and never overwrites somebody else's commit. When it returns,
  the branch had not moved since the snapshot was taken (or did not resolve to a commit), the
  branch now points to a new commit whose tree is the rebuilt tree and whose first parent is the
  snapshot's commit, every other reference is untouched and every old object is still there.
  When it throws, no reference has moved at all.\<close>

theorem commit_changes_atomic:
  assumes "git_refdb G" "commit_changes G fs writes removes msg report extra r = (res, r')"
  shows "(\<exists>fs'. res = Inr fs' \<and> committed G fs writes removes msg extra r fs' r') \<or>
    (\<exists>e. res = Inl e \<and> git_adds G r r')"
  using assms git_refdb.commit_changes_Inr [OF assms(1)] git_refdb.commit_changes_Inl [OF assms(1)]
  by (cases res) auto

theorem commit_changes_atomic_witness:
  "committed mem_git demo_fs [(''a/b'', to_bytes ''hi'', MODE_BLOB)] [] ''write: a/b'' [] demo_mem demo_fs2 demo_mem2"
  using commit_changes_atomic [OF memory.git_refdb_axioms demo_commit] by simp

text \<open>C6: a write on a snapshot whose branch has moved on is refused without any effect: the
  result is an error, \<^verbatim>\<open>StaleSnapshotError\<close> whenever the repository lock could be taken, and the
  repository is unchanged.\<close>

theorem commit_changes_refuses_stale:
  assumes "git_refdb G" "writable fs" "ref_name fs = Some ref" "branch_tip G r ref = Some tip"
    "git_oid_tostr G tip \<noteq> commit_oid_hex fs"
  shows "\<exists>e. commit_changes G fs writes removes msg report extra r = (Inl e, r) \<and>
    (lock_free G r \<longrightarrow> (\<exists>m. e = StaleSnapshotError m))"
  using git_refdb.commit_changes_stale [OF assms] .

theorem commit_changes_refuses_stale_witness:
  "\<exists>e. commit_changes mem_git demo_fs [] [''a''] [] None [] demo_mem2 = (Inl e, demo_mem2) \<and>
    (lock_free mem_git demo_mem2 \<longrightarrow> (\<exists>m. e = StaleSnapshotError m))"
proof -
  have tip: "branch_tip mem_git demo_mem2 ''main'' = Some (mem_oid 7)" by code_simp
  have "git_oid_tostr mem_git (mem_oid 7) \<noteq> commit_oid_hex demo_fs" by code_simp
  moreover have "writable demo_fs" "ref_name demo_fs = Some ''main''" by (simp_all add: demo_fs_def make_fs_def)
  ultimately show ?thesis
    using commit_changes_refuses_stale [OF memory.git_refdb_axioms _ _ tip] by blast
qed

text \<open>C5: what a commit leaves readable. In the new snapshot, and in any later state of the
  repository, every path holds what the abstract update of the old snapshot says.\<close>

theorem commit_changes_nodes:
  assumes "git_refdb G" "commit_changes G fs writes removes msg report extra r = (Inr fs', r')"
    "settled writes removes" "p \<noteq> []" "fs_node G r fs p = Inr (old p)" "git_extends G r' r''"
  shows "fs_node G r'' fs' p = Inr (apply_changes writes removes old p)"
proof -
  have "fs_node G r' fs' p = Inr (apply_changes writes removes old p)"
    using git_refdb.committed_node [where old = old, OF assms(1) git_refdb.commit_changes_Inr [OF assms(1,2)] assms(3,4,5)] .
  with assms show ?thesis by (blast intro: git_odb.fs_node_extends git_refdb.axioms(1))
qed

theorem commit_changes_nodes_witness:
  "fs_node mem_git demo_mem2 demo_fs2 [''a'', ''b''] =
     Inr (apply_changes [(''a/b'', to_bytes ''hi'', MODE_BLOB)] [] (\<lambda>_. Some (File [120] MODE_BLOB)) [''a'', ''b''])"
proof -
  have "settled [(''a/b'', to_bytes ''hi'', MODE_BLOB)] []" by (simp add: settled_def)
  moreover have "fs_node mem_git demo_mem demo_fs [''a'', ''b''] = Inr (Some (File [120] MODE_BLOB))"
    using demo_node by (simp add: fs_node_def demo_fs_def make_fs_def)
  ultimately show ?thesis
    using commit_changes_nodes [OF memory.git_refdb_axioms demo_commit, of "[''a'', ''b'']"
        "\<lambda>_. Some (File [120] MODE_BLOB)" demo_mem2] by simp
qed

text \<open>C7: a text that was written is read back. After \<^verbatim>\<open>write_text(path, text)\<close> the new snapshot
  returns exactly that text for the path, now and in every later state of the repository.\<close>

theorem write_text_read_text:
  assumes "git_refdb G" "write_text G fs path text opts r = (Inr fs', r')"
    "normalize path = Inr norm" "norm \<noteq> []" "fs_node G r fs (split_slash norm) = Inr x"
    "wo_mode opts \<noteq> Some MODE_TREE" "git_extends G r' r''"
  shows "read_text G r'' fs' path = Inr text"
proof -
  note odb = git_refdb.axioms(1) [OF assms(1)]
  note segs = normalize_segs [OF assms(3,4)]
  let ?m = "case wo_mode opts of Some m \<Rightarrow> m | None \<Rightarrow> MODE_BLOB"
  from assms(2,3) obtain msg where
      c: "commit_changes G fs [(norm, to_bytes text, ?m)] [] msg None (wo_parents opts) r = (Inr fs', r')"
    by (auto simp: write_text_def write_fs_def outcome_iff Let_def)
  note C = git_refdb.commit_changes_Inr [OF assms(1) c]
  have "settled [(norm, to_bytes text, ?m)] []"
    using assms(6) by (auto simp: settled_def split: option.splits)
  from git_refdb.committed_node [OF assms(1) C this, of "split_slash norm" "\<lambda>_. x"] segs assms(5)
  have "fs_node G r' fs' (split_slash norm) = Inr (Some (File (to_bytes text) ?m))"
    by (simp add: apply_changes_write)
  from git_odb.fs_node_extends [OF odb assms(7) this] segs
  have "fs_node G r'' fs' (split_slash norm) = Inr (Some (File (to_bytes text) ?m))" by simp
  with git_odb.read_node [OF odb assms(3,4)] git_refdb.committed_tree [OF assms(1) C]
  show ?thesis by (simp add: read_text_def)
qed

theorem write_text_read_text_witness: "read_text mem_git demo_mem2 demo_fs2 ''//a/b'' = Inr ''hi''"
proof -
  have n: "normalize ''//a/b'' = Inr ''a/b''" by code_simp
  have "split_slash ''a/b'' = [''a'', ''b'']" by code_simp
  then have "fs_node mem_git demo_mem demo_fs (split_slash ''a/b'') = Inr (Some (File [120] MODE_BLOB))"
    using demo_node by (simp add: fs_node_def demo_fs_def make_fs_def)
  from write_text_read_text [OF memory.git_refdb_axioms demo_write_text n _ this, of demo_mem2] show ?thesis
    by (simp add: no_write_options_def)
qed

end
