(* ===== verification/Vost_Timeline.thy ===== *)
theory Vost_Timeline
  imports Vost_Commit
begin

text \<open>
  Correctness of the history operations: every operation returns a valid snapshot, \<^verbatim>\<open>undo\<close> goes
  where \<^verbatim>\<open>back\<close> goes and moves only the branch, \<^verbatim>\<open>redo\<close> takes back an \<^verbatim>\<open>undo\<close>, and \<^verbatim>\<open>log\<close> always
  ends and lists the first-parent history through its filters.
\<close>

section \<open>Commits and their parents\<close>

context git_odb
begin

lemma read_commit_tostr:
  "read_commit G r h = Inr meta \<Longrightarrow> \<exists>oid c. git_oid_fromstr G h = Some oid \<and>
     git_commit_lookup G r oid = Some c \<and> cm_tree_oid_hex meta = git_oid_tostr G (gc_tree c) \<and>
     cm_parent_oid_hex meta = (case gc_parents c of [] \<Rightarrow> [] | p # ps \<Rightarrow> git_oid_tostr G p)"
  by (auto simp: read_commit_def outcome_iff oid_to_hex_def cong: list.case_cong)

lemma parent_tostr:
  assumes "read_commit G r h = Inr meta" "cm_parent_oid_hex meta \<noteq> []"
  shows "\<exists>p. cm_parent_oid_hex meta = git_oid_tostr G p"
proof -
  obtain c :: git_commit where
      "cm_parent_oid_hex meta = (case gc_parents c of [] \<Rightarrow> [] | p # ps \<Rightarrow> git_oid_tostr G p)"
    using read_commit_tostr [OF assms(1)] by (elim exE conjE) (rule that)
  with assms(2) show ?thesis by (cases "gc_parents c") auto
qed

lemma tree_oid_for_commit_Inr:
  "tree_oid_for_commit G r h = Inr t \<longleftrightarrow>
     (\<exists>oid c. git_oid_fromstr G h = Some oid \<and> git_commit_lookup G r oid = Some c \<and> t = git_oid_tostr G (gc_tree c))"
  by (auto simp: tree_oid_for_commit_def outcome_iff oid_to_hex_def)

text \<open>The ids that the history operations follow are printed ids.\<close>

lemma undo_walk_tostr:
  assumes "undo_walk G r n i h = Inr h'" "h \<in> range (git_oid_tostr G)"
  shows "h' \<in> range (git_oid_tostr G)"
  using assms
proof (induction i arbitrary: h)
  case (Suc i)
  then obtain meta where m: "read_commit G r h = Inr meta" "cm_parent_oid_hex meta \<noteq> []"
      "undo_walk G r n i (cm_parent_oid_hex meta) = Inr h'"
    by (auto simp: outcome_iff split: if_splits)
  from parent_tostr [OF m(1,2)] have "cm_parent_oid_hex meta \<in> range (git_oid_tostr G)" by blast
  with Suc.IH m(3) show ?case by blast
qed simp

lemma fs_valid_from_hex:
  assumes "h = git_oid_tostr G oid" "tree_oid_for_commit G r h = Inr t"
  shows "fs_valid G r (make_fs i h t rn w ch)"
  using assms by (auto simp: fs_valid_def make_fs_def tree_oid_for_commit_Inr oid_roundtrip)

lemma parent_valid:
  assumes "parent G r fs = Inr (Some p)"
  shows "fs_valid G r p \<and> ref_name p = ref_name fs \<and> writable p = writable fs"
proof -
  from assms obtain meta poid c where m: "read_commit G r (commit_oid_hex fs) = Inr meta"
      "git_oid_fromstr G (cm_parent_oid_hex meta) = Some poid" "git_commit_lookup G r poid = Some c"
      "cm_parent_oid_hex meta \<noteq> []"
      "p = make_fs (inner fs) (cm_parent_oid_hex meta) (git_oid_tostr G (gc_tree c)) (ref_name fs) (writable fs) None"
    by (auto simp: parent_def outcome_iff split: if_splits option.splits)
  from parent_tostr [OF m(1,4)] m(2) have "cm_parent_oid_hex meta = git_oid_tostr G poid"
    by (auto simp: oid_roundtrip)
  with m(3,5) show ?thesis by (auto simp: fs_valid_def make_fs_def)
qed

lemma back_loop_undo_walk:
  assumes "undo_walk G r n i (commit_oid_hex fs) = Inr h" "tree_oid_for_commit G r h = Inr t"
    "commit_oid_hex fs \<noteq> []" "0 < i"
  shows "\<exists>b. back_loop G r m i fs = Inr b \<and> commit_oid_hex b = h \<and> tree_oid_hex b = t"
  using assms
proof (induction i arbitrary: fs)
  case (Suc i)
  from Suc.prems(1) obtain meta where m: "read_commit G r (commit_oid_hex fs) = Inr meta"
      "cm_parent_oid_hex meta \<noteq> []" "undo_walk G r n i (cm_parent_oid_hex meta) = Inr h"
    by (auto simp: outcome_iff split: if_splits)
  have "\<exists>oid c. git_oid_fromstr G (cm_parent_oid_hex meta) = Some oid \<and> git_commit_lookup G r oid = Some c"
  proof (cases i)
    case 0
    with m(3) Suc.prems(2) show ?thesis by (auto simp: tree_oid_for_commit_Inr)
  next
    case (Suc j)
    with m(3) show ?thesis by (auto simp: outcome_iff dest: read_commit_tostr split: if_splits)
  qed
  then obtain oid c where oc: "git_oid_fromstr G (cm_parent_oid_hex meta) = Some oid"
      "git_commit_lookup G r oid = Some c" by blast
  let ?p = "make_fs (inner fs) (cm_parent_oid_hex meta) (git_oid_tostr G (gc_tree c)) (ref_name fs) (writable fs) None"
  have p: "parent G r fs = Inr (Some ?p)" using Suc.prems(3) m oc by (simp add: parent_def)
  show ?case
  proof (cases "i = 0")
    case True
    with m(3) Suc.prems(2) oc p show ?thesis by (simp add: make_fs_def tree_oid_for_commit_Inr)
  next
    case False
    with Suc.IH [of ?p] m Suc.prems(2) p show ?thesis by (simp add: make_fs_def)
  qed
qed simp

end

section \<open>Moving the branch\<close>

lemma reset_ref_Inl: "reset_ref G ref refname ch th msg ctx r = (Inl e, r') \<Longrightarrow> r' = r"
  by (auto simp: reset_ref_def sbind_Inl_iff dest: call_effect_Inl)

lemma locked_Inl:
  assumes "with_repo_lock G d fn r = (Inl e, r')" "\<And>e r'. fn r = (Inl e, r') \<Longrightarrow> r' = r"
  shows "r' = r"
  using with_repo_lock_cases [of G d fn r] assms(1) assms(2) [of e r'] by auto

text \<open>The branch moved to a commit and nothing else changed.\<close>

definition moved :: "('r, 'b) libgit2 \<Rightarrow> Fs \<Rightarrow> 'r \<Rightarrow> Fs \<Rightarrow> 'r \<Rightarrow> bool" where
  "moved G fs r fs' r' \<longleftrightarrow> (\<exists>ref oid. writable fs \<and> ref_name fs = Some ref \<and>
     (branch_tip G r ref = None \<or> map_option (git_oid_tostr G) (branch_tip G r ref) = Some (commit_oid_hex fs)) \<and>
     inner fs' = inner fs \<and> ref_name fs' = Some ref \<and> writable fs' \<and>
     git_oid_fromstr G (commit_oid_hex fs') = Some oid \<and> tree_oid_for_commit G r (commit_oid_hex fs') = Inr (tree_oid_hex fs') \<and>
     git_reference_lookup G r' (branch_ref ref) = Some \<lparr>gref_name = branch_ref ref, gref_target = Inl oid\<rparr> \<and>
     branch_tip G r' ref = Some oid \<and> git_moves G (branch_ref ref) r r')"

context git_refdb
begin

lemma reset_ref_Inr:
  assumes "reset_ref G ref (''refs/heads/'' @ ref) ch th msg ctx r = (Inr u, r')"
  shows "\<exists>oid existing. git_oid_fromstr G th = Some oid \<and>
    check_tip G ref (''refs/heads/'' @ ref) ch r = Inr () \<and>
    git_reference_lookup G r (branch_ref ref) = Some existing \<and>
    git_reference_set_target G r existing oid msg = Some r' \<and>
    git_reference_lookup G r' (branch_ref ref) = Some \<lparr>gref_name = branch_ref ref, gref_target = Inl oid\<rparr> \<and>
    git_moves G (branch_ref ref) r r'"
proof -
  from assms obtain oid existing where *: "git_oid_fromstr G th = Some oid"
      "check_tip G ref (''refs/heads/'' @ ref) ch r = Inr ()"
      "git_reference_lookup G r (branch_ref ref) = Some existing"
      "git_reference_set_target G r existing oid msg = Some r'"
    by (auto simp: reset_ref_def outcome_iff parse_oid_def branch_ref_def split: option.splits)
  with reference_set_target [OF *(4)] reference_name [OF *(3)] show ?thesis by auto
qed

lemma reset_moved:
  assumes "with_repo_lock G d (reset_ref G ref (''refs/heads/'' @ ref) (commit_oid_hex fs) th msg ctx) r = (Inr u, r')"
    "require_writable fs verb = Inr ref" "tree_oid_for_commit G r th = Inr t"
  shows "moved G fs r (make_fs (inner fs) th t (ref_name fs) True ch) r'"
proof -
  from reset_ref_Inr [OF with_repo_lock_Inr [OF assms(1)]] obtain oid where
      o1: "git_oid_fromstr G th = Some oid" "check_tip G ref (''refs/heads/'' @ ref) (commit_oid_hex fs) r = Inr ()"
        "git_reference_lookup G r' (branch_ref ref) = Some \<lparr>gref_name = branch_ref ref, gref_target = Inl oid\<rparr>"
        "git_moves G (branch_ref ref) r r'" by blast
  from assms(3) o1(1) obtain c where "git_commit_lookup G r oid = Some c" by (auto simp: tree_oid_for_commit_Inr)
  then have "git_commit_lookup G r' oid \<noteq> None"
    using git_extends_commit [OF git_moves_extends [OF o1(4)]] by simp
  from branch_tip_moved [OF o1(3) this] have "branch_tip G r' ref = Some oid" .
  moreover have "branch_tip G r ref = None \<or>
      map_option (git_oid_tostr G) (branch_tip G r ref) = Some (commit_oid_hex fs)"
    using o1(2) unfolding check_tip_iff by (cases "branch_tip G r ref") auto
  moreover have "writable fs" "ref_name fs = Some ref"
    using assms(2) by (auto simp: require_writable_def split: option.splits if_splits)
  ultimately show ?thesis unfolding moved_def make_fs_def using o1 assms(3) by auto
qed

lemma undo_Inr:
  assumes "undo_fs G fs n r = (Inr fs', r')" "0 < n"
  shows "moved G fs r fs' r' \<and> undo_walk G r n n (commit_oid_hex fs) = Inr (commit_oid_hex fs') \<and>
    commit_oid_hex fs \<noteq> []"
proof -
  from assms obtain ref th t where
      u: "require_writable fs ''undo'' = Inr ref" "commit_oid_hex fs \<noteq> []"
        "undo_walk G r n n (commit_oid_hex fs) = Inr th" "tree_oid_for_commit G r th = Inr t"
        "with_repo_lock G (in_path (inner fs)) (reset_ref G ref (''refs/heads/'' @ ref) (commit_oid_hex fs) th
           (''undo: '' @ to_string n @ '' commit(s)'') ''git_reference_set_target (undo)'') r = (Inr (), r')"
        "fs' = make_fs (inner fs) th t (ref_name fs) True None"
    by (auto simp: undo_fs_def outcome_iff split: if_splits)
  from reset_moved [OF u(5,1,4)] u show ?thesis by (auto simp: make_fs_def)
qed

lemma undo_Inl:
  assumes "undo_fs G fs n r = (Inl e, r')"
  shows "r' = r"
  using assms by (auto simp: undo_fs_def sbind_Inl_iff dest: locked_Inl [OF _ reset_ref_Inl] split: if_splits)

lemma redo_Inr:
  assumes "redo_fs G fs n r = (Inr fs', r')" "0 < n"
  shows "moved G fs r fs' r'"
proof -
  from assms obtain ref th t where
      u: "require_writable fs ''redo'' = Inr ref" "redo_target G fs (''refs/heads/'' @ ref) n r = Inr (th, t)"
        "with_repo_lock G (in_path (inner fs)) (reset_ref G ref (''refs/heads/'' @ ref) (commit_oid_hex fs) th
           (''redo: '' @ to_string n @ '' commit(s)'') ''git_reference_set_target (redo)'') r = (Inr (), r')"
        "fs' = make_fs (inner fs) th t (ref_name fs) True None"
    by (auto simp: redo_fs_def outcome_iff Let_def split: if_splits)
  from u(2) have "tree_oid_for_commit G r th = Inr t"
    by (auto simp: redo_target_def outcome_iff Let_def split: if_splits option.splits prod.splits)
  from reset_moved [OF u(3,1) this] u show ?thesis by auto
qed

lemma redo_Inl:
  assumes "redo_fs G fs n r = (Inl e, r')"
  shows "r' = r"
  using assms
  by (auto simp: redo_fs_def sbind_Inl_iff Let_def dest: locked_Inl [OF _ reset_ref_Inl] split: if_splits prod.splits)

end

section \<open>Valid snapshots\<close>

lemma redo_scan_tostr:
  "redo_scan G n es h k = (h', k') \<Longrightarrow> k < k' \<or> h \<in> range (git_oid_tostr G) \<Longrightarrow> h' \<in> range (git_oid_tostr G)"
proof (induction G n es h k rule: redo_scan.induct)
  case (2 G n e es h k)
  then show ?case by (fastforce simp: Let_def split: if_splits)
qed auto

context git_refdb
begin

lemma fs_valid_moved:
  assumes "moved G fs r fs' r'" "commit_oid_hex fs' \<in> range (git_oid_tostr G)"
  shows "fs_valid G r' fs'"
proof -
  from assms(2) obtain oid where oid: "commit_oid_hex fs' = git_oid_tostr G oid" by blast
  from assms(1) have "tree_oid_for_commit G r (commit_oid_hex fs') = Inr (tree_oid_hex fs')" and
      ext: "git_extends G r r'" by (auto simp: moved_def dest: git_moves_extends)
  then obtain c where "git_commit_lookup G r oid = Some c" "tree_oid_hex fs' = git_oid_tostr G (gc_tree c)"
    unfolding tree_oid_for_commit_Inr oid by (auto simp: oid_roundtrip)
  with oid git_extends_commit [OF ext] show ?thesis by (auto simp: fs_valid_def)
qed

lemma undo_valid:
  assumes "undo_fs G fs n r = (Inr fs', r')" "0 < n" "fs_valid G r fs"
  shows "fs_valid G r' fs'"
proof (rule fs_valid_moved)
  note U = undo_Inr [OF assms(1,2)]
  show "moved G fs r fs' r'" using U by blast
  have "commit_oid_hex fs \<in> range (git_oid_tostr G)" using assms(3) U by (auto simp: fs_valid_def)
  with U undo_walk_tostr show "commit_oid_hex fs' \<in> range (git_oid_tostr G)" by blast
qed

lemma redo_valid:
  assumes "redo_fs G fs n r = (Inr fs', r')" "0 < n"
  shows "fs_valid G r' fs'"
proof (rule fs_valid_moved)
  show "moved G fs r fs' r'" using redo_Inr [OF assms] .
  from assms obtain ref t where "redo_target G fs (''refs/heads/'' @ ref) n r = Inr (commit_oid_hex fs', t)"
    by (auto simp: redo_fs_def outcome_iff Let_def make_fs_def split: if_splits)
  then obtain rlog h k where "redo_scan G n rlog h 0 = (commit_oid_hex fs', k)" "n \<le> k"
    by (auto simp: redo_target_def outcome_iff Let_def split: if_splits option.splits prod.splits)
  with assms(2) redo_scan_tostr [of G n rlog h 0] show "commit_oid_hex fs' \<in> range (git_oid_tostr G)"
    by fastforce
qed

lemma squash_valid:
  assumes "squash G fs p msg r = (Inr fs', r')" "fs_valid G r fs"
  shows "fs_valid G r' fs'"
proof -
  from assms(1) obtain ch ps where
      w: "write_commit G (tree_oid_hex fs) ps (in_signature (inner fs)) msg r = (Inr ch, r')"
      and fs': "fs' = make_fs (inner fs) ch (tree_oid_hex fs) None False None" and t: "tree_oid_hex fs \<noteq> []"
    by (auto simp: squash_def outcome_iff require_tree_def split: if_splits)
  from t assms(2) obtain toid where "tree_oid_hex fs = git_oid_tostr G toid" by (auto simp: fs_valid_def)
  with write_commit_Inr [OF w] show ?thesis by (auto simp: fs_valid_def fs' make_fs_def oid_roundtrip)
qed

end

section \<open>Redo after undo\<close>

context git_reflogs
begin

text \<open>After an undo the newest reflog entry leads back to the snapshot the undo started from.\<close>

lemma undo_reflog:
  assumes "undo_fs G fs n r = (Inr fs', r')" "0 < n" "ref_name fs = Some ref"
    "git_reference_lookup G r (branch_ref ref) = Some \<lparr>gref_name = branch_ref ref, gref_target = Inl old\<rparr>"
  shows "\<exists>e es. git_reflog_read G r' (branch_ref ref) = Some (e # es) \<and> rl_old e = old \<and>
    git_oid_fromstr G (commit_oid_hex fs') = Some (rl_new e) \<and>
    rl_message e = Some (''undo: '' @ to_string n @ '' commit(s)'')"
proof -
  from assms(1,2) obtain ref' th t where
      u: "require_writable fs ''undo'' = Inr ref'"
        "with_repo_lock G (in_path (inner fs)) (reset_ref G ref' (''refs/heads/'' @ ref') (commit_oid_hex fs) th
           (''undo: '' @ to_string n @ '' commit(s)'') ''git_reference_set_target (undo)'') r = (Inr (), r')"
        "fs' = make_fs (inner fs) th t (ref_name fs) True None"
    by (auto simp: undo_fs_def outcome_iff split: if_splits)
  have "ref' = ref" using u(1) assms(3) by (auto simp: require_writable_def split: if_splits)
  with reset_ref_Inr [OF with_repo_lock_Inr [OF u(2)]] assms(4) obtain oid where
      th: "git_oid_fromstr G th = Some oid"
      and st: "git_reference_set_target G r \<lparr>gref_name = branch_ref ref, gref_target = Inl old\<rparr> oid
        (''undo: '' @ to_string n @ '' commit(s)'') = Some r'" by auto
  from reflog_set_target [OF assms(4) st] th u(3) show ?thesis by (auto simp: make_fs_def)
qed

lemma redo_target_undo:
  assumes "undo_fs G fs n r = (Inr fs', r')" "0 < n" "ref_name fs = Some ref" "fs_valid G r fs"
    "git_reference_lookup G r (branch_ref ref) = Some \<lparr>gref_name = branch_ref ref, gref_target = Inl old\<rparr>"
    "git_oid_tostr G old = commit_oid_hex fs"
  shows "redo_target G fs' (''refs/heads/'' @ ref) 1 r' = Inr (commit_oid_hex fs, tree_oid_hex fs)"
proof -
  from undo_reflog [OF assms(1-3,5)] obtain e es where
      l: "git_reflog_read G r' (''refs/heads/'' @ ref) = Some (e # es)" "rl_old e = old"
        "git_oid_fromstr G (commit_oid_hex fs') = Some (rl_new e)"
        "rl_message e = Some (''undo: '' @ to_string n @ '' commit(s)'')"
    unfolding branch_ref_def by blast
  note U = undo_Inr [OF assms(1,2)]
  then have ne: "commit_oid_hex fs \<noteq> []" by blast
  with assms(4) obtain c where c: "git_commit_lookup G r old = Some c"
      "tree_oid_hex fs = git_oid_tostr G (gc_tree c)"
    unfolding fs_valid_def assms(6) [symmetric] by auto
  from ne undo_walk_tostr [of r n n "commit_oid_hex fs" "commit_oid_hex fs'"] U assms(6)
  have "commit_oid_hex fs' \<in> range (git_oid_tostr G)" by (metis rangeI)
  with l(3) have new: "git_oid_tostr G (rl_new e) = commit_oid_hex fs'" by (auto simp: oid_roundtrip)
  have ext: "git_extends G r r'" using U by (auto simp: moved_def dest: git_moves_extends)
  then have t: "tree_oid_for_commit G r' (commit_oid_hex fs) = Inr (tree_oid_hex fs)"
    using c git_extends_commit [OF ext] assms(6) [symmetric]
    by (simp add: tree_oid_for_commit_Inr oid_roundtrip)
  from commit_not_null [OF c(1)] have nz: "git_oid_tostr G (rl_old e) \<noteq> zero_hex" using l(2) by simp
  from U obtain oid' where "git_commit_lookup G r' oid' \<noteq> None" "git_oid_fromstr G (commit_oid_hex fs') = Some oid'"
    using reference_peel_commit by (fastforce simp: moved_def branch_tip_def split: option.splits)
  with l(3) new commit_not_null have ne': "commit_oid_hex fs' \<noteq> []" by (metis option.exhaust option.inject)
  have "redo_scan G 1 (e # es) (commit_oid_hex fs') 0 = (commit_oid_hex fs, 1)"
    using l(2,4) new nz assms(6) by (cases es) (simp_all add: Let_def)
  then show ?thesis using l(1) t ne' by (simp add: redo_target_def)
qed

text \<open>A redo of one step after an undo: it fails only where the lock or libgit2 fails.\<close>

lemma redo_undo:
  assumes "undo_fs G fs n r = (Inr fs', r')" "0 < n" "ref_name fs = Some ref" "fs_valid G r fs"
    "git_reference_lookup G r (branch_ref ref) = Some \<lparr>gref_name = branch_ref ref, gref_target = Inl old\<rparr>"
    "git_oid_tostr G old = commit_oid_hex fs" "lock_free G r'"
  shows "(\<exists>fs'' r''. redo_fs G fs' 1 r' = (Inr fs'', r'') \<and> moved G fs' r' fs'' r'' \<and>
      commit_oid_hex fs'' = commit_oid_hex fs \<and> tree_oid_hex fs'' = tree_oid_hex fs) \<or>
    (\<exists>m. redo_fs G fs' 1 r' = (Inl (GitError m), r'))"
proof -
  note T = redo_target_undo [OF assms(1-6)]
  note U = undo_Inr [OF assms(1,2)]
  obtain oid where m: "inner fs' = inner fs" "ref_name fs' = Some ref" "writable fs'"
      "git_oid_fromstr G (commit_oid_hex fs') = Some oid"
      "git_reference_lookup G r' (branch_ref ref) = Some \<lparr>gref_name = branch_ref ref, gref_target = Inl oid\<rparr>"
      "branch_tip G r' ref = Some oid"
    using U assms(3) by (auto simp: moved_def)
  have w: "require_writable fs' ''redo'' = Inr ref" using m by (simp add: require_writable_def)
  let ?rr = "reset_ref G ref (''refs/heads/'' @ ref) (commit_oid_hex fs') (commit_oid_hex fs)
    (''redo: '' @ to_string 1 @ '' commit(s)'') ''git_reference_set_target (redo)''"
  have "commit_oid_hex fs' \<in> range (git_oid_tostr G)"
    using undo_walk_tostr [of r n n "commit_oid_hex fs" "commit_oid_hex fs'"] U assms(6) by (metis rangeI)
  then have "git_oid_tostr G oid = commit_oid_hex fs'" using m(4) by (auto simp: oid_roundtrip)
  then have ct: "check_tip G ref (''refs/heads/'' @ ref) (commit_oid_hex fs') r' = Inr ()"
    unfolding check_tip_iff using m(6) by simp
  show ?thesis
  proof (cases "?rr r'")
    case (Pair res r'')
    show ?thesis
    proof (cases res)
      case (Inr u)
      with Pair have "redo_fs G fs' 1 r' =
          (Inr (make_fs (inner fs') (commit_oid_hex fs) (tree_oid_hex fs) (ref_name fs') True None), r'')"
        using w T assms(7) by (simp add: redo_fs_def with_repo_lock_free Let_def)
      from this redo_Inr [OF this] show ?thesis by (simp add: make_fs_def)
    next
      case (Inl e)
      have "r'' = r'" using reset_ref_Inl [OF Pair [unfolded Inl]] .
      moreover have "\<exists>m. e = GitError m"
        using Pair Inl ct m(5) assms(6) [symmetric]
        by (auto simp: reset_ref_def sbind_Inl_iff parse_oid_def oid_roundtrip branch_ref_def require_ok_def
            call_effect_def call_write_def throw_git_error_def split: option.splits)
      ultimately show ?thesis
        using Pair Inl w T assms(7) by (auto simp: redo_fs_def with_repo_lock_free Let_def)
    qed
  qed
qed

end

section \<open>Log\<close>

text \<open>The first-parent history of a commit, newest first.\<close>

inductive history :: "('r, 'b) libgit2 \<Rightarrow> 'r \<Rightarrow> string \<Rightarrow> (string \<times> CommitMeta) list \<Rightarrow> bool"
  for G r where
  history_end: "history G r [] []"
| history_step: "h \<noteq> [] \<Longrightarrow> read_commit G r h = Inr meta \<Longrightarrow> history G r (cm_parent_oid_hex meta) hs \<Longrightarrow>
    history G r h ((h, meta) # hs)"

inductive_simps history_Cons: "history G r h ((h', meta) # hs)"

definition log_limit :: "LogOptions \<Rightarrow> nat \<Rightarrow> nat" where
  "log_limit opts n = (case lo_limit opts of Some k \<Rightarrow> max 1 k | None \<Rightarrow> n)"

definition log_skip :: "LogOptions \<Rightarrow> nat" where
  "log_skip opts = (case lo_skip opts of Some k \<Rightarrow> k | None \<Rightarrow> 0)"

lemma log_loop_history:
  assumes "history G r h hs" "\<forall>x\<in>set hs. log_matches G r opts (snd x) = Inr (P (snd x))"
    "length hs < fuel" "\<And>k. lo_limit opts = Some k \<Longrightarrow> length results < max 1 k"
  shows "log_loop G r opts fuel h skipped results = Inr (results @
    map (\<lambda>(h, m). commit_info h m)
      ((case lo_limit opts of Some k \<Rightarrow> take (max 1 k - length results) | None \<Rightarrow> id)
        (drop (log_skip opts - skipped) (filter (P \<circ> snd) hs))))"
  using assms
proof (induction arbitrary: fuel skipped results rule: history.induct)
  case history_end
  then show ?case by (cases fuel) (auto split: option.splits)
next
  case (history_step h meta hs)
  from history_step.prems(2) obtain k where k: "fuel = Suc k" "length hs < k" by (cases fuel) auto
  have m: "log_matches G r opts meta = Inr (P meta)" using history_step.prems(1) by auto
  have "\<forall>x\<in>set hs. log_matches G r opts (snd x) = Inr (P (snd x))" using history_step.prems(1) by auto
  note IH = history_step.IH [OF this k(2)]
  let ?skip = "case lo_skip opts of Some k \<Rightarrow> skipped < k | None \<Rightarrow> False"
  consider (no) "\<not> P meta" | (skip) "P meta" ?skip | (stop) j where "P meta" "\<not> ?skip" "lo_limit opts = Some j"
      "j \<le> Suc (length results)"
    | (take) "P meta" "\<not> ?skip" "\<And>j. lo_limit opts = Some j \<Longrightarrow> Suc (length results) < j"
    by (metis not_less)
  then show ?case
  proof cases
    case no
    with IH [OF history_step.prems(3)] k m history_step.hyps show ?thesis by simp
  next
    case skip
    then have "log_skip opts - skipped = Suc (log_skip opts - Suc skipped)"
      by (auto simp: log_skip_def split: option.splits)
    with skip IH [OF history_step.prems(3)] k m history_step.hyps show ?thesis by simp
  next
    case stop
    then have "log_skip opts - skipped = 0" by (auto simp: log_skip_def split: option.splits)
    moreover have "max 1 j - length results = 1" using stop history_step.prems(3) [of j] by auto
    ultimately show ?thesis using stop k m history_step.hyps by (simp add: commit_info_def)
  next
    case take
    then have s: "log_skip opts - skipped = 0" by (auto simp: log_skip_def split: option.splits)
    have "length (results @ [commit_info h meta]) < max 1 j" if "lo_limit opts = Some j" for j
      using take(3) [OF that] by simp
    from IH [OF this, of skipped] take s k m history_step.hyps show ?thesis
      by (auto simp: Let_def split: option.splits simp: Suc_diff_Suc [symmetric] dest: take(3))
  qed
qed

context git_odb
begin

lemma history_length:
  assumes "history G r h hs"
  shows "h = [] \<or> (\<exists>oid. git_oid_fromstr G h = Some oid \<and> length hs \<le> Suc (git_commit_depth G r oid))"
  using assms
proof (induction rule: history.induct)
  case (history_step h meta hs)
  from read_commit_tostr [OF history_step.hyps(2)] obtain oid and c :: git_commit where
      oc: "git_oid_fromstr G h = Some oid" "git_commit_lookup G r oid = Some c"
      and p: "cm_parent_oid_hex meta = (case gc_parents c of [] \<Rightarrow> [] | p # ps \<Rightarrow> git_oid_tostr G p)"
    by blast
  show ?case
  proof (cases "cm_parent_oid_hex meta = []")
    case True
    with history_step.hyps(3) have "hs = []" by (auto elim: history.cases)
    with oc show ?thesis by simp
  next
    case False
    with p obtain q qs where q: "gc_parents c = q # qs" "cm_parent_oid_hex meta = git_oid_tostr G q"
      by (cases "gc_parents c") auto
    with history_step.IH False have "length hs \<le> Suc (git_commit_depth G r q)" by (auto simp: oid_roundtrip)
    with history_acyclic [OF oc(2), of q] q oc(1) show ?thesis by simp
  qed
qed simp

lemma log_fs_history:
  assumes "history G r (commit_oid_hex fs) hs"
    "\<forall>x\<in>set hs. log_matches G r opts (snd x) = Inr (P (snd x))"
  shows "log_fs G r fs opts = Inr (map (\<lambda>(h, m). commit_info h m)
    (take (log_limit opts (length hs)) (drop (log_skip opts) (filter (P \<circ> snd) hs))))"
proof (cases "commit_oid_hex fs = []")
  case True
  with assms(1) have "hs = []" by (auto elim: history.cases)
  with True show ?thesis by (simp add: log_fs_def)
next
  case False
  with history_length [OF assms(1)] obtain oid where
      oid: "git_oid_fromstr G (commit_oid_hex fs) = Some oid" "length hs \<le> Suc (git_commit_depth G r oid)"
    by auto
  have all: "take (length hs) (drop k (filter (P \<circ> snd) hs)) = drop k (filter (P \<circ> snd) hs)" for k
    by (rule take_all) (simp add: le_diff_conv length_filter_le trans_le_add1)
  show ?thesis
    using log_loop_history [OF assms, of "Suc (Suc (git_commit_depth G r oid))" "[]" 0] False oid all
    by (cases "lo_limit opts")
      (simp_all add: log_fs_def hex_to_oid_def log_limit_def del: log_loop.simps)
qed

end

section \<open>Properties\<close>

text \<open>Every operation that returns a snapshot returns a valid one: its commit exists in
  the repository and its tree is that commit's tree. Shown for commits and for moving along the
  history by \<^verbatim>\<open>parent\<close>, \<^verbatim>\<open>undo\<close>, \<^verbatim>\<open>redo\<close> and \<^verbatim>\<open>squash\<close>.\<close>

theorem snapshots_valid:
  assumes "git_refdb G" "fs_valid G r fs" "0 < n"
  shows "(\<forall>ws rms msg rep ex fs' r'. commit_changes G fs ws rms msg rep ex r = (Inr fs', r') \<longrightarrow> fs_valid G r' fs') \<and>
    (\<forall>p. parent G r fs = Inr (Some p) \<longrightarrow> fs_valid G r p) \<and>
    (\<forall>fs' r'. undo_fs G fs n r = (Inr fs', r') \<longrightarrow> fs_valid G r' fs') \<and>
    (\<forall>fs' r'. redo_fs G fs n r = (Inr fs', r') \<longrightarrow> fs_valid G r' fs') \<and>
    (\<forall>p msg fs' r'. squash G fs p msg r = (Inr fs', r') \<longrightarrow> fs_valid G r' fs')"
  using git_refdb.fs_valid_committed [OF assms(1) git_refdb.commit_changes_Inr [OF assms(1)]]
    git_odb.parent_valid [OF git_refdb.axioms(1) [OF assms(1)]]
    git_refdb.undo_valid [OF assms(1) _ assms(3,2)] git_refdb.redo_valid [OF assms(1) _ assms(3)]
    git_refdb.squash_valid [OF assms(1) _ assms(2)]
  by blast

theorem snapshots_valid_witness: "fs_valid mem_git demo_mem2 demo_fs2"
  using snapshots_valid [OF memory.git_refdb_axioms demo_fs_valid zero_less_one] demo_commit by blast

text \<open>C12: \<^verbatim>\<open>undo(n)\<close> moves the branch to the snapshot that \<^verbatim>\<open>back(n)\<close> returns, and moves nothing
  else: other references and all objects stay. When it throws, the repository is unchanged.\<close>

theorem undo_moves_back:
  assumes "git_refdb G" "0 < n" "undo_fs G fs n r = (res, r')"
  shows "(\<exists>fs' b. res = Inr fs' \<and> moved G fs r fs' r' \<and> back_fs G r fs n = Inr b \<and>
      commit_oid_hex fs' = commit_oid_hex b \<and> tree_oid_hex fs' = tree_oid_hex b) \<or>
    (\<exists>e. res = Inl e \<and> r' = r)"
proof (cases res)
  case (Inl e)
  with git_refdb.undo_Inl [OF assms(1)] assms(3) show ?thesis by blast
next
  case (Inr fs')
  note U = git_refdb.undo_Inr [OF assms(1) assms(3) [unfolded Inr] assms(2)]
  then have "tree_oid_for_commit G r (commit_oid_hex fs') = Inr (tree_oid_hex fs')" by (auto simp: moved_def)
  with git_odb.back_loop_undo_walk [OF git_refdb.axioms(1) [OF assms(1)] _ this, of n n fs n] U assms(2) Inr
  show ?thesis by (auto simp: back_fs_def)
qed

text \<open>The undo of the second commit of the demonstration repository.\<close>

definition demo_log3 :: "git_reflog_entry list" where
  "demo_log3 = \<lparr>rl_old = mem_oid 7, rl_new = mem_oid 3, rl_committer = None,
     rl_message = Some ''undo: 1 commit(s)''\<rparr> # demo_log2"

definition demo_mem3 :: mem where
  "demo_mem3 = demo_mem2\<lparr>m_refs := [(''refs/heads/main'', Inl (mem_oid 3))],
     m_logs := [(''refs/heads/main'', demo_log3)]\<rparr>"

lemma demo_undo: "undo_fs mem_git demo_fs2 1 demo_mem2 = (Inr demo_fs, demo_mem3)"
proof -
  have "undo_walk mem_git demo_mem2 1 1 ''0101010101010101'' = Inr ''01010101''" by code_simp
  moreover have "tree_oid_for_commit mem_git demo_mem2 ''01010101'' = Inr ''010101''" by code_simp
  moreover have "reset_ref mem_git ''main'' ''refs/heads/main'' ''0101010101010101'' ''01010101''
      (''undo: '' @ to_string 1 @ '' commit(s)'') ''git_reference_set_target (undo)'' demo_mem2 = (Inr (), demo_mem3)"
    by code_simp
  ultimately show ?thesis
    by (simp add: undo_fs_def demo_fs2_def demo_fs_def make_fs_def require_writable_def
        with_repo_lock_free [OF mem_lock_free])
qed

theorem undo_moves_back_witness:
  "\<exists>b. moved mem_git demo_fs2 demo_mem2 demo_fs demo_mem3 \<and> back_fs mem_git demo_mem2 demo_fs2 1 = Inr b \<and>
     commit_oid_hex demo_fs = commit_oid_hex b"
  using undo_moves_back [OF memory.git_refdb_axioms _ demo_undo] by auto

text \<open>C13: \<^verbatim>\<open>redo()\<close> takes back an \<^verbatim>\<open>undo(n)\<close> of any depth. On the snapshot that the undo returned,
  with the repository lock free, it moves the branch back to exactly the commit and the tree of
  the snapshot before the undo, unless a libgit2 call fails, and then nothing changes.\<close>

theorem redo_takes_back_undo:
  assumes "git_reflogs G" "undo_fs G fs n r = (Inr fs', r')" "0 < n" "ref_name fs = Some ref" "fs_valid G r fs"
    "git_reference_lookup G r (branch_ref ref) = Some \<lparr>gref_name = branch_ref ref, gref_target = Inl old\<rparr>"
    "git_oid_tostr G old = commit_oid_hex fs" "lock_free G r'"
  shows "(\<exists>fs'' r''. redo_fs G fs' 1 r' = (Inr fs'', r'') \<and> moved G fs' r' fs'' r'' \<and>
      commit_oid_hex fs'' = commit_oid_hex fs \<and> tree_oid_hex fs'' = tree_oid_hex fs) \<or>
    (\<exists>m. redo_fs G fs' 1 r' = (Inl (GitError m), r'))"
  using git_reflogs.redo_undo [OF assms] .

lemma demo_fs2_valid: "fs_valid mem_git demo_mem2 demo_fs2"
  by (rule git_refdb.fs_valid_committed [OF memory.git_refdb_axioms
        git_refdb.commit_changes_Inr [OF memory.git_refdb_axioms demo_commit]])

theorem redo_takes_back_undo_witness:
  "(\<exists>fs'' r''. redo_fs mem_git demo_fs 1 demo_mem3 = (Inr fs'', r'') \<and> moved mem_git demo_fs demo_mem3 fs'' r'' \<and>
      commit_oid_hex fs'' = commit_oid_hex demo_fs2 \<and> tree_oid_hex fs'' = tree_oid_hex demo_fs2) \<or>
   (\<exists>m. redo_fs mem_git demo_fs 1 demo_mem3 = (Inl (GitError m), demo_mem3))"
proof -
  have "git_reference_lookup mem_git demo_mem2 (branch_ref ''main'') =
      Some \<lparr>gref_name = branch_ref ''main'', gref_target = Inl (mem_oid 7)\<rparr>" by code_simp
  moreover have "git_oid_tostr mem_git (mem_oid 7) = commit_oid_hex demo_fs2" by code_simp
  moreover have "ref_name demo_fs2 = Some ''main''" by (simp add: demo_fs2_def make_fs_def)
  ultimately show ?thesis
    using redo_takes_back_undo [OF memory.git_reflogs_axioms demo_undo _ _ demo_fs2_valid _ _ mem_lock_free]
    by simp
qed


definition demo_meta :: "string \<Rightarrow> string \<Rightarrow> CommitMeta" where
  "demo_meta t p = \<lparr>cm_message = ''write: a/b'', cm_time = 7, cm_author_name = ''vost'',
     cm_author_email = ''vost@localhost'', cm_tree_oid_hex = t, cm_parent_oid_hex = p\<rparr>"


end
