(* ===== verification/Vost_Disk.thy ===== *)
theory Vost_Disk
  imports Vost_Fs
begin

text \<open>
  The local file system as the sources use it through \<^verbatim>\<open>std::filesystem\<close> and the file streams:
  a parameter with one field per call, over the same world as libgit2. Paths are strings. An
  operation of \<^verbatim>\<open>std::filesystem\<close> that fails for lack of rights or space throws an exception that
  is none of the library's own; the fields describe the calls that succeed. The helpers of
  \<^verbatim>\<open>cpp/src/copy.cpp\<close> and the uploads that read one file are defined on top.
\<close>

record 'r disk =
  disk_exists :: "'r \<Rightarrow> string \<Rightarrow> bool"                    \<comment> \<open>fs::exists\<close>
  disk_open :: "'r \<Rightarrow> string \<Rightarrow> byte list option"          \<comment> \<open>std::ifstream, None when it does not open\<close>
  disk_is_symlink :: "'r \<Rightarrow> string \<Rightarrow> bool"                 \<comment> \<open>fs::is_symlink(fs::symlink_status(p))\<close>
  disk_user_exec :: "'r \<Rightarrow> string \<Rightarrow> bool"                  \<comment> \<open>lstat succeeds and S_IXUSR is set\<close>
  disk_read_symlink :: "'r \<Rightarrow> string \<Rightarrow> string"             \<comment> \<open>fs::read_symlink\<close>
  disk_recursive :: "'r \<Rightarrow> string \<Rightarrow> (string \<times> bool) list"  \<comment> \<open>recursive iterator: fs::relative(path, root), which resolves links; is a directory\<close>
  disk_listing :: "'r \<Rightarrow> string \<Rightarrow> (string \<times> bool) list option" \<comment> \<open>directory iterator; None when no directory\<close>
  disk_link_exists :: "'r \<Rightarrow> string \<Rightarrow> bool"               \<comment> \<open>fs::exists(fs::symlink_status(p))\<close>
  disk_create_directories :: "'r \<Rightarrow> string \<Rightarrow> 'r"
  disk_write_file :: "'r \<Rightarrow> string \<Rightarrow> byte list \<Rightarrow> 'r"   \<comment> \<open>std::ofstream and write; its state is not checked\<close>
  disk_create_symlink :: "'r \<Rightarrow> string \<Rightarrow> string \<Rightarrow> 'r"  \<comment> \<open>target, path\<close>
  disk_remove :: "'r \<Rightarrow> string \<Rightarrow> 'r"
  disk_add_exec :: "'r \<Rightarrow> string \<Rightarrow> 'r"                   \<comment> \<open>fs::permissions(p, owner_exec | group_exec, add)\<close>
  disk_directories :: "'r \<Rightarrow> string \<Rightarrow> string list"      \<comment> \<open>recursive iterator: the directories\<close>
  disk_is_empty :: "'r \<Rightarrow> string \<Rightarrow> bool"
  disk_depth :: "'r \<Rightarrow> string \<Rightarrow> nat"                        \<comment> \<open>bound on the nesting, used as fuel\<close>

text \<open>\<^verbatim>\<open>root / rel\<close> for a relative \<open>rel\<close>.\<close>

definition path_join :: "string \<Rightarrow> string \<Rightarrow> string" where
  "path_join root rel =
     (if root = [] \<or> last root = CHR ''/'' then root @ rel else root @ CHR ''/'' # rel)"

section \<open>Helpers of copy.cpp\<close>

definition disk_walk :: "'r disk \<Rightarrow> 'r \<Rightarrow> string \<Rightarrow> string list" where
  "disk_walk D r root =
     (if \<not> disk_exists D r root then []
      else sort (map fst (filter (\<lambda>(rel, is_directory). \<not> is_directory) (disk_recursive D r root))))"

definition path_matches :: "string \<Rightarrow> string \<Rightarrow> bool" where
  "path_matches path pattern \<longleftrightarrow> glob_match pattern (basename path) \<or> glob_match pattern path"

definition matches_filters :: "string \<Rightarrow> string list option \<Rightarrow> string list option \<Rightarrow> bool" where
  "matches_filters path inc exc \<longleftrightarrow>
     (case inc of Some pats \<Rightarrow> list_ex (path_matches path) pats | None \<Rightarrow> True) \<and>
     (case exc of Some pats \<Rightarrow> \<not> list_ex (path_matches path) pats | None \<Rightarrow> True)"

definition mode_from_disk :: "'r disk \<Rightarrow> 'r \<Rightarrow> string \<Rightarrow> u32" where
  "mode_from_disk D r p =
     (if disk_is_symlink D r p then MODE_LINK
      else if disk_user_exec D r p then MODE_BLOB_EXEC
      else MODE_BLOB)"

section \<open>Writing one file\<close>

definition read_local :: "'r disk \<Rightarrow> 'r \<Rightarrow> string \<Rightarrow> byte list res" where
  "read_local D r local_path =
     (if \<not> disk_exists D r local_path then Inl (IoError (''file not found: '' @ local_path))
      else case disk_open D r local_path of
        None \<Rightarrow> Inl (IoError (''cannot open file: '' @ local_path))
      | Some data \<Rightarrow> Inr data)"

definition write_from_file :: "('r, 'b) libgit2 \<Rightarrow> 'r disk \<Rightarrow> Fs \<Rightarrow> string \<Rightarrow> string \<Rightarrow> WriteOptions \<Rightarrow> ('r, Fs) vop" where
  "write_from_file G D fs path local_path opts =
     sbind (sread (\<lambda>r. read_local D r local_path)) (\<lambda>data.
     sbind (sread (\<lambda>r. Inr (case wo_mode opts of Some m \<Rightarrow> m | None \<Rightarrow> mode_from_disk D r local_path))) (\<lambda>mode.
       write_fs G fs path data (opts\<lparr>wo_mode := Some mode\<rparr>)))"

section \<open>disk_glob\<close>

text \<open>
  \<^verbatim>\<open>disk_glob_recursive\<close>. \<open>cur\<close> is the current directory and \<open>rel\<close> its path relative to the root,
  so that \<^verbatim>\<open>fs::relative(entry.path(), root)\<close> is \<open>rel\<close> joined with the name.
\<close>

fun disk_glob_recursive :: "'r disk \<Rightarrow> 'r \<Rightarrow> nat \<Rightarrow> string \<Rightarrow> string \<Rightarrow> string list \<Rightarrow> string list res" where
  "disk_glob_recursive D r 0 cur rel segs = Inl Nontermination"
| "disk_glob_recursive D r (Suc fuel) cur rel [] = Inr []"
| "disk_glob_recursive D r (Suc fuel) cur rel (seg # segs) =
     (let entries = (case disk_listing D r cur of Some es \<Rightarrow> es | None \<Rightarrow> []);
          full = (\<lambda>name. if rel = [] then name else rel @ CHR ''/'' # name)
      in if seg = ''**'' then
           ebind (disk_glob_recursive D r fuel cur rel segs) (\<lambda>here.
           ebind (emap (\<lambda>(name, is_directory).
               if is_directory then
                 if name \<noteq> [] \<and> hd name = CHR ''.'' then Inr []
                 else disk_glob_recursive D r fuel (path_join cur name) (full name) (seg # segs)
               else Inr []) entries) (\<lambda>below.
             Inr (here @ concat below)))
         else
           ebind (emap (\<lambda>(name, is_directory).
               if \<not> glob_match seg name then Inr []
               else if segs = [] then (if \<not> is_directory then Inr [full name] else Inr [])
               else if is_directory then disk_glob_recursive D r fuel (path_join cur name) (full name) segs
               else Inr []) entries) (\<lambda>found. Inr (concat found)))"

definition disk_glob :: "'r disk \<Rightarrow> 'r \<Rightarrow> string \<Rightarrow> string \<Rightarrow> string list res" where
  "disk_glob D r pattern root =
     (let segments = split_slash pattern in
      if segments = [] then Inr []
      else ebind (disk_glob_recursive D r (Suc (length segments + disk_depth D r root)) root [] segments)
             (\<lambda>results. Inr (sort results)))"

end
