(* ===== verification/Vost_Batch.thy ===== *)
theory Vost_Batch
  imports Vost_Disk Vost_Commit
begin

text \<open>
  \<^verbatim>\<open>cpp/src/batch.cpp\<close>: the batch that stages writes and removes for one commit, and its
  buffered writer. The staging discipline (the last operation on a key wins) is an interface,
  \<open>staging\<close>, that the batch of notes implements too.
\<close>

section \<open>The staging interface\<close>

datatype 'v staged = Put 'v | Del

text \<open>
  \<open>pending s k\<close> is what the next commit does to key \<open>k\<close>: nothing (\<open>None\<close>), write a value, or
  delete it.
\<close>

locale staging =
  fixes put :: "'k \<Rightarrow> 'v \<Rightarrow> 's \<Rightarrow> 's"
    and del :: "'k \<Rightarrow> 's \<Rightarrow> 's"
    and pending :: "'s \<Rightarrow> 'k \<Rightarrow> 'v staged option"
  assumes pending_put: "pending (put k v s) l = (if l = k then Some (Put v) else pending s l)"
    and pending_del: "pending (del k s) l = (if l = k then Some Del else pending s l)"
begin

definition stage :: "'k \<times> 'v staged \<Rightarrow> 's \<Rightarrow> 's" where
  "stage x s = (case x of (k, Put v) \<Rightarrow> put k v s | (k, Del) \<Rightarrow> del k s)"

lemma pending_stage: "pending (stage x s) l = (if l = fst x then Some (snd x) else pending s l)"
  by (auto simp: stage_def pending_put pending_del split: prod.splits staged.splits)

lemma last_wins:
  "pending (fold stage xs s) k = (case map_of (rev xs) k of Some x \<Rightarrow> Some x | None \<Rightarrow> pending s k)"
  by (induction xs arbitrary: s) (auto simp: pending_stage map_add_def split: option.splits)

end

section \<open>Batch\<close>

record Batch =
  b_fs :: Fs
  b_message :: "string option"
  b_operation :: "string option"
  b_parents :: "string list"
  b_writes :: "tree_write list"
  b_removes :: "string list"
  b_result :: "Fs option"
  b_closed :: bool

definition make_batch :: "Fs \<Rightarrow> BatchOptions \<Rightarrow> Batch" where
  "make_batch fs opts = \<lparr>b_fs = fs, b_message = bo_message opts, b_operation = bo_operation opts,
     b_parents = bo_parents opts, b_writes = [], b_removes = [], b_result = None, b_closed = False\<rparr>"

definition require_open :: "Batch \<Rightarrow> unit res" where
  "require_open b = (if b_closed b then Inl BatchClosedError else Inr ())"

definition stage_write :: "string \<Rightarrow> byte list \<times> u32 \<Rightarrow> Batch \<Rightarrow> Batch" where
  "stage_write norm dm b = b\<lparr>b_removes := filter (\<lambda>p. p \<noteq> norm) (b_removes b),
     b_writes := filter (\<lambda>w. fst w \<noteq> norm) (b_writes b) @ [(norm, dm)]\<rparr>"

definition stage_remove :: "string \<Rightarrow> Batch \<Rightarrow> Batch" where
  "stage_remove norm b = b\<lparr>b_writes := filter (\<lambda>w. fst w \<noteq> norm) (b_writes b),
     b_removes := (if norm \<in> set (b_removes b) then b_removes b else b_removes b @ [norm])\<rparr>"

definition batch_write_with_mode :: "Batch \<Rightarrow> string \<Rightarrow> byte list \<Rightarrow> u32 \<Rightarrow> Batch res" where
  "batch_write_with_mode b path data mode =
     ebind (require_open b) (\<lambda>_. ebind (normalize path) (\<lambda>norm. Inr (stage_write norm (data, mode) b)))"

definition batch_write :: "Batch \<Rightarrow> string \<Rightarrow> byte list \<Rightarrow> Batch res" where
  "batch_write b path data = batch_write_with_mode b path data MODE_BLOB"

definition batch_write_text :: "Batch \<Rightarrow> string \<Rightarrow> string \<Rightarrow> Batch res" where
  "batch_write_text b path text = batch_write b path (to_bytes text)"

definition batch_write_symlink :: "Batch \<Rightarrow> string \<Rightarrow> string \<Rightarrow> Batch res" where
  "batch_write_symlink b path target = batch_write_with_mode b path (to_bytes target) MODE_LINK"

definition batch_write_from_file :: "'r disk \<Rightarrow> 'r \<Rightarrow> Batch \<Rightarrow> string \<Rightarrow> string \<Rightarrow> u32 \<Rightarrow> Batch res" where
  "batch_write_from_file D r b path local_path mode =
     ebind (read_local D r local_path) (\<lambda>data. batch_write_with_mode b path data mode)"

definition batch_remove :: "Batch \<Rightarrow> string \<Rightarrow> Batch res" where
  "batch_remove b path =
     ebind (require_open b) (\<lambda>_. ebind (normalize path) (\<lambda>norm. Inr (stage_remove norm b)))"

definition batch_message :: "Batch \<Rightarrow> string" where
  "batch_message b =
     (case b_message b of
        Some m \<Rightarrow> m
      | None \<Rightarrow>
          let op = (case b_operation b of Some x \<Rightarrow> x | None \<Rightarrow> ''batch'') in
          if b_writes b \<noteq> [] \<and> b_removes b = []
          then op @ '': write '' @ to_string (length (b_writes b)) @ '' file(s)''
          else if b_writes b = [] \<and> b_removes b \<noteq> []
          then op @ '': remove '' @ to_string (length (b_removes b)) @ '' file(s)''
          else op @ '': '' @ to_string (length (b_writes b)) @ '' write(s), '' @
               to_string (length (b_removes b)) @ '' remove(s)'')"

text \<open>\<^verbatim>\<open>commit\<close> closes the batch before it commits, so the batch is closed even when it throws.\<close>

definition batch_commit :: "('r, 'b) libgit2 \<Rightarrow> Batch \<Rightarrow> 'r \<Rightarrow> (Fs res \<times> Batch) \<times> 'r" where
  "batch_commit G b r =
     (case require_open b of
        Inl e \<Rightarrow> ((Inl e, b), r)
      | Inr _ \<Rightarrow>
          (case commit_changes G (b_fs b) (b_writes b) (b_removes b) (batch_message b) None (b_parents b) r of
             (Inl e, r') \<Rightarrow> ((Inl e, b\<lparr>b_closed := True\<rparr>), r')
           | (Inr fs', r') \<Rightarrow> ((Inr fs', b\<lparr>b_closed := True, b_result := Some fs'\<rparr>), r')))"

section \<open>BatchWriter\<close>

record BatchWriter =
  bw_path :: string
  bw_mode :: u32
  bw_buffer :: "byte list"
  bw_closed :: bool

definition make_batch_writer :: "string \<Rightarrow> u32 \<Rightarrow> BatchWriter" where
  "make_batch_writer path mode = \<lparr>bw_path = path, bw_mode = mode, bw_buffer = [], bw_closed = False\<rparr>"

definition batch_writer_write :: "BatchWriter \<Rightarrow> byte list \<Rightarrow> BatchWriter res" where
  "batch_writer_write w data =
     (if bw_closed w then Inl BatchClosedError else Inr (w\<lparr>bw_buffer := bw_buffer w @ data\<rparr>))"

definition batch_writer_write_text :: "BatchWriter \<Rightarrow> string \<Rightarrow> BatchWriter res" where
  "batch_writer_write_text w text =
     (if bw_closed w then Inl BatchClosedError
      else Inr (w\<lparr>bw_buffer := bw_buffer w @ to_bytes text\<rparr>))"

text \<open>The writer holds a reference to its batch, which the model passes and returns.\<close>

definition batch_writer_close :: "BatchWriter \<Rightarrow> Batch \<Rightarrow> unit res \<times> BatchWriter \<times> Batch" where
  "batch_writer_close w b =
     (if bw_closed w then (Inl BatchClosedError, w, b)
      else case batch_write_with_mode b (bw_path w) (bw_buffer w) (bw_mode w) of
        Inl e \<Rightarrow> (Inl e, w\<lparr>bw_closed := True\<rparr>, b)
      | Inr b' \<Rightarrow> (Inr (), w\<lparr>bw_closed := True\<rparr>, b'))"

definition batch_writer_destroy :: "BatchWriter \<Rightarrow> Batch \<Rightarrow> Batch" where
  "batch_writer_destroy w b =
     (if bw_closed w then b else case batch_writer_close w b of (res, w', b') \<Rightarrow> b')"

section \<open>Staging in a batch\<close>

definition batch_pending :: "Batch \<Rightarrow> string \<Rightarrow> (byte list \<times> u32) staged option" where
  "batch_pending b p =
     (case map_of (b_writes b) p of
        Some dm \<Rightarrow> Some (Put dm)
      | None \<Rightarrow> if p \<in> set (b_removes b) then Some Del else None)"

lemma map_of_filter_neq: "map_of (filter (\<lambda>w. fst w \<noteq> k) ws) l = (if l = k then None else map_of ws l)"
  by (induction ws) auto

interpretation batch: staging stage_write stage_remove batch_pending
proof
  show "batch_pending (stage_write k v s) l = (if l = k then Some (Put v) else batch_pending s l)" for k v s l
    by (auto simp: batch_pending_def stage_write_def map_of_filter_neq map_add_def split: option.splits)
  show "batch_pending (stage_remove k s) l = (if l = k then Some Del else batch_pending s l)" for k s l
    by (auto simp: batch_pending_def stage_remove_def map_of_filter_neq split: option.splits)
qed

text \<open>The representation: no path twice, no path both written and removed.\<close>

definition batch_ok :: "Batch \<Rightarrow> bool" where
  "batch_ok b \<longleftrightarrow> distinct (map fst (b_writes b)) \<and> distinct (b_removes b) \<and>
     fst ` set (b_writes b) \<inter> set (b_removes b) = {}"

lemma batch_ok_make: "batch_ok (make_batch fs opts)"
  by (simp add: batch_ok_def make_batch_def)

lemma batch_ok_write: "batch_ok b \<Longrightarrow> batch_ok (stage_write k v b)"
  by (auto simp: batch_ok_def stage_write_def distinct_map_filter)

lemma batch_ok_remove: "batch_ok b \<Longrightarrow> batch_ok (stage_remove k b)"
  by (auto simp: batch_ok_def stage_remove_def distinct_map_filter)

lemma batch_ok_stage: "batch_ok b \<Longrightarrow> batch_ok (fold batch.stage xs b)"
  by (induction xs arbitrary: b)
    (auto simp: batch.stage_def batch_ok_write batch_ok_remove split: prod.splits staged.splits)

section \<open>Sequences of operations\<close>

datatype batch_op = Batch_Write string "byte list" u32 | Batch_Remove string

fun batch_step :: "batch_op \<Rightarrow> Batch \<Rightarrow> Batch res" where
  "batch_step (Batch_Write path data mode) b = batch_write_with_mode b path data mode"
| "batch_step (Batch_Remove path) b = batch_remove b path"

fun run_batch :: "batch_op list \<Rightarrow> Batch \<Rightarrow> Batch res" where
  "run_batch [] b = Inr b"
| "run_batch (x # xs) b = ebind (batch_step x b) (run_batch xs)"

text \<open>The key an operation stages and what it stages there.\<close>

fun op_effect :: "batch_op \<Rightarrow> (string \<times> (byte list \<times> u32) staged) res" where
  "op_effect (Batch_Write path data mode) = ebind (normalize path) (\<lambda>norm. Inr (norm, Put (data, mode)))"
| "op_effect (Batch_Remove path) = ebind (normalize path) (\<lambda>norm. Inr (norm, Del))"

lemma batch_step_Inr:
  "batch_step x b = Inr b' \<longleftrightarrow> \<not> b_closed b \<and> (\<exists>e. op_effect x = Inr e \<and> b' = batch.stage e b)"
  by (cases x) (auto simp: batch_write_with_mode_def batch_remove_def require_open_def outcome_iff batch.stage_def)

lemma stage_keeps [simp]:
  "b_closed (batch.stage e b) = b_closed b" "b_fs (batch.stage e b) = b_fs b"
  by (auto simp: batch.stage_def stage_write_def stage_remove_def split: prod.splits staged.splits)

lemma run_batch_Inr:
  "run_batch ops b = Inr b' \<Longrightarrow> \<exists>xs. emap op_effect ops = Inr xs \<and> b' = fold batch.stage xs b"
proof (induction ops arbitrary: b)
  case (Cons x ops)
  then obtain e where "op_effect x = Inr e" "run_batch ops (batch.stage e b) = Inr b'"
    by (auto simp: outcome_iff batch_step_Inr)
  with Cons.IH show ?case by fastforce
qed simp

lemma op_effect_normal: "op_effect x = Inr (p, v) \<Longrightarrow> normal_path p"
  by (cases x) (auto simp: outcome_iff dest: normalize_Inr_split(3))

definition batch_normal :: "Batch \<Rightarrow> bool" where
  "batch_normal b \<longleftrightarrow> (\<forall>p \<in> fst ` set (b_writes b) \<union> set (b_removes b). normal_path p)"

lemma batch_normal_stage:
  "batch_normal b \<Longrightarrow> \<forall>x\<in>set xs. normal_path (fst x) \<Longrightarrow> batch_normal (fold batch.stage xs b)"
proof (induction xs arbitrary: b)
  case (Cons x xs)
  have "batch_normal (batch.stage x b)"
    using Cons.prems by (cases x; cases "snd x")
      (auto simp: batch.stage_def stage_write_def stage_remove_def batch_normal_def)
  with Cons show ?case by simp
qed simp

section \<open>What a batch commits\<close>

lemma map_of_write_node:
  assumes "distinct (map fst ws)" "\<forall>p \<in> fst ` set ws. normal_path p" "normal_path p"
  shows "map_of (rev (map write_node ws)) (split_slash p) =
    map_option (\<lambda>(d, m). File d m) (map_of ws p)"
proof -
  have eq: "split_slash p = split_slash q \<longleftrightarrow> p = q" if "normal_path q" for q
    using that assms(3) unfolding normal_path_def by metis
  have "inj_on split_slash (fst ` set ws)"
    using assms(2) unfolding normal_path_def by (metis inj_onI)
  then have "distinct (map fst (map write_node ws))"
    using assms(1) by (simp add: write_node_def comp_def case_prod_unfold distinct_map
        inj_on_def)
  then have "map_of (rev (map write_node ws)) (split_slash p) = map_of (map write_node ws) (split_slash p)"
    by (simp only: map_of_rev_distinct)
  also have "\<dots> = map_option (\<lambda>(d, m). File d m) (map_of ws p)"
    using assms(2) by (induction ws) (auto simp: write_node_def eq)
  finally show ?thesis .
qed


lemma run_batch_make:
  assumes "run_batch ops (make_batch fs opts) = Inr b" "emap op_effect ops = Inr xs"
  shows "batch_ok b" "batch_normal b" "b_fs b = fs" "batch_pending b p = map_of (rev xs) p"
proof -
  from run_batch_Inr [OF assms(1)] assms(2) have b: "b = fold batch.stage xs (make_batch fs opts)" by simp
  show "batch_ok b" unfolding b by (rule batch_ok_stage [OF batch_ok_make])
  have "\<forall>x\<in>set xs. normal_path (fst x)"
    using assms(2) unfolding emap_Inr_iff
    by (induction rule: list_all2_induct) (auto dest: op_effect_normal)
  then show "batch_normal b" unfolding b
    by (rule batch_normal_stage [rotated]) (simp add: batch_normal_def make_batch_def)
  have "b_fs (fold batch.stage xs b0) = b_fs b0" for b0 by (induction xs arbitrary: b0) simp_all
  then show "b_fs b = fs" by (simp add: b make_batch_def)
  show "batch_pending b p = map_of (rev xs) p"
    unfolding b batch.last_wins by (simp add: batch_pending_def make_batch_def split: option.splits)
qed

text \<open>What the staged changes of one path do to it.\<close>

lemma apply_pending:
  assumes ok: "batch_ok b" "batch_normal b" "settled (b_writes b) (b_removes b)"
    and p: "normal_path p" "p \<noteq> []"
  shows "batch_pending b p = Some Del \<Longrightarrow> apply_changes (b_writes b) (b_removes b) old (split_slash p) = None"
    and "batch_pending b p = Some (Put (d, m)) \<Longrightarrow>
      \<forall>q v. batch_pending b q = Some (Put v) \<longrightarrow> \<not> strict_prefix (split_slash q) (split_slash p) \<Longrightarrow>
      apply_changes (b_writes b) (b_removes b) old (split_slash p) = Some (File d m)"
proof -
  let ?W = "fst ` set (map write_node (b_writes b))" and ?p = "split_slash p"
  have ne: "?p \<noteq> []" using p normal_path_Nil_iff by blast
  have mo: "map_of (rev (map write_node (b_writes b))) ?p =
      map_option (\<lambda>(d, m). File d m) (map_of (b_writes b) p)"
    by (rule map_of_write_node) (use ok p in \<open>auto simp: batch_ok_def batch_normal_def\<close>)
  show "apply_changes (b_writes b) (b_removes b) old ?p = None" if "batch_pending b p = Some Del"
  proof -
    have r: "p \<in> set (b_removes b)" and w: "map_of (b_writes b) p = None"
      using that by (auto simp: batch_pending_def split: option.splits if_splits)
    have "\<not> deeper ?p (map (fst \<circ> write_node) (b_writes b) @ map split_slash (b_removes b))"
      using ok(3) r unfolding settled_def by auto
    moreover have "on_way (set (map split_slash (b_removes b))) [] ?p"
      unfolding on_way_iff using r ne by (intro exI [of _ ?p]) auto
    ultimately show ?thesis using mo w by (simp add: apply_changes_def Let_def)
  qed
  assume put: "batch_pending b p = Some (Put (d, m))"
    and above: "\<forall>q v. batch_pending b q = Some (Put v) \<longrightarrow> \<not> strict_prefix (split_slash q) ?p"
  have "\<not> on_way ?W [] (butlast ?p)"
  proof
    assume "on_way ?W [] (butlast ?p)"
    then obtain x where "x \<in> ?W" "prefix x (butlast ?p)" by (auto simp: on_way_iff)
    then obtain q v where q: "(q, v) \<in> set (b_writes b)" "prefix (split_slash q) (butlast ?p)"
      by (auto simp: write_node_def)
    have "strict_prefix (butlast ?p) ?p"
      using ne by (metis append_butlast_last_id not_Cons_self2 prefixI self_append_conv strict_prefix_def)
    with q(2) have "strict_prefix (split_slash q) ?p" by (rule prefix_order.le_less_trans)
    moreover have "batch_pending b q = Some (Put v)"
      using q(1) ok(1) by (simp add: batch_ok_def batch_pending_def)
    ultimately show False using above by blast
  qed
  moreover have "map_of (b_writes b) p = Some (d, m)"
    using put by (auto simp: batch_pending_def split: option.splits if_splits)
  ultimately show "apply_changes (b_writes b) (b_removes b) old ?p = Some (File d m)"
    using mo by (simp add: apply_changes_def Let_def)
qed

section \<open>Properties\<close>

text \<open>C9: in a batch the last operation on a path wins. For every sequence of staged writes and
  removes, the commit of the batch leaves at a path what the last operation on that path asked
  for: the written bytes and mode (unless a file was staged above the path), or nothing. A path
  that is not related to any staged path keeps its old contents.\<close>

theorem batch_last_operation_wins:
  assumes "git_refdb G" "run_batch ops (make_batch fs opts) = Inr b" "emap op_effect ops = Inr xs"
    "batch_commit G b r = ((Inr fs', b'), r')" "settled (b_writes b) (b_removes b)"
    "normal_path p" "p \<noteq> []" "fs_node G r fs (split_slash p) = Inr x"
  shows "case map_of (rev xs) p of
      Some Del \<Rightarrow> fs_node G r' fs' (split_slash p) = Inr None
    | Some (Put (d, m)) \<Rightarrow>
        (\<forall>q v. map_of (rev xs) q = Some (Put v) \<longrightarrow> \<not> strict_prefix (split_slash q) (split_slash p)) \<longrightarrow>
        fs_node G r' fs' (split_slash p) = Inr (Some (File d m))
    | None \<Rightarrow>
        (\<forall>q\<in>dom (map_of xs). \<not> comparable (split_slash q) (split_slash p)) \<longrightarrow>
        fs_node G r' fs' (split_slash p) = Inr x"
proof -
  note B = run_batch_make [OF assms(2,3)]
  have ne: "split_slash p \<noteq> []" using assms(6,7) normal_path_Nil_iff by blast
  have "commit_changes G fs (b_writes b) (b_removes b) (batch_message b) None (b_parents b) r = (Inr fs', r')"
    using assms(4) B(3) by (auto simp: batch_commit_def split: sum.splits prod.splits)
  from git_refdb.committed_node [OF assms(1) git_refdb.commit_changes_Inr [OF assms(1) this] assms(5) ne,
      of "\<lambda>_. x"] assms(8)
  have node: "fs_node G r' fs' (split_slash p) = Inr (apply_changes (b_writes b) (b_removes b) (\<lambda>_. x) (split_slash p))"
    by simp
  note A = apply_pending [OF B(1,2) assms(5-7), where old = "\<lambda>_. x"]
  show ?thesis
  proof (cases "map_of (rev xs) p")
    case None
    have "q \<in> dom (map_of xs)" if "q \<in> fst ` set (b_writes b) \<union> set (b_removes b)" for q
    proof -
      from that have "batch_pending b q \<noteq> None"
        by (auto simp: batch_pending_def map_of_eq_None_iff split: option.splits)
      then show ?thesis by (simp add: B(4) dom_map_of_conv_image_fst map_of_eq_None_iff)
    qed
    then have "fs_node G r' fs' (split_slash p) = Inr x"
      if "\<forall>q\<in>dom (map_of xs). \<not> comparable (split_slash q) (split_slash p)"
      using node that apply_changes_frame [of "b_writes b" "b_removes b" "split_slash p" "\<lambda>_. x"]
      by (fastforce simp: write_node_def)
    with None show ?thesis by simp
  qed (use node A B(4) in \<open>auto split: staged.splits\<close>)
qed

text \<open>The batch of the witnesses removes \<^verbatim>\<open>a/b\<close>, then writes it.\<close>

definition demo_batch_options :: BatchOptions where
  "demo_batch_options = \<lparr>bo_message = Some ''write: a/b'', bo_operation = None, bo_parents = []\<rparr>"

definition demo_batch :: Batch where
  "demo_batch = stage_write ''a/b'' (to_bytes ''hi'', MODE_BLOB) (make_batch demo_fs demo_batch_options)"

lemma demo_batch_run:
  "run_batch [Batch_Remove ''a/b'', Batch_Write ''//a/b'' (to_bytes ''hi'') MODE_BLOB]
     (make_batch demo_fs demo_batch_options) = Inr demo_batch"
  "emap op_effect [Batch_Remove ''a/b'', Batch_Write ''//a/b'' (to_bytes ''hi'') MODE_BLOB] =
     Inr [(''a/b'', Del), (''a/b'', Put (to_bytes ''hi'', MODE_BLOB))]"
proof -
  have n: "normalize ''//a/b'' = Inr ''a/b''" "normalize ''a/b'' = Inr ''a/b''" by code_simp+
  then show "run_batch [Batch_Remove ''a/b'', Batch_Write ''//a/b'' (to_bytes ''hi'') MODE_BLOB]
     (make_batch demo_fs demo_batch_options) = Inr demo_batch"
    by (simp add: demo_batch_def batch_remove_def batch_write_with_mode_def require_open_def
        make_batch_def stage_remove_def stage_write_def)
  show "emap op_effect [Batch_Remove ''a/b'', Batch_Write ''//a/b'' (to_bytes ''hi'') MODE_BLOB] =
     Inr [(''a/b'', Del), (''a/b'', Put (to_bytes ''hi'', MODE_BLOB))]"
    using n by simp
qed

lemma demo_batch_commit:
  "batch_commit mem_git demo_batch demo_mem =
     ((Inr demo_fs2, demo_batch\<lparr>b_closed := True, b_result := Some demo_fs2\<rparr>), demo_mem2)"
  using demo_commit
  by (simp add: batch_commit_def demo_batch_def make_batch_def stage_write_def demo_batch_options_def
      batch_message_def require_open_def)

theorem batch_last_operation_wins_witness:
  "fs_node mem_git demo_mem2 demo_fs2 (split_slash ''a/b'') = Inr (Some (File (to_bytes ''hi'') MODE_BLOB))"
proof -
  have sp: "split_slash ''a/b'' = [''a'', ''b'']" by code_simp
  then have "fs_node mem_git demo_mem demo_fs (split_slash ''a/b'') = Inr (Some (File [120] MODE_BLOB))"
    using demo_node by (simp add: fs_node_def demo_fs_def make_fs_def)
  moreover have "normal_path ''a/b''" by code_simp
  moreover have "settled (b_writes demo_batch) (b_removes demo_batch)"
    by (simp add: settled_def demo_batch_def make_batch_def stage_write_def)
  ultimately show ?thesis
    using batch_last_operation_wins [OF memory.git_refdb_axioms demo_batch_run demo_batch_commit, of "''a/b''"]
    by (simp split: if_splits)
qed

text \<open>A batch commits at most once. Whatever its outcome, a commit leaves the batch closed;
  on a closed batch every operation throws \<^verbatim>\<open>BatchClosedError\<close>, changing neither the batch nor
  the repository.\<close>

lemma batch_commits_once:
  assumes "batch_commit G b r = ((res, b'), r')"
  shows "b_closed b' \<and>
    batch_commit G b' r'' = ((Inl BatchClosedError, b'), r'') \<and>
    batch_write b' path data = Inl BatchClosedError \<and>
    batch_write_text b' path text = Inl BatchClosedError \<and>
    batch_write_symlink b' path target = Inl BatchClosedError \<and>
    batch_remove b' path = Inl BatchClosedError \<and>
    (b_closed b \<longrightarrow> r' = r) \<and> (\<forall>fs'. res = Inr fs' \<longrightarrow> b_result b' = Some fs')"
proof -
  have c: "b_closed b'"
    using assms by (auto simp: batch_commit_def require_open_def split: sum.splits prod.splits if_splits)
  then have closed: "require_open b' = Inl BatchClosedError" by (simp add: require_open_def)
  have "b_closed b \<longrightarrow> r' = r" "\<forall>fs'. res = Inr fs' \<longrightarrow> b_result b' = Some fs'"
    using assms by (auto simp: batch_commit_def require_open_def split: sum.splits prod.splits if_splits)
  with c closed show ?thesis
    by (simp add: batch_commit_def batch_write_def batch_write_text_def batch_write_symlink_def
        batch_write_with_mode_def batch_remove_def)
qed

lemma batch_commits_once_witness:
  "batch_write (demo_batch\<lparr>b_closed := True, b_result := Some demo_fs2\<rparr>) ''c'' [] = Inl BatchClosedError"
  using batch_commits_once [OF demo_batch_commit] by blast

end
