(* ===== verification/Vost_Writers.thy ===== *)
theory Vost_Writers
  imports Vost_Batch Vost_History
begin

text \<open>
  The buffered writers \<^verbatim>\<open>FsWriter\<close> (\<^verbatim>\<open>cpp/src/fs.cpp\<close>) and \<^verbatim>\<open>BatchWriter\<close> (\<^verbatim>\<open>cpp/src/batch.cpp\<close>): a
  sequence of writes is one write of the concatenation, made by \<^verbatim>\<open>close\<close> or by the destructor and
  at most once.
\<close>

datatype chunk = Bytes "byte list" | Text string

fun content :: "chunk list \<Rightarrow> byte list" where
  "content [] = []"
| "content (Bytes d # cs) = d @ content cs"
| "content (Text s # cs) = to_bytes s @ content cs"

fun feed :: "chunk list \<Rightarrow> FsWriter \<Rightarrow> FsWriter res" where
  "feed [] w = Inr w"
| "feed (Bytes d # cs) w = ebind (writer_write w d) (feed cs)"
| "feed (Text s # cs) w = ebind (writer_write_text w s) (feed cs)"

fun feed_batch :: "chunk list \<Rightarrow> BatchWriter \<Rightarrow> BatchWriter res" where
  "feed_batch [] w = Inr w"
| "feed_batch (Bytes d # cs) w = ebind (batch_writer_write w d) (feed_batch cs)"
| "feed_batch (Text s # cs) w = ebind (batch_writer_write_text w s) (feed_batch cs)"

lemma feed_open: "\<not> fw_closed w \<Longrightarrow> feed cs w = Inr (w\<lparr>fw_buffer := fw_buffer w @ content cs\<rparr>)"
  by (induction cs w rule: feed.induct) (simp_all add: writer_write_def writer_write_text_def)

lemma feed_batch_open: "\<not> bw_closed w \<Longrightarrow> feed_batch cs w = Inr (w\<lparr>bw_buffer := bw_buffer w @ content cs\<rparr>)"
  by (induction cs w rule: feed_batch.induct) (simp_all add: batch_writer_write_def batch_writer_write_text_def)

text \<open>A closed writer refuses everything and does nothing.\<close>

definition writer_done :: "('r, 'b) libgit2 \<Rightarrow> FsWriter \<Rightarrow> bool" where
  "writer_done G w \<longleftrightarrow> (\<forall>d. writer_write w d = Inl BatchClosedError) \<and> (\<forall>s. writer_write_text w s = Inl BatchClosedError) \<and>
     (\<forall>r. writer_close G w r = ((Inl BatchClosedError, w), r) \<and> writer_destroy G w r = r)"

definition batch_writer_done :: "BatchWriter \<Rightarrow> bool" where
  "batch_writer_done w \<longleftrightarrow> (\<forall>d. batch_writer_write w d = Inl BatchClosedError) \<and>
     (\<forall>s. batch_writer_write_text w s = Inl BatchClosedError) \<and>
     (\<forall>b. batch_writer_close w b = (Inl BatchClosedError, w, b) \<and> batch_writer_destroy w b = b)"

lemma writer_done_closed: "fw_closed w \<Longrightarrow> writer_done G w"
  by (simp add: writer_done_def writer_write_def writer_write_text_def writer_close_def writer_destroy_def)

lemma batch_writer_done_closed: "bw_closed w \<Longrightarrow> batch_writer_done w"
  by (simp add: batch_writer_done_def batch_writer_write_def batch_writer_write_text_def batch_writer_close_def
      batch_writer_destroy_def)

section \<open>Properties\<close>

text \<open>C33: a writer is one write of the concatenation. For every sequence of byte and text chunks,
  \<^verbatim>\<open>close\<close> of an \<^verbatim>\<open>FsWriter\<close> has the outcome and the effect of \<^verbatim>\<open>Fs::write\<close> with all chunks joined, the
  destructor of an open writer the same effect with the error swallowed; \<^verbatim>\<open>close\<close> of a \<^verbatim>\<open>BatchWriter\<close>
  and its destructor stage exactly that write. Whatever the outcome the writer is closed then:
  further calls throw \<^verbatim>\<open>BatchClosedError\<close> and neither they nor the destructor write again.\<close>

theorem writers_write_once:
  "(\<exists>w w'. feed cs (make_writer fs path opts) = Inr w \<and> writer_done G w' \<and>
      (case write_fs G fs path (content cs) opts r of (res, r') \<Rightarrow>
         writer_close G w r = ((res, w'), r') \<and> writer_destroy G w r = r')) \<and>
   (\<exists>w w'. feed_batch cs (make_batch_writer path mode) = Inr w \<and> batch_writer_done w' \<and>
      (case batch_write_with_mode b path (content cs) mode of
         Inl e \<Rightarrow> batch_writer_close w b = (Inl e, w', b) \<and> batch_writer_destroy w b = b
       | Inr b' \<Rightarrow> batch_writer_close w b = (Inr (), w', b') \<and> batch_writer_destroy w b = b'))"
proof
  let ?w = "(make_writer fs path opts)\<lparr>fw_buffer := content cs\<rparr>"
  have "feed cs (make_writer fs path opts) = Inr ?w" by (simp add: feed_open make_writer_def)
  moreover obtain res r' where run: "write_fs G fs path (content cs) opts r = (res, r')" by (cases "write_fs G fs path (content cs) opts r")
  moreover have "\<exists>w'. writer_done G w' \<and> writer_close G ?w r = ((res, w'), r') \<and> writer_destroy G ?w r = r'"
    using run by (cases res) (auto simp: writer_close_def writer_destroy_def make_writer_def intro!: writer_done_closed)
  ultimately show "\<exists>w w'. feed cs (make_writer fs path opts) = Inr w \<and> writer_done G w' \<and>
      (case write_fs G fs path (content cs) opts r of (res, r') \<Rightarrow>
         writer_close G w r = ((res, w'), r') \<and> writer_destroy G w r = r')" by auto
next
  let ?w = "(make_batch_writer path mode)\<lparr>bw_buffer := content cs\<rparr>"
  let ?w' = "?w\<lparr>bw_closed := True\<rparr>"
  have "feed_batch cs (make_batch_writer path mode) = Inr ?w" by (simp add: feed_batch_open make_batch_writer_def)
  moreover have "batch_writer_done ?w'" by (rule batch_writer_done_closed) simp
  ultimately show "\<exists>w w'. feed_batch cs (make_batch_writer path mode) = Inr w \<and> batch_writer_done w' \<and>
      (case batch_write_with_mode b path (content cs) mode of
         Inl e \<Rightarrow> batch_writer_close w b = (Inl e, w', b) \<and> batch_writer_destroy w b = b
       | Inr b' \<Rightarrow> batch_writer_close w b = (Inr (), w', b') \<and> batch_writer_destroy w b = b')"
    by (intro exI [of _ ?w] exI [of _ ?w'])
      (auto simp: batch_writer_close_def batch_writer_destroy_def make_batch_writer_def split: sum.splits)
qed

end
