(* ===== verification/Vost_GitStore.thy ===== *)
theory Vost_GitStore
  imports Vost_Commit
begin

text \<open>
  \<^verbatim>\<open>cpp/src/gitstore.cpp\<close>: opening or creating a repository, the dictionaries of branches and
  tags, reads by hash and packing. \<^verbatim>\<open>GitStore\<close> itself is its shared state, \<open>Inner\<close>. The calls of
  libgit2 and of the operating system that only this file makes are a second parameter, \<open>host\<close>.
\<close>

section \<open>The parameters\<close>

datatype config_value = Cfg_string string | Cfg_int int

record 'r host =
  host_exists :: "'r \<Rightarrow> string \<Rightarrow> bool"
  git_repository_open_bare :: "'r \<Rightarrow> string \<Rightarrow> bool"
  git_repository_init :: "'r \<Rightarrow> string \<Rightarrow> 'r option"   \<comment> \<open>create_directories and git_repository_init\<close>
  git_repository_config :: "'r \<Rightarrow> bool"
  git_config_set :: "'r \<Rightarrow> string \<Rightarrow> config_value \<Rightarrow> 'r"   \<comment> \<open>its return code is ignored\<close>
  git_commit_create_on :: "'r \<Rightarrow> string \<Rightarrow> git_signature \<Rightarrow> string \<Rightarrow> git_oid \<Rightarrow> git_oid list \<Rightarrow> (git_oid \<times> 'r) option"
  weakly_canonical :: "string \<Rightarrow> string"
  git_reference_is_branch :: "git_reference \<Rightarrow> bool"
  git_reference_shorthand :: "git_reference \<Rightarrow> string"
  git_repository_odb :: "'r \<Rightarrow> bool"
  git_odb_foreach :: "'r \<Rightarrow> git_oid list option"
  git_packbuilder_new :: "'r \<Rightarrow> bool"
  git_packbuilder_insert :: "'r \<Rightarrow> git_oid \<Rightarrow> bool"
  git_packbuilder_write :: "'r \<Rightarrow> string \<Rightarrow> git_oid list \<Rightarrow> 'r option"   \<comment> \<open>create_directories and the write\<close>
  host_remove :: "'r \<Rightarrow> string \<Rightarrow> 'r"   \<comment> \<open>std::filesystem::remove\<close>

section \<open>OpenOptions and open\<close>

record OpenOptions =
  oo_create :: bool
  oo_branch :: "string option"
  oo_author :: "string option"
  oo_email :: "string option"
  oo_compression :: "int option"
  oo_big_file_threshold :: "int option"

definition init_branch :: "('r, 'b) libgit2 \<Rightarrow> 'r host \<Rightarrow> string \<Rightarrow> Signature \<Rightarrow> ('r, unit) vop" where
  "init_branch G H branch sig =
     sbind (sread (\<lambda>r. require_ok G r ''git_treebuilder_new'' (git_treebuilder_new G r None))) (\<lambda>tb.
     sbind (call_write G ''git_treebuilder_write'' (\<lambda>r. git_treebuilder_write G r tb)) (\<lambda>tree_oid.
     sbind (sread (\<lambda>r. require_ok G r ''git_tree_lookup'' (git_tree_lookup G r tree_oid))) (\<lambda>tree.
     sbind (sread (\<lambda>r. require_ok G r ''git_signature_now''
             (git_signature_now G r (sig_name sig) (sig_email sig)))) (\<lambda>author.
       let msg = ''Initialize '' @ branch; refname = ''refs/heads/'' @ branch in
       sbind (call_write G ''git_commit_create'' (\<lambda>r.
               git_commit_create_on H r refname author msg tree_oid [])) (\<lambda>commit_oid.
         call_effect G ''git_repository_set_head'' (\<lambda>r. git_repository_set_head G r refname))))))"

text \<open>The settings are written when the configuration opens, and skipped when it does not.\<close>

definition set_config :: "'r host \<Rightarrow> (string \<times> config_value) list \<Rightarrow> ('r, unit) vop" where
  "set_config H settings r =
     (Inr (), if git_repository_config H r then fold (\<lambda>(k, v) r. git_config_set H r k v) settings r else r)"

definition open_settings :: "OpenOptions \<Rightarrow> (string \<times> config_value) list" where
  "open_settings opts =
     (case oo_compression opts of Some c \<Rightarrow> [(''core.compression'', Cfg_int c)] | None \<Rightarrow> []) @
     (case oo_big_file_threshold opts of Some t \<Rightarrow> [(''core.bigFileThreshold'', Cfg_int t)] | None \<Rightarrow> [])"

definition open_signature :: "OpenOptions \<Rightarrow> Signature" where
  "open_signature opts = \<lparr>
     sig_name = (case oo_author opts of Some a \<Rightarrow> a | None \<Rightarrow> sig_name default_signature),
     sig_email = (case oo_email opts of Some e \<Rightarrow> e | None \<Rightarrow> sig_email default_signature)\<rparr>"

definition open_store :: "('r, 'b) libgit2 \<Rightarrow> 'r host \<Rightarrow> string \<Rightarrow> OpenOptions \<Rightarrow> ('r, Inner) vop" where
  "open_store G H path opts =
     (let sig = open_signature opts in
      sbind (sread (\<lambda>r. Inr (host_exists H r path))) (\<lambda>existed.
      sbind (if existed then
               sread (\<lambda>r. if git_repository_open_bare H r path then Inr ()
                          else throw_git_error G r ''git_repository_open_bare'')
             else if oo_create opts then
               sbind (call_effect G ''git_repository_init'' (\<lambda>r. git_repository_init H r path)) (\<lambda>_.
               sbind (set_config H [(''core.logAllRefUpdates'', Cfg_string ''always'')]) (\<lambda>_.
                 case oo_branch opts of
                   Some branch \<Rightarrow> init_branch G H branch sig
                 | None \<Rightarrow> sreturn ()))
             else sthrow (NotFoundError (''repository not found: '' @ path))) (\<lambda>_.
      sbind (if oo_compression opts \<noteq> None \<or> oo_big_file_threshold opts \<noteq> None
             then set_config H (open_settings opts) else sreturn ()) (\<lambda>_.
        sreturn \<lparr>in_path = path, in_signature = sig\<rparr>))))"

section \<open>RefDict\<close>

record RefDict =
  rd_inner :: Inner
  rd_prefix :: string
  rd_writable :: bool

definition branches :: "Inner \<Rightarrow> RefDict" where
  "branches i = \<lparr>rd_inner = i, rd_prefix = ''refs/heads/'', rd_writable = True\<rparr>"

definition tags :: "Inner \<Rightarrow> RefDict" where
  "tags i = \<lparr>rd_inner = i, rd_prefix = ''refs/tags/'', rd_writable = False\<rparr>"

text \<open>The object a peel returns is the commit itself, which the tree id is read from.\<close>

definition refdict_get :: "('r, 'b) libgit2 \<Rightarrow> 'r \<Rightarrow> RefDict \<Rightarrow> string \<Rightarrow> Fs res" where
  "refdict_get G r d name =
     (case git_reference_lookup G r (rd_prefix d @ name) of
        None \<Rightarrow> Inl (KeyNotFoundError name)
      | Some ref \<Rightarrow>
          ebind (require_ok G r ''git_reference_peel (commit)'' (git_reference_peel G r ref)) (\<lambda>oid.
          ebind (require_ok G r ''git_reference_peel (commit)'' (git_commit_lookup G r oid)) (\<lambda>commit.
            Inr (make_fs (rd_inner d) (oid_to_hex G oid) (oid_to_hex G (gc_tree commit))
              (Some name) (rd_writable d) None))))"

text \<open>
  Two snapshots that share their store have the same path; otherwise the canonical paths
  are compared, so the comparison of paths decides in both cases.
\<close>

definition refdict_set :: "('r, 'b) libgit2 \<Rightarrow> 'r host \<Rightarrow> RefDict \<Rightarrow> string \<Rightarrow> Fs \<Rightarrow> ('r, unit) vop" where
  "refdict_set G H d name fs =
     sbind (sread (\<lambda>r. validate_ref_name name)) (\<lambda>_.
     if weakly_canonical H (in_path (rd_inner d)) \<noteq> weakly_canonical H (in_path (inner fs))
     then sthrow (InvalidPathError ''Fs belongs to a different repository'')
     else case commit_hash fs of
       None \<Rightarrow> sthrow (GitError ''Fs has no commit'')
     | Some commit_hex \<Rightarrow>
         let refname = rd_prefix d @ name in
         sbind (sread (\<lambda>r.
           if git_reference_lookup G r refname \<noteq> None \<and> \<not> rd_writable d
           then Inl (KeyExistsError (''tag '' @ CHR 0x27 # name @ CHR 0x27 # '' already exists''))
           else Inr ())) (\<lambda>_.
         sbind (sread (\<lambda>r. hex_to_oid G commit_hex)) (\<lambda>new_oid.
           call_effect G ''git_reference_create''
             (\<lambda>r. git_reference_create G r refname new_oid True ''refdict: set''))))"

definition refdict_set_and_get :: "('r, 'b) libgit2 \<Rightarrow> 'r host \<Rightarrow> RefDict \<Rightarrow> string \<Rightarrow> Fs \<Rightarrow> ('r, Fs) vop" where
  "refdict_set_and_get G H d name fs =
     sbind (refdict_set G H d name fs) (\<lambda>_. sread (\<lambda>r. refdict_get G r d name))"

definition refdict_del :: "('r, 'b) libgit2 \<Rightarrow> RefDict \<Rightarrow> string \<Rightarrow> ('r, unit) vop" where
  "refdict_del G d name =
     sbind (sread (\<lambda>r. case git_reference_lookup G r (rd_prefix d @ name) of
         None \<Rightarrow> Inl (KeyNotFoundError name) | Some ref \<Rightarrow> Inr ref)) (\<lambda>ref.
       call_effect G ''git_reference_delete'' (\<lambda>r. git_reference_delete G r ref))"

definition refdict_contains :: "('r, 'b) libgit2 \<Rightarrow> 'r \<Rightarrow> RefDict \<Rightarrow> string \<Rightarrow> bool" where
  "refdict_contains G r d name \<longleftrightarrow> git_reference_lookup G r (rd_prefix d @ name) \<noteq> None"

definition refdict_keys :: "('r, 'b) libgit2 \<Rightarrow> 'r \<Rightarrow> RefDict \<Rightarrow> string list" where
  "refdict_keys G r d =
     (case git_reference_glob G r (rd_prefix d @ ''*'') of
        None \<Rightarrow> []
      | Some refs \<Rightarrow>
          map (\<lambda>ref. drop (length (rd_prefix d)) (gref_name ref))
            (filter (\<lambda>ref. length (gref_name ref) > length (rd_prefix d)) refs))"

definition refdict_values :: "('r, 'b) libgit2 \<Rightarrow> 'r \<Rightarrow> RefDict \<Rightarrow> Fs list res" where
  "refdict_values G r d = emap (refdict_get G r d) (refdict_keys G r d)"

definition current_name :: "('r, 'b) libgit2 \<Rightarrow> 'r host \<Rightarrow> 'r \<Rightarrow> RefDict \<Rightarrow> string option" where
  "current_name G H r d =
     (if \<not> rd_writable d then None
      else case git_repository_head G r of
        None \<Rightarrow> None
      | Some head \<Rightarrow>
          if \<not> git_reference_is_branch H head then None
          else let name = git_reference_shorthand H head in
            if git_reference_lookup G r (rd_prefix d @ name) \<noteq> None then Some name else None)"

definition current :: "('r, 'b) libgit2 \<Rightarrow> 'r host \<Rightarrow> 'r \<Rightarrow> RefDict \<Rightarrow> Fs option" where
  "current G H r d =
     (case current_name G H r d of
        None \<Rightarrow> None
      | Some name \<Rightarrow> (case refdict_get G r d name of Inr fs \<Rightarrow> Some fs | Inl _ \<Rightarrow> None))"

definition set_current :: "('r, 'b) libgit2 \<Rightarrow> RefDict \<Rightarrow> string \<Rightarrow> ('r, unit) vop" where
  "set_current G d name =
     (if \<not> rd_writable d then sthrow (PermissionError ''cannot set_current on tags'')
      else call_effect G ''git_repository_set_head''
             (\<lambda>r. git_repository_set_head G r (rd_prefix d @ name)))"

text \<open>
  \<^verbatim>\<open>timestamp\<close> has no initialiser: without a committer its value is indeterminate, and the model
  says 0.
\<close>

definition reflog_entry :: "('r, 'b) libgit2 \<Rightarrow> git_reflog_entry \<Rightarrow> ReflogEntry" where
  "reflog_entry G e = \<lparr>
     old_sha = oid_to_hex G (rl_old e),
     new_sha = oid_to_hex G (rl_new e),
     re_committer = (case rl_committer e of
         Some sig \<Rightarrow> gs_name sig @ '' <'' @ gs_email sig @ ''>'' | None \<Rightarrow> []),
     re_timestamp = (case rl_committer e of Some sig \<Rightarrow> gs_when sig | None \<Rightarrow> 0),
     re_message = (case rl_message e of Some m \<Rightarrow> m | None \<Rightarrow> [])\<rparr>"

definition refdict_reflog :: "('r, 'b) libgit2 \<Rightarrow> 'r \<Rightarrow> RefDict \<Rightarrow> string \<Rightarrow> ReflogEntry list" where
  "refdict_reflog G r d name =
     (case git_reflog_read G r (rd_prefix d @ name) of
        None \<Rightarrow> [] | Some rlog \<Rightarrow> map (reflog_entry G) rlog)"

section \<open>GitStore\<close>

definition store_fs :: "('r, 'b) libgit2 \<Rightarrow> 'r \<Rightarrow> Inner \<Rightarrow> string \<Rightarrow> Fs res" where
  "store_fs G r i ref =
     (if refdict_contains G r (branches i) ref then refdict_get G r (branches i) ref
      else if refdict_contains G r (tags i) ref then refdict_get G r (tags i) ref
      else case git_oid_fromstr G ref of
        None \<Rightarrow> Inl (NotFoundError (''ref not found: '' @ ref))
      | Some oid \<Rightarrow>
          (case git_commit_lookup G r oid of
             None \<Rightarrow> Inl (NotFoundError (''ref not found: '' @ ref))
           | Some commit \<Rightarrow>
               Inr (make_fs i ref (oid_to_hex G (gc_tree commit)) None False None)))"

text \<open>\<^verbatim>\<open>size\<close> is a plain \<^verbatim>\<open>size_t\<close> here and 0 stands for the whole rest.\<close>

definition read_by_hash :: "('r, 'b) libgit2 \<Rightarrow> 'r \<Rightarrow> string \<Rightarrow> u64 \<Rightarrow> u64 \<Rightarrow> byte list res" where
  "read_by_hash G r hash offset sz =
     ebind (hex_to_oid G hash) (\<lambda>oid.
     ebind (require_ok G r ''git_blob_lookup'' (git_blob_lookup G r oid)) (\<lambda>raw.
       Inr (slice raw offset (if sz > 0 then Some sz else None))))"

definition has_hash :: "('r, 'b) libgit2 \<Rightarrow> 'r \<Rightarrow> string \<Rightarrow> bool" where
  "has_hash G r hash \<longleftrightarrow> (case read_by_hash G r hash 0 0 of Inr _ \<Rightarrow> True | Inl _ \<Rightarrow> False)"

text \<open>\<^verbatim>\<open>pack\<close>: the loose file of an object lies under the first two digits of its id.\<close>

definition loose_dir :: "('r, 'b) libgit2 \<Rightarrow> Inner \<Rightarrow> git_oid \<Rightarrow> string" where
  "loose_dir G i oid = in_path i @ ''/objects/'' @ take 2 (git_oid_tostr G oid)"

definition loose_file :: "('r, 'b) libgit2 \<Rightarrow> Inner \<Rightarrow> git_oid \<Rightarrow> string" where
  "loose_file G i oid = loose_dir G i oid @ ''/'' @ drop 2 (git_oid_tostr G oid)"

definition remove_loose :: "('r, 'b) libgit2 \<Rightarrow> 'r host \<Rightarrow> Inner \<Rightarrow> git_oid \<Rightarrow> 'r \<Rightarrow> 'r" where
  "remove_loose G H i oid r =
     (if host_exists H r (loose_file G i oid)
      then host_remove H (host_remove H r (loose_file G i oid)) (loose_dir G i oid)
      else r)"

definition pack :: "('r, 'b) libgit2 \<Rightarrow> 'r host \<Rightarrow> Inner \<Rightarrow> ('r, nat) vop" where
  "pack G H i =
     sbind (sread (\<lambda>r. if git_repository_odb H r then Inr () else throw_git_error G r ''git_repository_odb'')) (\<lambda>_.
     sbind (sread (\<lambda>r. require_ok G r ''git_odb_foreach'' (git_odb_foreach H r))) (\<lambda>oids.
       if oids = [] then sreturn 0
       else
         sbind (sread (\<lambda>r. if git_packbuilder_new H r then Inr () else throw_git_error G r ''git_packbuilder_new'')) (\<lambda>_.
         sbind (sread (\<lambda>r. Inr (filter (git_packbuilder_insert H r) oids))) (\<lambda>inserted.
           if length inserted > 0 then
             sbind (call_effect G ''git_packbuilder_write''
                     (\<lambda>r. git_packbuilder_write H r (in_path i @ ''/objects/pack'') inserted)) (\<lambda>_ r.
               (Inr (length inserted), fold (remove_loose G H i) oids r))
           else sreturn (length inserted)))))"

definition gc :: "('r, 'b) libgit2 \<Rightarrow> 'r host \<Rightarrow> Inner \<Rightarrow> ('r, nat) vop" where
  "gc G H i = pack G H i"

section \<open>The dictionary interface\<close>

text \<open>
  Branches, tags and notes are dictionaries kept in the repository. \<open>put k v s s'\<close> says that
  setting \<open>k\<close> to \<open>v\<close> succeeded and led from \<open>s\<close> to \<open>s'\<close>; \<open>del k s s'\<close> likewise.
\<close>

locale key_store =
  fixes ok :: "'s \<Rightarrow> bool" and key :: "'k \<Rightarrow> bool" and find :: "'s \<Rightarrow> 'k \<Rightarrow> 'v option"
    and put :: "'k \<Rightarrow> 'v \<Rightarrow> 's \<Rightarrow> 's \<Rightarrow> bool" and del :: "'k \<Rightarrow> 's \<Rightarrow> 's \<Rightarrow> bool"
  assumes put_find: "ok s \<Longrightarrow> key k \<Longrightarrow> key l \<Longrightarrow> put k v s s' \<Longrightarrow> find s' l = (if l = k then Some v else find s l)"
    and put_ok: "ok s \<Longrightarrow> key k \<Longrightarrow> put k v s s' \<Longrightarrow> ok s'"
    and del_find: "ok s \<Longrightarrow> key k \<Longrightarrow> key l \<Longrightarrow> del k s s' \<Longrightarrow> find s' l = (if l = k then None else find s l)"
    and del_ok: "ok s \<Longrightarrow> key k \<Longrightarrow> del k s s' \<Longrightarrow> ok s'"
begin

fun run_ops :: "('k \<times> 'v option) list \<Rightarrow> 's \<Rightarrow> 's \<Rightarrow> bool" where
  "run_ops [] s s' \<longleftrightarrow> s' = s"
| "run_ops ((k, Some v) # xs) s s' \<longleftrightarrow> (\<exists>t. put k v s t \<and> run_ops xs t s')"
| "run_ops ((k, None) # xs) s s' \<longleftrightarrow> (\<exists>t. del k s t \<and> run_ops xs t s')"

text \<open>After a sequence of updates a key holds what the last update of it says.\<close>

lemma run_ops_find:
  assumes "ok s" "\<forall>x\<in>set xs. key (fst x)" "run_ops xs s s'" "key l"
  shows "ok s' \<and> find s' l = (case map_of (rev xs) l of Some x \<Rightarrow> x | None \<Rightarrow> find s l)"
  using assms
proof (induction xs s s' rule: run_ops.induct)
  case (2 k v xs s s')
  then obtain t where t: "put k v s t" "run_ops xs t s'" by auto
  with 2 have "ok t" "find t l = (if l = k then Some v else find s l)"
    using put_ok [of s k v t] put_find [of s k l v t] by simp_all
  with 2 t show ?case by (auto simp: map_add_def split: option.splits)
next
  case (3 k xs s s')
  then obtain t where t: "del k s t" "run_ops xs t s'" by auto
  with 3 have "ok t" "find t l = (if l = k then None else find s l)"
    using del_ok [of s k t] del_find [of s k l t] by simp_all
  with 3 t show ?case by (auto simp: map_add_def split: option.splits)
qed simp

end

section \<open>Branches and tags implement it\<close>

text \<open>Every reference of the dictionary is direct and points to a commit.\<close>

definition dict_plain :: "('r, 'b) libgit2 \<Rightarrow> RefDict \<Rightarrow> 'r \<Rightarrow> bool" where
  "dict_plain G d r \<longleftrightarrow> (\<forall>n ref. git_reference_lookup G r (rd_prefix d @ n) = Some ref \<longrightarrow>
     (\<exists>oid. gref_target ref = Inl oid \<and> git_commit_lookup G r oid \<noteq> None))"

definition snapshot_ids :: "Fs \<Rightarrow> string \<times> string" where
  "snapshot_ids fs = (commit_oid_hex fs, tree_oid_hex fs)"

definition dict_find :: "('r, 'b) libgit2 \<Rightarrow> RefDict \<Rightarrow> 'r \<Rightarrow> string \<Rightarrow> (string \<times> string) option" where
  "dict_find G d r name =
     (case refdict_get G r d name of Inr fs \<Rightarrow> Some (snapshot_ids fs) | Inl _ \<Rightarrow> None)"

definition dict_put :: "('r, 'b) libgit2 \<Rightarrow> 'r host \<Rightarrow> RefDict \<Rightarrow> string \<Rightarrow> string \<times> string \<Rightarrow> 'r \<Rightarrow> 'r \<Rightarrow> bool" where
  "dict_put G H d name v r r' \<longleftrightarrow>
     (\<exists>fs. fs_valid G r fs \<and> v = snapshot_ids fs \<and> refdict_set G H d name fs r = (Inr (), r'))"

definition dict_del :: "('r, 'b) libgit2 \<Rightarrow> RefDict \<Rightarrow> string \<Rightarrow> 'r \<Rightarrow> 'r \<Rightarrow> bool" where
  "dict_del G d name r r' \<longleftrightarrow> refdict_del G d name r = (Inr (), r')"

locale ref_dict = git_refdb G for G :: "('r, 'b) libgit2" +
  fixes H :: "'r host" and d :: RefDict
begin

lemma dict_find_iff:
  "dict_find G d r name = (case git_reference_lookup G r (rd_prefix d @ name) of
      None \<Rightarrow> None
    | Some ref \<Rightarrow> (case git_reference_peel G r ref of
        None \<Rightarrow> None
      | Some oid \<Rightarrow> map_option (\<lambda>c. (git_oid_tostr G oid, git_oid_tostr G (gc_tree c))) (git_commit_lookup G r oid)))"
  by (auto simp: dict_find_def refdict_get_def require_ok_def throw_git_error_def snapshot_ids_def
      make_fs_def oid_to_hex_def split: option.splits)

lemma refdict_set_Inr:
  assumes "refdict_set G H d name fs r = (Inr u, r')"
  shows "\<exists>oid. git_oid_fromstr G (commit_oid_hex fs) = Some oid \<and> commit_oid_hex fs \<noteq> [] \<and>
    git_reference_lookup G r' (rd_prefix d @ name) = Some \<lparr>gref_name = rd_prefix d @ name, gref_target = Inl oid\<rparr> \<and>
    git_moves G (rd_prefix d @ name) r r' \<and>
    (rd_writable d \<or> git_reference_lookup G r (rd_prefix d @ name) = None)"
  using assms
  by (auto simp: refdict_set_def commit_hash_def outcome_iff Let_def dest!: reference_create split: if_splits)

lemma moved_commit:
  "git_moves G n r r' \<Longrightarrow> git_commit_lookup G r oid = Some c \<Longrightarrow> git_commit_lookup G r' oid = Some c"
  by (rule git_extends_commit [OF git_moves_extends])

lemma dict_plain_moved:
  assumes "dict_plain G d r" "git_moves G (rd_prefix d @ k) r r'"
    "\<And>ref. git_reference_lookup G r' (rd_prefix d @ k) = Some ref \<Longrightarrow>
       \<exists>oid. gref_target ref = Inl oid \<and> git_commit_lookup G r oid \<noteq> None"
  shows "dict_plain G d r'"
  unfolding dict_plain_def
proof (intro allI impI)
  fix n ref
  assume ref: "git_reference_lookup G r' (rd_prefix d @ n) = Some ref"
  have "\<exists>oid. gref_target ref = Inl oid \<and> git_commit_lookup G r oid \<noteq> None"
  proof (cases "n = k")
    case False
    then have "git_reference_lookup G r (rd_prefix d @ n) = Some ref"
      using ref assms(2) by (simp add: git_moves_def)
    with assms(1) show ?thesis unfolding dict_plain_def by blast
  qed (use assms(3) ref in blast)
  then show "\<exists>oid. gref_target ref = Inl oid \<and> git_commit_lookup G r' oid \<noteq> None"
    using moved_commit [OF assms(2)] by fastforce
qed

lemma dict_find_moved:
  assumes "dict_plain G d r" "git_moves G (rd_prefix d @ k) r r'" "l \<noteq> k"
  shows "dict_find G d r' l = dict_find G d r l"
proof (cases "git_reference_lookup G r (rd_prefix d @ l)")
  case None
  with assms(2,3) show ?thesis by (simp add: dict_find_iff git_moves_def)
next
  case (Some ref)
  with assms(1) obtain oid c where t: "gref_target ref = Inl oid" "git_commit_lookup G r oid = Some c"
    unfolding dict_plain_def by blast
  have c: "git_commit_lookup G r' oid = Some c"
    using moved_commit [OF assms(2) t(2)] .
  have "git_reference_peel G r ref = Some oid" "git_reference_peel G r' ref = Some oid"
    using reference_peel t c by auto
  with Some assms(2,3) t c show ?thesis by (simp add: dict_find_iff git_moves_def)
qed

end

sublocale ref_dict \<subseteq> dict: key_store "dict_plain G d" "\<lambda>_. True" "dict_find G d" "dict_put G H d" "dict_del G d"
proof
  fix s k l v s'
  assume ok: "dict_plain G d s" and put: "dict_put G H d k v s s'"
  then obtain fs where fs: "fs_valid G s fs" "v = snapshot_ids fs" "refdict_set G H d k fs s = (Inr (), s')"
    unfolding dict_put_def by blast
  from refdict_set_Inr [OF fs(3)] obtain oid where
      set: "git_oid_fromstr G (commit_oid_hex fs) = Some oid" "commit_oid_hex fs \<noteq> []"
        "git_reference_lookup G s' (rd_prefix d @ k) = Some \<lparr>gref_name = rd_prefix d @ k, gref_target = Inl oid\<rparr>"
        "git_moves G (rd_prefix d @ k) s s'" by blast
  from fs(1) set(1,2) obtain c where
      c: "git_commit_lookup G s oid = Some c" "commit_oid_hex fs = git_oid_tostr G oid"
        "tree_oid_hex fs = git_oid_tostr G (gc_tree c)"
    unfolding fs_valid_def by (auto simp: oid_roundtrip)
  show "dict_plain G d s'"
    by (rule dict_plain_moved [OF ok set(4)]) (use set(3) c in simp)
  have c': "git_commit_lookup G s' oid = Some c"
    using moved_commit [OF set(4) c(1)] .
  have "dict_find G d s' k = Some v"
    using set(3) c c' fs(2) reference_peel [of s' oid "\<lparr>gref_name = rd_prefix d @ k, gref_target = Inl oid\<rparr>"]
    by (simp add: dict_find_iff snapshot_ids_def)
  with dict_find_moved [OF ok set(4)] show "dict_find G d s' l = (if l = k then Some v else dict_find G d s l)"
    by simp
next
  fix s k l s'
  assume ok: "dict_plain G d s" and "dict_del G d k s s'"
  then obtain ref where ref: "git_reference_lookup G s (rd_prefix d @ k) = Some ref"
      "git_reference_delete G s ref = Some s'"
    by (auto simp: dict_del_def refdict_del_def outcome_iff split: option.splits)
  from reference_delete [OF ref(2)] reference_name [OF ref(1)]
  have gone: "git_reference_lookup G s' (rd_prefix d @ k) = None" "git_moves G (rd_prefix d @ k) s s'" by auto
  show "dict_plain G d s'" by (rule dict_plain_moved [OF ok gone(2)]) (use gone(1) in simp)
  from dict_find_moved [OF ok gone(2)] gone(1)
  show "dict_find G d s' l = (if l = k then None else dict_find G d s l)" by (simp add: dict_find_iff)
qed

section \<open>Creating a repository\<close>

text \<open>
  Documented behaviour of the calls of \<open>open_store\<close>: a commit created on a reference moves that
  reference, HEAD resolves to the reference it was set to, the configuration is neither an
  object nor a reference.
\<close>

locale git_host = git_refdb G for G :: "('r, 'b) libgit2" +
  fixes H :: "'r host"
  assumes commit_create_on: "git_commit_create_on H r n sg msg tree ps = Some (oid, r') \<Longrightarrow>
      (\<exists>c. git_commit_lookup G r' oid = Some c \<and> gc_tree c = tree \<and> gc_parents c = ps \<and>
           gc_message c = Some (dropWhile (\<lambda>ch. ch = CHR 0x0A) msg) \<and> gc_author c = Some sg) \<and>
      git_extends G r r' \<and> git_reference_lookup G r' n = Some \<lparr>gref_name = n, gref_target = Inl oid\<rparr>"
    and set_head: "git_repository_set_head G r n = Some r' \<Longrightarrow>
      git_extends G r r' \<and> git_reference_lookup G r' = git_reference_lookup G r \<and>
      (git_reference_lookup G r n = Some \<lparr>gref_name = n, gref_target = Inl oid\<rparr> \<longrightarrow>
       git_repository_head G r' = Some \<lparr>gref_name = n, gref_target = Inl oid\<rparr>)"
    and config_set: "git_adds G r (git_config_set H r k v)"
    and is_branch: "git_reference_is_branch H ref \<longleftrightarrow> prefix ''refs/heads/'' (gref_name ref)"
    and shorthand: "gref_name ref = ''refs/heads/'' @ n \<Longrightarrow> git_reference_shorthand H ref = n"
begin

lemma set_config_adds: "set_config H settings r = (res, r') \<Longrightarrow> git_adds G r r'"
proof -
  have "git_adds G r (fold (\<lambda>(k, v) r. git_config_set H r k v) settings r)" for r
  proof (induction settings arbitrary: r)
    case (Cons x settings)
    then show ?case
      using git_adds_trans [OF config_set Cons.IH, of r "fst x" "snd x"] by (simp add: case_prod_unfold)
  qed simp
  then show "set_config H settings r = (res, r') \<Longrightarrow> git_adds G r r'"
    by (auto simp: set_config_def split: if_splits)
qed

text \<open>What \<^verbatim>\<open>init_branch\<close> leaves behind.\<close>

definition initialized :: "string \<Rightarrow> Signature \<Rightarrow> 'r \<Rightarrow> bool" where
  "initialized branch sig r \<longleftrightarrow> (\<exists>oid c t.
     git_reference_lookup G r (branch_ref branch) = Some \<lparr>gref_name = branch_ref branch, gref_target = Inl oid\<rparr> \<and>
     git_repository_head G r = Some \<lparr>gref_name = branch_ref branch, gref_target = Inl oid\<rparr> \<and>
     git_commit_lookup G r oid = Some c \<and> git_tree_lookup G r (gc_tree c) = Some t \<and>
     (\<forall>n. git_tree_entry_byname G t n = None) \<and> gc_parents c = [] \<and>
     gc_message c = Some (''Initialize '' @ branch) \<and>
     (\<exists>sg. gc_author c = Some sg \<and> gs_name sg = sig_name sig \<and> gs_email sg = sig_email sig))"

lemma initialized_adds: "git_adds G r r' \<Longrightarrow> initialized branch sig r \<Longrightarrow> initialized branch sig r'"
  unfolding initialized_def git_adds_def git_same_refs_def
  by (elim conjE exE) (auto dest: git_extends_commit git_extends_tree)

lemma init_branch_initialized:
  assumes "init_branch G H branch sig r = (Inr u, r')"
  shows "initialized branch sig r'"
proof -
  from assms obtain tb tree_oid r1 t author oid r2 where
      tb: "git_treebuilder_new G r None = Some tb" "git_treebuilder_write G r tb = Some (tree_oid, r1)"
    and au: "git_signature_now G r1 (sig_name sig) (sig_email sig) = Some author"
    and co: "git_commit_create_on H r1 (''refs/heads/'' @ branch) author (''Initialize '' @ branch) tree_oid [] = Some (oid, r2)"
    and hd: "git_repository_set_head G r2 (''refs/heads/'' @ branch) = Some r'"
    unfolding init_branch_def Let_def outcome_iff sread_apply by (auto simp: outcome_iff)
  from builder_write [OF tb(2)] builder_new_empty [OF tb(1)] obtain t where
      t: "git_tree_lookup G r1 tree_oid = Some t" "\<forall>n. git_tree_entry_byname G t n = None" by metis
  from commit_create_on [OF co] obtain c :: git_commit where
      c: "git_commit_lookup G r2 oid = Some c" "gc_tree c = tree_oid" "gc_parents c = []"
        "gc_message c = Some (''Initialize '' @ branch)" "gc_author c = Some author" "git_extends G r1 r2"
        "git_reference_lookup G r2 (''refs/heads/'' @ branch) =
           Some \<lparr>gref_name = ''refs/heads/'' @ branch, gref_target = Inl oid\<rparr>"
    by auto
  from set_head [OF hd, of oid] c(7) have h: "git_extends G r2 r'"
      "git_reference_lookup G r' = git_reference_lookup G r2"
      "git_repository_head G r' = Some \<lparr>gref_name = ''refs/heads/'' @ branch, gref_target = Inl oid\<rparr>" by auto
  from git_extends_commit [OF h(1) c(1)] git_extends_tree [OF git_extends_trans [OF c(6) h(1)] t(1)]
    t(2) c h signature_now [OF au]
  show ?thesis unfolding initialized_def branch_ref_def by auto
qed

lemma open_store_created:
  assumes "open_store G H path opts r = (Inr i, r')" "\<not> host_exists H r path" "oo_branch opts = Some b"
  shows "oo_create opts \<and> i = \<lparr>in_path = path, in_signature = open_signature opts\<rparr> \<and>
    initialized b (open_signature opts) r'"
proof -
  from assms obtain r1 r2 r3 where
      o: "oo_create opts" "i = \<lparr>in_path = path, in_signature = open_signature opts\<rparr>"
        "init_branch G H b (open_signature opts) r2 = (Inr (), r3)"
        "r' = r3 \<or> set_config H (open_settings opts) r3 = (Inr (), r')"
    unfolding open_store_def Let_def outcome_iff sread_apply
    by (auto simp: outcome_iff split: if_splits)
  from init_branch_initialized [OF o(3)] o(4) set_config_adds initialized_adds
  have "initialized b (open_signature opts) r'" by blast
  with o show ?thesis by simp
qed

end

section \<open>The repository in memory\<close>

definition mem_commit_create_on ::
  "mem \<Rightarrow> string \<Rightarrow> git_signature \<Rightarrow> string \<Rightarrow> git_oid \<Rightarrow> git_oid list \<Rightarrow> (git_oid \<times> mem) option" where
  "mem_commit_create_on r n sg msg tree ps =
     (case mem_commit_create r sg msg tree ps of
        None \<Rightarrow> None
      | Some (oid, r') \<Rightarrow> Some (oid, mem_ref_write r' n oid (''commit: '' @ msg)))"

definition mem_host :: "mem host" where
  "mem_host = \<lparr>
     host_exists = (\<lambda>r _. m_head r \<noteq> []),
     git_repository_open_bare = (\<lambda>_ _. True),
     git_repository_init = (\<lambda>r _. Some (r\<lparr>m_head := ''refs/heads/master''\<rparr>)),
     git_repository_config = (\<lambda>_. True),
     git_config_set = (\<lambda>r _ _. r),
     git_commit_create_on = mem_commit_create_on,
     weakly_canonical = (\<lambda>p. p),
     git_reference_is_branch = (\<lambda>ref. prefix ''refs/heads/'' (gref_name ref)),
     git_reference_shorthand = (\<lambda>ref. drop 11 (gref_name ref)),
     git_repository_odb = (\<lambda>_. True),
     git_odb_foreach = (\<lambda>r. Some (map mem_oid [0..<length (m_objs r)])),
     git_packbuilder_new = (\<lambda>_. True),
     git_packbuilder_insert = (\<lambda>_ _. True),
     git_packbuilder_write = (\<lambda>r _ _. Some r),
     host_remove = (\<lambda>r _. r)\<rparr>"

interpretation mem_hosted: git_host mem_git mem_host
proof (unfold_locales, goal_cases)
  case (1 r n sg msg tree ps oid r')
  then obtain r1 where c: "git_commit_create mem_git r sg msg tree ps = Some (oid, r1)"
      and r': "r' = mem_ref_write r1 n oid (''commit: '' @ msg)"
    by (auto simp: mem_host_def mem_commit_create_on_def mem_git_sel split: option.splits)
  from mem_ref_write_spec [of r1 n oid "''commit: '' @ msg"]
  have w: "git_reference_lookup mem_git r' n = Some \<lparr>gref_name = n, gref_target = Inl oid\<rparr>"
      "git_extends mem_git r1 r'"
    by (auto simp: r' git_moves_def)
  from memory.commit_create [OF c] w(2) show ?case
    using w(1) git_extends_commit [OF w(2)] git_extends_trans [OF _ w(2)]
    by (auto simp: git_adds_def)
next
  case (2 r n r' oid)
  then have r': "r' = r\<lparr>m_head := n\<rparr>" by (simp add: mem_git_def)
  have "mem_get r' = mem_get r" by (rule ext) (simp add: mem_get_def r' Let_def)
  then show ?case
    by (simp add: r' git_extends_def mem_git_sel mem_lookup_defs mem_ref_lookup_def fun_eq_iff)
next
  case (3 r k v)
  show ?case by (simp add: mem_host_def)
next
  case (4 ref)
  show ?case by (simp add: mem_host_def)
next
  case (5 ref n)
  then show ?case by (simp add: mem_host_def)
qed

interpretation mem_branches: ref_dict mem_git mem_host "branches demo_inner"
  by unfold_locales

section \<open>Slices\<close>

text \<open>The guarded arithmetic on \<^verbatim>\<open>size_t\<close> computes the slice of unbounded arithmetic.\<close>

lemma unat_all_ones: "unat (- 1 :: u64) = 2 ^ 64 - 1"
  by (simp add: unsigned_minus_1_eq_mask mask_eq_exp_minus_1)

lemma guard_le: "x \<le> - 1 - n \<longleftrightarrow> unat x + unat n < 2 ^ 64" for x n :: u64
proof -
  have "unat (- 1 - n) = 2 ^ 64 - 1 - unat n" by (simp add: unat_sub word_order.extremum unat_all_ones)
  moreover have "unat n < 2 ^ 64" using unsigned_less [of n, where ?'a = nat] by simp
  ultimately show ?thesis unfolding word_le_nat_alt by linarith
qed

lemma saturated_add: "unat (if x \<le> - 1 - n then x + n else - 1) = min (unat x + unat n) (2 ^ 64 - 1)" for x n :: u64
proof (cases "x \<le> - 1 - n")
  case True
  then show ?thesis using guard_le [of x n] by (simp add: unat_word_ariths)
next
  case False
  then show ?thesis using guard_le [of x n] by (simp add: unat_all_ones)
qed

lemma unat_min: "unat (min x y) = min (unat x) (unat y)" for x y :: u64
  by (simp add: min_def word_le_nat_alt)

lemma slice_eq:
  assumes "length data < 2 ^ 64"
  shows "slice data offset sz =
    (case sz of Some n \<Rightarrow> take (unat n) (drop (unat offset) data) | None \<Rightarrow> drop (unat offset) data)"
proof -
  have L: "unat (word_of_nat (length data) :: u64) = length data"
    using assms by (simp add: unat_of_nat)
  show ?thesis
  proof (cases sz)
    case None
    then show ?thesis by (simp add: slice_def Let_def unat_min L) (simp add: min_def)
  next
    case (Some n)
    have "min (min (min a b + k) c) b - min a b = min k (b - a)" if "b \<le> c" for a b c k :: nat
      using that by (auto simp: min_def)
    then have "slice data offset sz = take (min (unat n) (length data - unat offset)) (drop (min (unat offset) (length data)) data)"
      using assms Some by (simp add: slice_def Let_def unat_min saturated_add L)
    with Some show ?thesis by (simp add: min_def)
  qed
qed

section \<open>Sequences of updates\<close>

fun run_dict :: "('r, 'b) libgit2 \<Rightarrow> 'r host \<Rightarrow> RefDict \<Rightarrow> (string \<times> Fs option) list \<Rightarrow> ('r, unit) vop" where
  "run_dict G H d [] = sreturn ()"
| "run_dict G H d ((name, Some fs) # xs) = sbind (refdict_set G H d name fs) (\<lambda>_. run_dict G H d xs)"
| "run_dict G H d ((name, None) # xs) = sbind (refdict_del G d name) (\<lambda>_. run_dict G H d xs)"

lemma map_of_map_apsnd: "map_of (map (apsnd f) xs) k = map_option f (map_of xs k)"
  by (induction xs) auto

context ref_dict
begin

lemma refdict_del_Inr:
  "refdict_del G d name r = (Inr u, r') \<Longrightarrow> git_moves G (rd_prefix d @ name) r r'"
  using reference_name by (auto simp: refdict_del_def outcome_iff dest!: reference_delete split: option.splits)

lemma run_dict_ops:
  assumes "run_dict G H d xs r = (Inr u, r')" "\<forall>n fs. (n, Some fs) \<in> set xs \<longrightarrow> fs_valid G r fs"
  shows "dict.run_ops (map (apsnd (map_option snapshot_ids)) xs) r r'"
  using assms
proof (induction xs arbitrary: r)
  case (Cons x xs)
  obtain name upd where x: "x = (name, upd)" by (cases x)
  show ?case
  proof (cases upd)
    case (Some fs)
    then obtain t where t: "refdict_set G H d name fs r = (Inr (), t)" "run_dict G H d xs t = (Inr u, r')"
      using Cons.prems(1) x by (auto simp: outcome_iff)
    from refdict_set_Inr [OF t(1)] have "git_extends G r t"
      by (auto dest: git_moves_extends)
    then have "\<forall>n fs. (n, Some fs) \<in> set xs \<longrightarrow> fs_valid G t fs"
      using Cons.prems(2) fs_valid_extends by fastforce
    moreover have "dict_put G H d name (snapshot_ids fs) r t"
      using t(1) Cons.prems(2) x Some unfolding dict_put_def by fastforce
    ultimately show ?thesis using Cons.IH [OF t(2)] x Some by auto
  next
    case None
    then obtain t where t: "refdict_del G d name r = (Inr (), t)" "run_dict G H d xs t = (Inr u, r')"
      using Cons.prems(1) x by (auto simp: outcome_iff)
    from refdict_del_Inr [OF t(1)] have "git_extends G r t"
      by (auto dest: git_moves_extends)
    then have "\<forall>n fs. (n, Some fs) \<in> set xs \<longrightarrow> fs_valid G t fs"
      using Cons.prems(2) fs_valid_extends by fastforce
    moreover have "dict_del G d name r t" using t(1) by (simp add: dict_del_def)
    ultimately show ?thesis using Cons.IH [OF t(2)] x None by auto
  qed
qed simp

lemma refdict_get_find:
  assumes "dict_plain G d r"
  shows "refdict_get G r d name = (case dict_find G d r name of
      None \<Rightarrow> Inl (KeyNotFoundError name)
    | Some (c, t) \<Rightarrow> Inr (make_fs (rd_inner d) c t (Some name) (rd_writable d) None))"
proof (cases "git_reference_lookup G r (rd_prefix d @ name)")
  case (Some ref)
  with assms obtain oid c where "gref_target ref = Inl oid" "git_commit_lookup G r oid = Some c"
    unfolding dict_plain_def by blast
  with Some reference_peel [of r oid ref] show ?thesis
    by (simp add: refdict_get_def dict_find_iff require_ok_def oid_to_hex_def)
qed (simp add: refdict_get_def dict_find_iff)

lemma run_dict_find:
  assumes "dict_plain G d r" "run_dict G H d xs r = (Inr u, r')"
    "\<forall>n fs. (n, Some fs) \<in> set xs \<longrightarrow> fs_valid G r fs"
  shows "dict_plain G d r' \<and> dict_find G d r' name =
    (case map_of (rev xs) name of Some x \<Rightarrow> map_option snapshot_ids x | None \<Rightarrow> dict_find G d r name)"
  using dict.run_ops_find [OF assms(1) _ run_dict_ops [OF assms(2,3)]]
  by (simp add: rev_map map_of_map_apsnd split: option.splits)

end

section \<open>Properties\<close>

text \<open>C20: branches and tags are dictionaries. After any sequence of \<^verbatim>\<open>set\<close> and \<^verbatim>\<open>del\<close> that
  succeeded, a name that was last set resolves to exactly the commit and tree it was set to, a
  name that was last deleted is not found, and every other name resolves as before.\<close>

theorem refdict_last_update_wins:
  assumes "git_refdb G" "dict_plain G d r" "run_dict G H d xs r = (Inr u, r')"
    "\<forall>n fs. (n, Some fs) \<in> set xs \<longrightarrow> fs_valid G r fs"
  shows "refdict_get G r' d name = (case map_of (rev xs) name of
      None \<Rightarrow> refdict_get G r d name
    | Some None \<Rightarrow> Inl (KeyNotFoundError name)
    | Some (Some fs) \<Rightarrow>
        Inr (make_fs (rd_inner d) (commit_oid_hex fs) (tree_oid_hex fs) (Some name) (rd_writable d) None))"
proof -
  have R: "ref_dict G" using assms(1) by (rule ref_dict.intro)
  note ref_dict.run_dict_find [OF R assms(2-4), of name]
  then show ?thesis
    using ref_dict.refdict_get_find [OF R, of d] assms(2)
    by (simp add: snapshot_ids_def split: option.splits)
qed

theorem refdict_last_update_wins_witness:
  "refdict_get mem_git
     (snd (run_dict mem_git mem_host (branches demo_inner) [(''main'', None), (''dev'', Some demo_fs)] demo_mem))
     (branches demo_inner) ''dev'' =
   Inr (make_fs demo_inner ''01010101'' ''010101'' (Some ''dev'') True None)"
proof -
  let ?run = "run_dict mem_git mem_host (branches demo_inner) [(''main'', None), (''dev'', Some demo_fs)] demo_mem"
  have "returned ?run" by code_simp
  then obtain u r' where run: "?run = (Inr u, r')" by (rule returnedE)
  have "git_reference_lookup mem_git demo_mem (''refs/heads/'' @ n) = Some ref \<Longrightarrow>
      gref_target ref = Inl (mem_oid 3)" for n ref
    by (auto simp: mem_git_sel mem_ref_lookup_def demo_mem_def split: if_splits)
  moreover have c: "git_commit_lookup mem_git demo_mem (mem_oid 3) \<noteq> None" by code_simp
  ultimately have "dict_plain mem_git (branches demo_inner) demo_mem"
    unfolding dict_plain_def by (auto simp: branches_def)
  moreover note demo_fs_valid
  ultimately show ?thesis
    using refdict_last_update_wins [OF memory.git_refdb_axioms _ run, of "''dev''"] run
    by (simp add: branches_def demo_fs_def make_fs_def)
qed

text \<open>A tag never moves. Setting a tag that exists is refused and changes nothing; with a
  valid name and a snapshot of the same repository the error is \<^verbatim>\<open>KeyExistsError\<close>.\<close>

lemma tag_never_moves:
  assumes "refdict_contains G r (tags i) name" "refdict_set G H (tags i) name fs r = (res, r')"
  shows "r' = r \<and> (\<exists>e. res = Inl e \<and>
    (validate_ref_name name = Inr () \<and> weakly_canonical H (in_path i) = weakly_canonical H (in_path (inner fs)) \<and>
     commit_hash fs \<noteq> None \<longrightarrow> (\<exists>m. e = KeyExistsError m)))"
proof (cases "validate_ref_name name")
  case (Inl e)
  then have "refdict_set G H (tags i) name fs r = (Inl e, r)" by (simp add: refdict_set_def)
  with assms(2) have "res = Inl e" "r' = r" by auto
  with Inl show ?thesis by simp
next
  case (Inr u)
  with assms show ?thesis unfolding refdict_contains_def refdict_set_def tags_def Let_def
    by (auto split: if_splits option.splits)
qed

lemma tag_never_moves_witness:
  "\<exists>e. refdict_set mem_git mem_host (tags demo_inner) ''v1'' demo_fs
         (mem_ref_write demo_mem ''refs/tags/v1'' (mem_oid 3) []) =
       (Inl e, mem_ref_write demo_mem ''refs/tags/v1'' (mem_oid 3) [])"
proof -
  let ?r = "mem_ref_write demo_mem ''refs/tags/v1'' (mem_oid 3) []"
  have "refdict_contains mem_git ?r (tags demo_inner) ''v1''" by code_simp
  from tag_never_moves [OF this] show ?thesis
    by (metis prod.collapse)
qed

text \<open>C34: creating a repository with a branch gives that branch an initial commit with an empty
  tree and no parent, written by the configured author, makes it the current branch and hands
  out a writable snapshot of it.\<close>

theorem open_creates_branch:
  assumes "git_host G H" "open_store G H path opts r = (Inr i, r')" "\<not> host_exists H r path"
    "oo_branch opts = Some b"
  shows "oo_create opts \<and> current_name G H r' (branches i) = Some b \<and>
    (\<exists>fs. refdict_get G r' (branches i) b = Inr fs \<and> current G H r' (branches i) = Some fs \<and>
       writable fs \<and> ref_name fs = Some b \<and> fs_valid G r' fs \<and>
       (\<forall>p. p \<noteq> [] \<longrightarrow> fs_node G r' fs p = Inr None) \<and>
       parent G r' fs = Inr None \<and> in_signature (inner fs) = open_signature opts)"
proof -
  have R: "git_refdb G" using assms(1) by (rule git_host.axioms(1))
  have O: "git_odb G" using R by (rule git_refdb.axioms(1))
  from git_host.open_store_created [OF assms]
  have i: "oo_create opts" "i = \<lparr>in_path = path, in_signature = open_signature opts\<rparr>"
    and init: "git_host.initialized G b (open_signature opts) r'" by auto
  from init obtain oid c t sg where
      ref: "git_reference_lookup G r' (branch_ref b) = Some \<lparr>gref_name = branch_ref b, gref_target = Inl oid\<rparr>"
      and hd: "git_repository_head G r' = Some \<lparr>gref_name = branch_ref b, gref_target = Inl oid\<rparr>"
      and c: "git_commit_lookup G r' oid = Some c" "git_tree_lookup G r' (gc_tree c) = Some t"
        "\<forall>n. git_tree_entry_byname G t n = None" "gc_parents c = []"
    unfolding git_host.initialized_def [OF assms(1)] by (elim exE conjE) (rule that)
  let ?fs = "make_fs i (git_oid_tostr G oid) (git_oid_tostr G (gc_tree c)) (Some b) True None"
  have peel: "git_reference_peel G r' \<lparr>gref_name = branch_ref b, gref_target = Inl oid\<rparr> = Some oid"
    using git_refdb.reference_peel [OF R] c(1) by simp
  have get: "refdict_get G r' (branches i) b = Inr ?fs"
    using ref peel c(1) by (simp add: refdict_get_def branches_def require_ok_def oid_to_hex_def branch_ref_def)
  have name: "current_name G H r' (branches i) = Some b"
    using hd ref git_host.is_branch [OF assms(1)] git_host.shorthand [OF assms(1), of _ b]
    by (simp add: current_name_def branches_def branch_ref_def Let_def)
  have "fs_node G r' ?fs p = Inr None" if "p \<noteq> []" for p
    using that c(2,3) git_odb.oid_roundtrip [OF O]
    by (cases p) (simp_all add: fs_node_def make_fs_def node_at_def view_def hex_to_oid_def require_ok_def)
  moreover have "parent G r' ?fs = Inr None"
    using c(1,4) git_odb.oid_roundtrip [OF O] git_odb.commit_not_null [OF O c(1)]
    by (simp add: parent_def make_fs_def read_commit_def hex_to_oid_def require_ok_def)
  moreover have "fs_valid G r' ?fs" using c(1) by (auto simp: fs_valid_def make_fs_def)
  ultimately show ?thesis using i get name by (simp add: current_def make_fs_def)
qed

definition demo_open :: OpenOptions where
  "demo_open = \<lparr>oo_create = True, oo_branch = Some ''main'', oo_author = Some ''ada'', oo_email = None,
     oo_compression = None, oo_big_file_threshold = Some 5\<rparr>"

theorem open_creates_branch_witness:
  "case open_store mem_git mem_host ''/repo'' demo_open (mem_empty\<lparr>m_head := []\<rparr>) of
     (Inr i, r') \<Rightarrow> current_name mem_git mem_host r' (branches i) = Some ''main''
   | _ \<Rightarrow> False"
proof -
  let ?run = "open_store mem_git mem_host ''/repo'' demo_open (mem_empty\<lparr>m_head := []\<rparr>)"
  have "returned ?run" by code_simp
  then obtain i r' where run: "?run = (Inr i, r')" by (rule returnedE)
  moreover have "\<not> host_exists mem_host (mem_empty\<lparr>m_head := []\<rparr>) ''/repo''" by (simp add: mem_host_def)
  moreover have "oo_branch demo_open = Some ''main''" by (simp add: demo_open_def)
  ultimately show ?thesis
    using open_creates_branch [OF mem_hosted.git_host_axioms run] by simp
qed

text \<open>C35: a partial read returns exactly the requested slice, without overflow: for any offset
  and size in \<^verbatim>\<open>size_t\<close>, reading a range of a file and reading a range by hash return the bytes
  from the offset on, at most \<^verbatim>\<open>size\<close> many, clipped at the end of the contents.\<close>

theorem read_range_slices:
  assumes "read G r fs path = Inr data" "length data < 2 ^ 64"
    "git_oid_fromstr G h = Some oid" "git_blob_lookup G r oid = Some data"
  shows "read_range G r fs path offset (Some n) = Inr (take (unat n) (drop (unat offset) data)) \<and>
    read_range G r fs path offset None = Inr (drop (unat offset) data) \<and>
    fs_read_by_hash G r h offset (Some n) = Inr (take (unat n) (drop (unat offset) data)) \<and>
    read_by_hash G r h offset n =
      Inr (if n = 0 then drop (unat offset) data else take (unat n) (drop (unat offset) data)) \<and>
    has_hash G r h"
  using assms
  by (simp add: read_range_def fs_read_by_hash_def read_by_hash_def has_hash_def slice_eq
      hex_to_oid_def require_ok_def word_neq_0_conv [symmetric])

theorem read_range_slices_witness:
  "read_range mem_git demo_mem2 demo_fs2 ''a/b'' 1 (Some (- 1)) = Inr [105]"
proof -
  have "read mem_git demo_mem2 demo_fs2 ''a/b'' = Inr [104, 105]"
    "git_oid_fromstr mem_git ''0101010101'' = Some (mem_oid 4)"
    "git_blob_lookup mem_git demo_mem2 (mem_oid 4) = Some [104, 105]"
    by code_simp+
  from read_range_slices [OF this(1) _ this(2,3), of 1 "- 1"] show ?thesis
    by (simp add: unat_all_ones)
qed

end
