(* ===== verification/Vost_Notes.thy ===== *)
theory Vost_Notes
  imports Vost_GitStore Vost_Batch
begin

text \<open>
  \<^verbatim>\<open>cpp/src/notes.cpp\<close>: git notes, texts attached to commits. A namespace is a reference
  \<^verbatim>\<open>refs/notes/<name>\<close> to a commit whose tree maps 40-digit hashes to blobs, either flat or in the
  2/38 fan-out layout other tools write. The namespace implements the dictionary interface
  \<open>key_store\<close>, its batch the interface \<open>staging\<close>.
\<close>

section \<open>Helpers\<close>

definition hex_char :: "char \<Rightarrow> bool" where
  "hex_char c \<longleftrightarrow> (CHR ''0'' \<le> c \<and> c \<le> CHR ''9'') \<or> (CHR ''a'' \<le> c \<and> c \<le> CHR ''f'')"

definition is_hex40 :: "string \<Rightarrow> bool" where
  "is_hex40 s \<longleftrightarrow> length s = 40 \<and> list_all hex_char s"

definition validate_hash :: "string \<Rightarrow> unit res" where
  "validate_hash hash = (if \<not> is_hex40 hash then Inl (InvalidHashError hash) else Inr ())"

section \<open>NoteNamespace\<close>

record NoteNamespace =
  nn_inner :: Inner
  nn_namespace :: string
  nn_ref_name :: string

definition make_namespace :: "Inner \<Rightarrow> string \<Rightarrow> NoteNamespace" where
  "make_namespace i ns = \<lparr>nn_inner = i, nn_namespace = ns, nn_ref_name = ''refs/notes/'' @ ns\<rparr>"

text \<open>The commit a reference peels to, as the hex of its id.\<close>

definition peeled :: "('r, 'b) libgit2 \<Rightarrow> 'r \<Rightarrow> string \<Rightarrow> string option" where
  "peeled G r refname =
     (case git_reference_lookup G r refname of
        None \<Rightarrow> None
      | Some ref \<Rightarrow> map_option (oid_to_hex G) (git_reference_peel G r ref))"

definition resolve_target :: "('r, 'b) libgit2 \<Rightarrow> 'r \<Rightarrow> string \<Rightarrow> string res" where
  "resolve_target G r target =
     (if is_hex40 target then Inr target
      else case peeled G r (''refs/heads/'' @ target) of
        Some h \<Rightarrow> Inr h
      | None \<Rightarrow>
          (case peeled G r (''refs/tags/'' @ target) of
             Some h \<Rightarrow> Inr h
           | None \<Rightarrow> Inl (InvalidHashError target)))"

definition tip_oid :: "('r, 'b) libgit2 \<Rightarrow> 'r \<Rightarrow> NoteNamespace \<Rightarrow> string option" where
  "tip_oid G r ns =
     (case git_reference_lookup G r (nn_ref_name ns) of
        None \<Rightarrow> None
      | Some ref \<Rightarrow> map_option (oid_to_hex G) (git_reference_peel G r ref))"

definition tree_oid :: "('r, 'b) libgit2 \<Rightarrow> 'r \<Rightarrow> NoteNamespace \<Rightarrow> string option res" where
  "tree_oid G r ns =
     (case tip_oid G r ns of
        None \<Rightarrow> Inr None
      | Some tip \<Rightarrow>
          ebind (hex_to_oid G tip) (\<lambda>commit_oid.
            Inr (case git_commit_lookup G r commit_oid of
                   None \<Rightarrow> None | Some c \<Rightarrow> Some (oid_to_hex G (gc_tree c)))))"

text \<open>
  The entry of the 2/38 layout, looked up through a tree or a tree builder. A hash has 40
  digits, so \<^verbatim>\<open>substr(2)\<close> is in range.
\<close>

definition fan_entry :: "('r, 'b) libgit2 \<Rightarrow> 'r \<Rightarrow> (string \<Rightarrow> tree_entry option) \<Rightarrow> string \<Rightarrow> tree_entry option" where
  "fan_entry G r get hash =
     (case get (take 2 hash) of
        None \<Rightarrow> None
      | Some dir_entry \<Rightarrow>
          if te_mode dir_entry = MODE_TREE then
            (case git_tree_lookup G r (te_oid dir_entry) of
               None \<Rightarrow> None
             | Some sub \<Rightarrow> git_tree_entry_byname G sub (drop 2 hash))
          else None)"

definition find_note :: "('r, 'b) libgit2 \<Rightarrow> 'r \<Rightarrow> string \<Rightarrow> string \<Rightarrow> string option res" where
  "find_note G r tree_hex hash =
     ebind (hex_to_oid G tree_hex) (\<lambda>oid.
       Inr (case git_tree_lookup G r oid of
          None \<Rightarrow> None
        | Some t \<Rightarrow>
            (case git_tree_entry_byname G t hash of
               Some entry \<Rightarrow>
                 if te_mode entry \<noteq> MODE_TREE then Some (oid_to_hex G (te_oid entry))
                 else map_option (\<lambda>e. oid_to_hex G (te_oid e)) (fan_entry G r (git_tree_entry_byname G t) hash)
             | None \<Rightarrow> map_option (\<lambda>e. oid_to_hex G (te_oid e)) (fan_entry G r (git_tree_entry_byname G t) hash))))"

definition iter_notes :: "('r, 'b) libgit2 \<Rightarrow> 'r \<Rightarrow> string \<Rightarrow> (string \<times> string) list res" where
  "iter_notes G r tree_hex =
     ebind (hex_to_oid G tree_hex) (\<lambda>oid.
       Inr (case git_tree_lookup G r oid of
          None \<Rightarrow> []
        | Some t \<Rightarrow> concat (map (\<lambda>entry.
            if te_mode entry = MODE_TREE \<and> length (te_name entry) = 2 then
              (case git_tree_lookup G r (te_oid entry) of
                 None \<Rightarrow> []
               | Some sub \<Rightarrow>
                   map (\<lambda>e. (te_name entry @ te_name e, oid_to_hex G (te_oid e)))
                     (filter (\<lambda>e. is_hex40 (te_name entry @ te_name e)) sub))
            else if is_hex40 (te_name entry) then [(te_name entry, oid_to_hex G (te_oid entry))]
            else []) t)))"

section \<open>Building a notes tree\<close>

definition note_builder :: "('r, 'b) libgit2 \<Rightarrow> string option \<Rightarrow> 'r \<Rightarrow> 'b res" where
  "note_builder G base_tree_hex r =
     (case base_tree_hex of
        None \<Rightarrow> require_ok G r ''git_treebuilder_new (notes empty)'' (git_treebuilder_new G r None)
      | Some h \<Rightarrow>
          ebind (hex_to_oid G h) (\<lambda>base_oid.
            case git_tree_lookup G r base_oid of
              Some t \<Rightarrow> require_ok G r ''git_treebuilder_new (notes)'' (git_treebuilder_new G r (Some t))
            | None \<Rightarrow> require_ok G r ''git_treebuilder_new (notes empty)'' (git_treebuilder_new G r None)))"

text \<open>
  The block that takes a note out of its fan-out subtree, in the loops over the deletes and
  over the writes; \<open>tag\<close> is the suffix of the error messages. The subtree is the one
  \<open>fan_entry\<close> looked into.
\<close>

definition drop_fan :: "('r, 'b) libgit2 \<Rightarrow> string \<Rightarrow> string \<Rightarrow> 'b \<Rightarrow> ('r, 'b) vop" where
  "drop_fan G tag hash b =
     sbind (sread (\<lambda>r. require_ok G r (''git_treebuilder_new ('' @ tag @ '')'')
       (case git_treebuilder_get G b (take 2 hash) of
          None \<Rightarrow> None
        | Some dir_entry \<Rightarrow>
            (case git_tree_lookup G r (te_oid dir_entry) of
               None \<Rightarrow> None | Some sub \<Rightarrow> git_treebuilder_new G r (Some sub))))) (\<lambda>sub_b.
     let sub_b' = git_treebuilder_remove G sub_b (drop 2 hash) in
     if git_treebuilder_entrycount G sub_b' = 0
     then sreturn (git_treebuilder_remove G b (take 2 hash))
     else
       sbind (call_write G (''git_treebuilder_write ('' @ tag @ '')'') (\<lambda>r. git_treebuilder_write G r sub_b')) (\<lambda>new_sub_oid.
         sread (\<lambda>r. require_ok G r (''git_treebuilder_insert ('' @ tag @ '')'')
           (git_treebuilder_insert G r b (take 2 hash) new_sub_oid MODE_TREE))))"

definition note_delete :: "('r, 'b) libgit2 \<Rightarrow> string \<Rightarrow> 'b \<Rightarrow> ('r, 'b) vop" where
  "note_delete G hash b r =
     (if git_treebuilder_get G b hash \<noteq> None then (Inr (git_treebuilder_remove G b hash), r)
      else if fan_entry G r (git_treebuilder_get G b) hash \<noteq> None then drop_fan G ''fanout sub'' hash b r
      else (Inl (KeyNotFoundError (''note not found: '' @ hash)), r))"

definition note_write :: "('r, 'b) libgit2 \<Rightarrow> string \<times> string \<Rightarrow> 'b \<Rightarrow> ('r, 'b) vop" where
  "note_write G = (\<lambda>(hash, blob_hex) b.
     sbind (\<lambda>r. if fan_entry G r (git_treebuilder_get G b) hash \<noteq> None
                then drop_fan G ''fanout write'' hash b r else (Inr b, r)) (\<lambda>b'.
     sbind (sread (\<lambda>r. hex_to_oid G blob_hex)) (\<lambda>blob_oid.
       sread (\<lambda>r. require_ok G r ''git_treebuilder_insert (note)''
         (git_treebuilder_insert G r b' hash blob_oid MODE_BLOB)))))"

definition build_note_tree :: "('r, 'b) libgit2 \<Rightarrow> string option \<Rightarrow> (string \<times> string) list \<Rightarrow>
    string list \<Rightarrow> ('r, string) vop" where
  "build_note_tree G base_tree_hex writes deletes =
     sbind (sread (note_builder G base_tree_hex)) (\<lambda>b.
     sbind (sfold (note_delete G) deletes b) (\<lambda>b.
     sbind (sfold (note_write G) writes b) (\<lambda>b.
     sbind (call_write G ''git_treebuilder_write (notes)'' (\<lambda>r. git_treebuilder_write G r b)) (\<lambda>oid.
       sreturn (oid_to_hex G oid)))))"

text \<open>The locked section reads the tip again, but only as the parent of the new commit.\<close>

definition note_commit_body :: "('r, 'b) libgit2 \<Rightarrow> NoteNamespace \<Rightarrow> string \<Rightarrow> string \<Rightarrow> ('r, unit) vop" where
  "note_commit_body G ns new_tree_hex message =
     sbind (sread (\<lambda>r. Inr (case peeled G r (nn_ref_name ns) of Some h \<Rightarrow> h | None \<Rightarrow> []))) (\<lambda>parent_hex.
     sbind (write_commit G new_tree_hex (if parent_hex \<noteq> [] then [parent_hex] else [])
              (in_signature (nn_inner ns)) message) (\<lambda>commit_hex.
     sbind (sread (\<lambda>r. hex_to_oid G commit_hex)) (\<lambda>new_oid.
     sbind (sread (\<lambda>r. Inr (if parent_hex \<noteq> [] then git_reference_lookup G r (nn_ref_name ns) else None))) (\<lambda>found.
       call_effect G ''notes ref update'' (\<lambda>r.
         case found of
           Some existing \<Rightarrow> git_reference_set_target G r existing new_oid message
         | None \<Rightarrow> git_reference_create G r (nn_ref_name ns) new_oid False message)))))"

definition commit_note_tree :: "('r, 'b) libgit2 \<Rightarrow> NoteNamespace \<Rightarrow> string \<Rightarrow> string \<Rightarrow> ('r, unit) vop" where
  "commit_note_tree G ns new_tree_hex message =
     with_repo_lock G (in_path (nn_inner ns)) (note_commit_body G ns new_tree_hex message)"

section \<open>Operations of a namespace\<close>

definition note_get :: "('r, 'b) libgit2 \<Rightarrow> 'r \<Rightarrow> NoteNamespace \<Rightarrow> string \<Rightarrow> string res" where
  "note_get G r ns hash =
     ebind (resolve_target G r hash) (\<lambda>h.
     ebind (tree_oid G r ns) (\<lambda>t. case t of
       None \<Rightarrow> Inl (KeyNotFoundError h)
     | Some t \<Rightarrow>
         ebind (find_note G r t h) (\<lambda>blob_hex. case blob_hex of
           None \<Rightarrow> Inl (KeyNotFoundError h)
         | Some blob_hex \<Rightarrow>
             ebind (hex_to_oid G blob_hex) (\<lambda>blob_oid.
             ebind (require_ok G r ''git_blob_lookup (note)'' (git_blob_lookup G r blob_oid)) (\<lambda>d.
               Inr (from_bytes d))))))"

text \<open>The first critical section of \<^verbatim>\<open>set\<close>: the blob is written and the base tree is read.\<close>

definition note_prepare :: "('r, 'b) libgit2 \<Rightarrow> NoteNamespace \<Rightarrow> string \<Rightarrow> string \<Rightarrow>
    ('r, string \<times> string \<times> string option) vop" where
  "note_prepare G ns hash text =
     sbind (sread (\<lambda>r. resolve_target G r hash)) (\<lambda>h.
     sbind (call_write G ''git_blob_create_from_buffer (note)''
              (\<lambda>r. git_blob_create_from_buffer G r (to_bytes text))) (\<lambda>blob_oid.
     sbind (sread (\<lambda>r. tree_oid G r ns)) (\<lambda>base_tree.
       sreturn (h, oid_to_hex G blob_oid, base_tree))))"

text \<open>The rest of it.\<close>

definition note_finish :: "('r, 'b) libgit2 \<Rightarrow> NoteNamespace \<Rightarrow> string \<times> string \<times> string option \<Rightarrow> ('r, unit) vop" where
  "note_finish G ns = (\<lambda>(h, blob_hex, base_tree).
     sbind (build_note_tree G base_tree [(h, blob_hex)] []) (\<lambda>new_tree.
       commit_note_tree G ns new_tree ''Notes updated''))"

definition note_set :: "('r, 'b) libgit2 \<Rightarrow> NoteNamespace \<Rightarrow> string \<Rightarrow> string \<Rightarrow> ('r, unit) vop" where
  "note_set G ns hash text = sbind (note_prepare G ns hash text) (note_finish G ns)"

definition note_del :: "('r, 'b) libgit2 \<Rightarrow> NoteNamespace \<Rightarrow> string \<Rightarrow> ('r, unit) vop" where
  "note_del G ns hash =
     sbind (sread (\<lambda>r. resolve_target G r hash)) (\<lambda>h.
     sbind (sread (\<lambda>r. tree_oid G r ns)) (\<lambda>base_tree.
       if base_tree = None then sthrow (KeyNotFoundError h)
       else sbind (build_note_tree G base_tree [] [h]) (\<lambda>new_tree.
              commit_note_tree G ns new_tree ''Notes updated'')))"

definition note_has :: "('r, 'b) libgit2 \<Rightarrow> 'r \<Rightarrow> NoteNamespace \<Rightarrow> string \<Rightarrow> bool res" where
  "note_has G r ns hash =
     ebind (resolve_target G r hash) (\<lambda>h.
     ebind (tree_oid G r ns) (\<lambda>t. case t of
       None \<Rightarrow> Inr False
     | Some t \<Rightarrow> ebind (find_note G r t h) (\<lambda>x. Inr (x \<noteq> None))))"

text \<open>
  The overloads for snapshots dereference \<^verbatim>\<open>commit_hash()\<close>, which is undefined behaviour for a
  snapshot without a commit: \<open>None\<close>.
\<close>

definition note_get_fs :: "('r, 'b) libgit2 \<Rightarrow> 'r \<Rightarrow> NoteNamespace \<Rightarrow> Fs \<Rightarrow> string res option" where
  "note_get_fs G r ns fs = map_option (note_get G r ns) (commit_hash fs)"

definition note_set_fs :: "('r, 'b) libgit2 \<Rightarrow> NoteNamespace \<Rightarrow> Fs \<Rightarrow> string \<Rightarrow> ('r, unit) vop option" where
  "note_set_fs G ns fs text = map_option (\<lambda>h. note_set G ns h text) (commit_hash fs)"

definition note_del_fs :: "('r, 'b) libgit2 \<Rightarrow> NoteNamespace \<Rightarrow> Fs \<Rightarrow> ('r, unit) vop option" where
  "note_del_fs G ns fs = map_option (note_del G ns) (commit_hash fs)"

definition note_has_fs :: "('r, 'b) libgit2 \<Rightarrow> 'r \<Rightarrow> NoteNamespace \<Rightarrow> Fs \<Rightarrow> bool res option" where
  "note_has_fs G r ns fs = map_option (note_has G r ns) (commit_hash fs)"

definition note_list :: "('r, 'b) libgit2 \<Rightarrow> 'r \<Rightarrow> NoteNamespace \<Rightarrow> string list res" where
  "note_list G r ns =
     ebind (tree_oid G r ns) (\<lambda>t. case t of
       None \<Rightarrow> Inr []
     | Some t \<Rightarrow> ebind (iter_notes G r t) (\<lambda>notes. Inr (sort (map fst notes))))"

definition note_size :: "('r, 'b) libgit2 \<Rightarrow> 'r \<Rightarrow> NoteNamespace \<Rightarrow> nat res" where
  "note_size G r ns =
     ebind (tree_oid G r ns) (\<lambda>t. case t of
       None \<Rightarrow> Inr 0
     | Some t \<Rightarrow> ebind (iter_notes G r t) (\<lambda>notes. Inr (length notes)))"

definition note_empty :: "('r, 'b) libgit2 \<Rightarrow> 'r \<Rightarrow> NoteNamespace \<Rightarrow> bool res" where
  "note_empty G r ns = ebind (note_size G r ns) (\<lambda>n. Inr (n = 0))"

definition head_commit :: "('r, 'b) libgit2 \<Rightarrow> 'r \<Rightarrow> string res" where
  "head_commit G r =
     (case git_repository_head G r of
        None \<Rightarrow> Inl (NotFoundError ''HEAD not resolvable'')
      | Some head \<Rightarrow>
          (case git_reference_peel G r head of
             None \<Rightarrow> Inl (NotFoundError ''HEAD commit not found'')
           | Some oid \<Rightarrow> Inr (oid_to_hex G oid)))"

definition get_for_current_branch :: "('r, 'b) libgit2 \<Rightarrow> 'r \<Rightarrow> NoteNamespace \<Rightarrow> string res" where
  "get_for_current_branch G r ns = ebind (head_commit G r) (\<lambda>tip_commit. note_get G r ns tip_commit)"

definition set_for_current_branch :: "('r, 'b) libgit2 \<Rightarrow> NoteNamespace \<Rightarrow> string \<Rightarrow> ('r, unit) vop" where
  "set_for_current_branch G ns text =
     sbind (sread (head_commit G)) (\<lambda>tip_commit. note_set G ns tip_commit text)"

section \<open>NotesBatch\<close>

record NotesBatch =
  nb_ns :: NoteNamespace
  nb_writes :: "(string \<times> string) list"
  nb_deletes :: "string list"
  nb_committed :: bool

definition make_notes_batch :: "NoteNamespace \<Rightarrow> NotesBatch" where
  "make_notes_batch ns = \<lparr>nb_ns = ns, nb_writes = [], nb_deletes = [], nb_committed = False\<rparr>"

definition stage_note :: "string \<Rightarrow> string \<Rightarrow> NotesBatch \<Rightarrow> NotesBatch" where
  "stage_note h text b = b\<lparr>nb_deletes := filter (\<lambda>x. x \<noteq> h) (nb_deletes b),
     nb_writes := filter (\<lambda>kv. fst kv \<noteq> h) (nb_writes b) @ [(h, text)]\<rparr>"

definition stage_note_del :: "string \<Rightarrow> NotesBatch \<Rightarrow> NotesBatch" where
  "stage_note_del h b = b\<lparr>nb_writes := filter (\<lambda>kv. fst kv \<noteq> h) (nb_writes b),
     nb_deletes := (if h \<in> set (nb_deletes b) then nb_deletes b else nb_deletes b @ [h])\<rparr>"

definition notes_batch_set :: "('r, 'b) libgit2 \<Rightarrow> 'r \<Rightarrow> NotesBatch \<Rightarrow> string \<Rightarrow> string \<Rightarrow> NotesBatch res" where
  "notes_batch_set G r b hash text =
     (if nb_committed b then Inl BatchClosedError
      else ebind (resolve_target G r hash) (\<lambda>h. Inr (stage_note h text b)))"

definition notes_batch_del :: "('r, 'b) libgit2 \<Rightarrow> 'r \<Rightarrow> NotesBatch \<Rightarrow> string \<Rightarrow> NotesBatch res" where
  "notes_batch_del G r b hash =
     (if nb_committed b then Inl BatchClosedError
      else ebind (resolve_target G r hash) (\<lambda>h. Inr (stage_note_del h b)))"

definition notes_batch_set_fs :: "('r, 'b) libgit2 \<Rightarrow> 'r \<Rightarrow> NotesBatch \<Rightarrow> Fs \<Rightarrow> string \<Rightarrow> NotesBatch res option" where
  "notes_batch_set_fs G r b fs text = map_option (\<lambda>h. notes_batch_set G r b h text) (commit_hash fs)"

definition notes_batch_del_fs :: "('r, 'b) libgit2 \<Rightarrow> 'r \<Rightarrow> NotesBatch \<Rightarrow> Fs \<Rightarrow> NotesBatch res option" where
  "notes_batch_del_fs G r b fs = map_option (notes_batch_del G r b) (commit_hash fs)"

definition write_note_blob :: "('r, 'b) libgit2 \<Rightarrow> string \<times> string \<Rightarrow> ('r, string \<times> string) vop" where
  "write_note_blob G = (\<lambda>(hash, text).
     sbind (call_write G ''git_blob_create_from_buffer (notes batch)''
              (\<lambda>r. git_blob_create_from_buffer G r (to_bytes text))) (\<lambda>blob_oid.
       sreturn (hash, oid_to_hex G blob_oid)))"

definition notes_batch_body :: "('r, 'b) libgit2 \<Rightarrow> NotesBatch \<Rightarrow> ('r, unit) vop" where
  "notes_batch_body G b =
     (if nb_writes b = [] \<and> nb_deletes b = [] then sreturn ()
      else
        sbind (sread (\<lambda>r. tree_oid G r (nb_ns b))) (\<lambda>base_tree.
        sbind (smap (write_note_blob G) (nb_writes b)) (\<lambda>blob_writes.
        sbind (build_note_tree G base_tree blob_writes (nb_deletes b)) (\<lambda>new_tree.
          commit_note_tree G (nb_ns b) new_tree
            (''Notes batch update ('' @ to_string (length (nb_writes b) + length (nb_deletes b)) @ '' changes)'')))))"

definition notes_batch_commit :: "('r, 'b) libgit2 \<Rightarrow> NotesBatch \<Rightarrow> 'r \<Rightarrow> (unit res \<times> NotesBatch) \<times> 'r" where
  "notes_batch_commit G b r =
     (if nb_committed b then ((Inl BatchClosedError, b), r)
      else case notes_batch_body G b r of (res, r') \<Rightarrow> ((res, b\<lparr>nb_committed := True\<rparr>), r'))"

end
