(* ===== verification/Vost_Note_Dict.thy ===== *)
theory Vost_Note_Dict
  imports Vost_Notes
begin

text \<open>
  Correctness of the notes: the effect of each step that builds a notes tree on every note, a
  namespace as a dictionary (\<open>key_store\<close>), the batch as a \<open>staging\<close> area, and the update a
  concurrent writer can lose.
\<close>

section \<open>The notes a tree holds\<close>

definition note_entry :: "('r, 'b) libgit2 \<Rightarrow> 'r \<Rightarrow> (string \<Rightarrow> tree_entry option) \<Rightarrow> string \<Rightarrow> git_oid option" where
  "note_entry G r get hash =
     (case get hash of
        Some e \<Rightarrow> if te_mode e \<noteq> MODE_TREE then Some (te_oid e)
                   else map_option te_oid (fan_entry G r get hash)
      | None \<Rightarrow> map_option te_oid (fan_entry G r get hash))"

text \<open>
  A healthy notes tree: the fan-out subtrees exist, no hash is stored both flat and fanned out,
  and every note has its blob.
\<close>

definition notes_healthy :: "('r, 'b) libgit2 \<Rightarrow> 'r \<Rightarrow> (string \<Rightarrow> tree_entry option) \<Rightarrow> bool" where
  "notes_healthy G r get \<longleftrightarrow>
     (\<forall>n e. get n = Some e \<longrightarrow> te_mode e = MODE_TREE \<longrightarrow> git_tree_lookup G r (te_oid e) \<noteq> None) \<and>
     (\<forall>h. is_hex40 h \<longrightarrow> get h \<noteq> None \<longrightarrow> fan_entry G r get h = None) \<and>
     (\<forall>h oid. is_hex40 h \<longrightarrow> note_entry G r get h = Some oid \<longrightarrow> git_blob_lookup G r oid \<noteq> None)"

lemma healthy_tree:
  "notes_healthy G r get \<Longrightarrow> get n = Some e \<Longrightarrow> te_mode e = MODE_TREE \<Longrightarrow> \<exists>t. git_tree_lookup G r (te_oid e) = Some t"
  by (simp add: notes_healthy_def)

lemma healthy_fan: "notes_healthy G r get \<Longrightarrow> is_hex40 h \<Longrightarrow> get h = Some e \<Longrightarrow> fan_entry G r get h = None"
  by (simp add: notes_healthy_def)

lemma healthy_blob:
  "notes_healthy G r get \<Longrightarrow> is_hex40 h \<Longrightarrow> note_entry G r get h = Some oid \<Longrightarrow> \<exists>d. git_blob_lookup G r oid = Some d"
  by (simp add: notes_healthy_def)

text \<open>The notes tree of a namespace, and the namespaces whose tree is healthy.\<close>

definition note_map :: "('r, 'b) libgit2 \<Rightarrow> 'r \<Rightarrow> NoteNamespace \<Rightarrow> string \<Rightarrow> tree_entry option" where
  "note_map G r ns n =
     (case tree_oid G r ns of
        Inr (Some h) \<Rightarrow>
          (case git_oid_fromstr G h of
             Some oid \<Rightarrow> (case git_tree_lookup G r oid of Some t \<Rightarrow> git_tree_entry_byname G t n | None \<Rightarrow> None)
           | None \<Rightarrow> None)
      | _ \<Rightarrow> None)"

definition note_ref_plain :: "('r, 'b) libgit2 \<Rightarrow> NoteNamespace \<Rightarrow> 'r \<Rightarrow> bool" where
  "note_ref_plain G ns r \<longleftrightarrow> (\<forall>ref. git_reference_lookup G r (nn_ref_name ns) = Some ref \<longrightarrow>
     (\<exists>oid c. gref_target ref = Inl oid \<and> git_commit_lookup G r oid = Some c))"

definition notes_ok :: "('r, 'b) libgit2 \<Rightarrow> NoteNamespace \<Rightarrow> 'r \<Rightarrow> bool" where
  "notes_ok G ns r \<longleftrightarrow> note_ref_plain G ns r \<and>
     (\<forall>h. tree_oid G r ns = Inr (Some h) \<longrightarrow>
        (\<exists>oid t. git_oid_fromstr G h = Some oid \<and> git_tree_lookup G r oid = Some t)) \<and>
     notes_healthy G r (note_map G r ns)"

definition note_find :: "('r, 'b) libgit2 \<Rightarrow> NoteNamespace \<Rightarrow> 'r \<Rightarrow> string \<Rightarrow> string option" where
  "note_find G ns r hash = (case note_get G r ns hash of Inr text \<Rightarrow> Some text | Inl _ \<Rightarrow> None)"

lemma hex40_names: "is_hex40 h \<Longrightarrow> length (take 2 k) \<noteq> length h"
  by (simp add: is_hex40_def)

lemma hex40_not_fan: "is_hex40 h \<Longrightarrow> h \<noteq> take 2 k"
  using hex40_names by metis

context git_odb
begin

lemma fan_entry_extends:
  assumes "notes_healthy G r get" "git_extends G r r'"
  shows "fan_entry G r' get h = fan_entry G r get h"
proof (cases "get (take 2 h)")
  case (Some e)
  show ?thesis
  proof (cases "te_mode e = MODE_TREE")
    case True
    then obtain t where "git_tree_lookup G r (te_oid e) = Some t"
      using healthy_tree [OF assms(1) Some] by blast
    with git_extends_tree [OF assms(2) this] Some True show ?thesis by (simp add: fan_entry_def)
  qed (simp add: fan_entry_def Some)
qed (simp add: fan_entry_def)

lemma note_entry_extends:
  "notes_healthy G r get \<Longrightarrow> git_extends G r r' \<Longrightarrow> note_entry G r' get h = note_entry G r get h"
  unfolding note_entry_def by (simp only: fan_entry_extends [of r get r'])

lemma notes_healthy_extends:
  assumes "notes_healthy G r get" "git_extends G r r'"
  shows "notes_healthy G r' get"
  unfolding notes_healthy_def fan_entry_extends [OF assms] note_entry_extends [OF assms]
proof (intro conjI allI impI)
  fix n e
  assume "get n = Some e" "te_mode e = MODE_TREE"
  from healthy_tree [OF assms(1) this] obtain t where "git_tree_lookup G r (te_oid e) = Some t" ..
  from git_extends_tree [OF assms(2) this] show "git_tree_lookup G r' (te_oid e) \<noteq> None" by simp
next
  fix h
  assume "is_hex40 h" "get h \<noteq> None"
  then obtain e where "get h = Some e" by blast
  from healthy_fan [OF assms(1) \<open>is_hex40 h\<close> this] show "fan_entry G r get h = None" .
next
  fix h oid
  assume "is_hex40 h" "note_entry G r get h = Some oid"
  from healthy_blob [OF assms(1) this] obtain d where "git_blob_lookup G r oid = Some d" ..
  from git_extends_blob [OF assms(2) this] show "git_blob_lookup G r' oid \<noteq> None" by simp
qed

text \<open>Taking a note out of its subtree changes no other note.\<close>

lemma drop_fan_Inr:
  assumes "notes_healthy G r (git_treebuilder_get G b)" "fan_entry G r (git_treebuilder_get G b) h = Some e0"
    "drop_fan G tag h b r = (Inr b', r')"
  shows "git_adds G r r' \<and> (\<forall>n. n \<noteq> take 2 h \<longrightarrow> git_treebuilder_get G b' n = git_treebuilder_get G b n) \<and>
    (\<forall>n e. git_treebuilder_get G b' n = Some e \<longrightarrow> te_mode e = MODE_TREE \<longrightarrow> git_tree_lookup G r' (te_oid e) \<noteq> None) \<and>
    (\<forall>k. fan_entry G r' (git_treebuilder_get G b') k =
       (if take 2 k = take 2 h \<and> drop 2 k = drop 2 h then None else fan_entry G r (git_treebuilder_get G b) k))"
proof -
  from assms(2) obtain d t where d: "git_treebuilder_get G b (take 2 h) = Some d" "te_mode d = MODE_TREE"
      "git_tree_lookup G r (te_oid d) = Some t"
    by (auto simp: fan_entry_def split: option.splits if_splits)
  from assms(3) d obtain sb where sb: "git_treebuilder_new G r (Some t) = Some sb"
    by (auto simp: drop_fan_def outcome_iff Let_def)
  let ?sb = "git_treebuilder_remove G sb (drop 2 h)"
  have get: "git_treebuilder_get G ?sb n = (if n = drop 2 h then None else git_tree_entry_byname G t n)" for n
    using builder_remove builder_new_tree [OF d(3) sb] by simp
  have H: "\<forall>n e. git_treebuilder_get G b n = Some e \<longrightarrow> te_mode e = MODE_TREE \<longrightarrow> git_tree_lookup G r (te_oid e) \<noteq> None"
    using healthy_tree [OF assms(1)] by fastforce
  show ?thesis
  proof (cases "git_treebuilder_entrycount G ?sb = 0")
    case True
    with assms(3) d sb have b': "b' = git_treebuilder_remove G b (take 2 h)" "r' = r"
      by (auto simp: drop_fan_def outcome_iff Let_def)
    from True have none: "n \<noteq> drop 2 h \<Longrightarrow> git_tree_entry_byname G t n = None" for n
      using get [of n] unfolding builder_count by simp
    have "fan_entry G r (git_treebuilder_get G b') k =
       (if take 2 k = take 2 h \<and> drop 2 k = drop 2 h then None else fan_entry G r (git_treebuilder_get G b) k)" for k
      using d none [of "drop 2 k"] by (auto simp: fan_entry_def b' builder_remove)
    then show ?thesis using H by (simp add: b' builder_remove)
  next
    case False
    with assms(3) d sb obtain oid where
        w: "git_treebuilder_write G r ?sb = Some (oid, r')"
        "git_treebuilder_insert G r' b (take 2 h) oid MODE_TREE = Some b'"
      by (auto simp: drop_fan_def outcome_iff Let_def)
    from builder_write [OF w(1)] obtain t' where
        t': "git_tree_lookup G r' oid = Some t'" "\<And>n. git_tree_entry_byname G t' n = git_treebuilder_get G ?sb n"
        "git_adds G r r'" by blast
    have ins: "git_treebuilder_get G b' n =
        (if n = take 2 h then Some \<lparr>te_name = take 2 h, te_oid = oid, te_mode = MODE_TREE\<rparr> else git_treebuilder_get G b n)" for n
      using builder_insert [OF w(2)] by simp
    note ext = git_adds_extends [OF t'(3)]
    have "fan_entry G r' (git_treebuilder_get G b') k =
       (if take 2 k = take 2 h \<and> drop 2 k = drop 2 h then None else fan_entry G r (git_treebuilder_get G b) k)" for k
    proof (cases "take 2 k = take 2 h")
      case True
      with d t' get show ?thesis by (simp add: fan_entry_def ins)
    next
      case False
      then have "fan_entry G r' (git_treebuilder_get G b') k = fan_entry G r' (git_treebuilder_get G b) k"
        by (simp add: fan_entry_def ins)
      with False fan_entry_extends [OF assms(1) ext] show ?thesis by simp
    qed
    moreover have "git_tree_lookup G r' (te_oid e) \<noteq> None"
      if "git_treebuilder_get G b' n = Some e" "te_mode e = MODE_TREE" for n e
      using that H t'(1) git_extends_tree [OF ext] by (fastforce simp: ins split: if_splits)
    ultimately show ?thesis using t'(3) ins by simp
  qed
qed


lemma hex40_eq: "take 2 k = take 2 h \<and> drop 2 k = drop 2 h \<longleftrightarrow> k = h" for k h :: string
  by (metis append_take_drop_id)

text \<open>The effect of the two steps of the loops, on every note.\<close>

definition notes_updated :: "'r \<Rightarrow> 'b \<Rightarrow> 'r \<Rightarrow> 'b \<Rightarrow> string \<Rightarrow> git_oid option \<Rightarrow> bool" where
  "notes_updated r b r' b' h x \<longleftrightarrow>
     git_adds G r r' \<and> notes_healthy G r' (git_treebuilder_get G b') \<and>
     (\<forall>k. is_hex40 k \<longrightarrow> note_entry G r' (git_treebuilder_get G b') k =
        (if k = h then x else note_entry G r (git_treebuilder_get G b) k))"

lemma notes_updatedI:
  assumes h: "is_hex40 h" and ok: "notes_healthy G r (git_treebuilder_get G b)" and ext: "git_adds G r r'"
    and trees: "\<And>n e. git_treebuilder_get G b' n = Some e \<Longrightarrow> te_mode e = MODE_TREE \<Longrightarrow> git_tree_lookup G r' (te_oid e) \<noteq> None"
    and flat: "\<And>k. is_hex40 k \<Longrightarrow> k \<noteq> h \<Longrightarrow> git_treebuilder_get G b' k = git_treebuilder_get G b k"
    and fan: "\<And>k. is_hex40 k \<Longrightarrow> fan_entry G r' (git_treebuilder_get G b') k =
        (if k = h then None else fan_entry G r (git_treebuilder_get G b) k)"
    and new: "case x of None \<Rightarrow> git_treebuilder_get G b' h = None
      | Some oid \<Rightarrow> git_treebuilder_get G b' h = Some \<lparr>te_name = h, te_oid = oid, te_mode = MODE_BLOB\<rparr> \<and>
          git_blob_lookup G r' oid \<noteq> None"
  shows "notes_updated r b r' b' h x"
proof -
  have entry: "note_entry G r' (git_treebuilder_get G b') k =
      (if k = h then x else note_entry G r (git_treebuilder_get G b) k)" if "is_hex40 k" for k
    using new fan [OF that] flat [OF that] h
    by (cases "k = h"; cases x) (simp_all add: note_entry_def split: option.splits)
  have "fan_entry G r' (git_treebuilder_get G b') k = None" if "is_hex40 k" "git_treebuilder_get G b' k \<noteq> None" for k
    using healthy_fan [OF ok] that flat [of k] fan [of k] by (cases "k = h") auto
  moreover have "git_blob_lookup G r' oid \<noteq> None"
    if "is_hex40 k" "note_entry G r' (git_treebuilder_get G b') k = Some oid" for k oid
  proof (cases "k = h")
    case True
    with that entry [of k] new show ?thesis by (cases x) auto
  next
    case False
    with that entry [of k] have "note_entry G r (git_treebuilder_get G b) k = Some oid" by simp
    with healthy_blob [OF ok that(1)] obtain d where "git_blob_lookup G r oid = Some d" by blast
    with git_extends_blob [OF git_adds_extends [OF ext]] show ?thesis by simp
  qed
  ultimately show ?thesis using entry ext trees unfolding notes_updated_def notes_healthy_def by blast
qed

lemma note_delete_Inr:
  assumes "is_hex40 h" "notes_healthy G r (git_treebuilder_get G b)" "note_delete G h b r = (Inr b', r')"
  shows "notes_updated r b r' b' h None"
proof (cases "git_treebuilder_get G b h")
  case (Some e)
  with assms(3) have b': "b' = git_treebuilder_remove G b h" "r' = r" by (auto simp: note_delete_def)
  have fan: "fan_entry G r (git_treebuilder_get G b') k = fan_entry G r (git_treebuilder_get G b) k" for k
    using hex40_not_fan [OF assms(1), of k] by (auto simp: fan_entry_def b' builder_remove)
  show ?thesis unfolding b'(2)
  proof (rule notes_updatedI [OF assms(1,2)])
    fix n e
    assume "git_treebuilder_get G b' n = Some e" "te_mode e = MODE_TREE"
    with healthy_tree [OF assms(2)] show "git_tree_lookup G r (te_oid e) \<noteq> None"
      by (auto simp: b'(1) builder_remove split: if_splits)
  next
    fix k
    show "fan_entry G r (git_treebuilder_get G b') k = (if k = h then None else fan_entry G r (git_treebuilder_get G b) k)"
      using fan healthy_fan [OF assms(2,1) Some] by simp
  qed (simp_all add: b'(1) builder_remove)
next
  case None
  with assms(3) obtain e0 where f: "fan_entry G r (git_treebuilder_get G b) h = Some e0"
      "drop_fan G ''fanout sub'' h b r = (Inr b', r')"
    by (auto simp: note_delete_def split: if_splits)
  from drop_fan_Inr [OF assms(2) f] show ?thesis
    using assms(1,2) None hex40_not_fan by (intro notes_updatedI) (auto simp: hex40_eq)
qed


lemma note_write_Inr:
  assumes "is_hex40 h" "notes_healthy G r (git_treebuilder_get G b)"
    "note_write G (h, git_oid_tostr G oid) b r = (Inr b', r')" "git_blob_lookup G r oid \<noteq> None"
  shows "notes_updated r b r' b' h (Some oid)"
proof -
  from assms(3) obtain b1 where
      1: "(if fan_entry G r (git_treebuilder_get G b) h \<noteq> None then drop_fan G ''fanout write'' h b r else (Inr b, r)) = (Inr b1, r')"
      and 2: "git_treebuilder_insert G r' b1 h oid MODE_BLOB = Some b'"
    by (auto simp: note_write_def outcome_iff oid_roundtrip)
  have m: "git_adds G r r'" "\<And>n. n \<noteq> take 2 h \<Longrightarrow> git_treebuilder_get G b1 n = git_treebuilder_get G b n"
    "\<And>n e. git_treebuilder_get G b1 n = Some e \<Longrightarrow> te_mode e = MODE_TREE \<Longrightarrow> git_tree_lookup G r' (te_oid e) \<noteq> None"
    "\<And>k. fan_entry G r' (git_treebuilder_get G b1) k = (if k = h then None else fan_entry G r (git_treebuilder_get G b) k)"
    using drop_fan_Inr [OF assms(2), of h _ "''fanout write''" b1 r'] 1 healthy_tree [OF assms(2)]
    by (auto simp: hex40_eq split: if_splits)
  have ins: "git_treebuilder_get G b' n = (if n = h then Some \<lparr>te_name = h, te_oid = oid, te_mode = MODE_BLOB\<rparr>
      else git_treebuilder_get G b1 n)" for n
    using builder_insert [OF 2] by simp
  have fan: "fan_entry G r' (git_treebuilder_get G b') k = fan_entry G r' (git_treebuilder_get G b1) k" for k
    using hex40_not_fan [OF assms(1), of k] by (auto simp: fan_entry_def ins)
  from assms(4) obtain d where "git_blob_lookup G r oid = Some d" by blast
  then have blob: "git_blob_lookup G r' oid = Some d" by (rule git_extends_blob [OF git_adds_extends [OF m(1)]])
  show ?thesis
  proof (rule notes_updatedI [OF assms(1,2) m(1)])
    fix k
    assume "is_hex40 k" "k \<noteq> h"
    then show "git_treebuilder_get G b' k = git_treebuilder_get G b k"
      using m(2) [of k] hex40_not_fan by (simp add: ins)
  next
    fix n e
    assume "git_treebuilder_get G b' n = Some e" "te_mode e = MODE_TREE"
    with m(3) [of n e] show "git_tree_lookup G r' (te_oid e) \<noteq> None" by (auto simp: ins split: if_splits)
  qed (simp_all add: ins fan m(4) blob)
qed

text \<open>The two loops.\<close>

lemma note_deletes_Inr:
  assumes "\<forall>h\<in>set hs. is_hex40 h" "notes_healthy G r (git_treebuilder_get G b)"
    "sfold (note_delete G) hs b r = (Inr b', r')"
  shows "git_adds G r r' \<and> notes_healthy G r' (git_treebuilder_get G b') \<and>
    (\<forall>k. is_hex40 k \<longrightarrow> note_entry G r' (git_treebuilder_get G b') k =
       (if k \<in> set hs then None else note_entry G r (git_treebuilder_get G b) k))"
  using assms
proof (induction hs arbitrary: b r)
  case (Cons h hs)
  then obtain b1 r1 where s: "note_delete G h b r = (Inr b1, r1)" "sfold (note_delete G) hs b1 r1 = (Inr b', r')"
    by (auto simp: outcome_iff)
  have u: "notes_updated r b r1 b1 h None" using note_delete_Inr Cons.prems s(1) by simp
  with Cons.IH [OF _ _ s(2)] Cons.prems(1) show ?case
    unfolding notes_updated_def using git_adds_trans by fastforce
qed simp

lemma note_writes_Inr:
  assumes "\<forall>w\<in>set ws. is_hex40 (fst w) \<and> git_blob_lookup G r (snd w) \<noteq> None" "notes_healthy G r (git_treebuilder_get G b)"
    "sfold (note_write G) (map (apsnd (git_oid_tostr G)) ws) b r = (Inr b', r')"
  shows "git_adds G r r' \<and> notes_healthy G r' (git_treebuilder_get G b') \<and>
    (\<forall>k. is_hex40 k \<longrightarrow> note_entry G r' (git_treebuilder_get G b') k =
       (case map_of (rev ws) k of Some oid \<Rightarrow> Some oid | None \<Rightarrow> note_entry G r (git_treebuilder_get G b) k))"
  using assms
proof (induction ws arbitrary: b r)
  case (Cons w ws)
  obtain h oid where w: "w = (h, oid)" by (cases w)
  with Cons.prems(3) obtain b1 r1 where
      s: "note_write G (h, git_oid_tostr G oid) b r = (Inr b1, r1)"
        "sfold (note_write G) (map (apsnd (git_oid_tostr G)) ws) b1 r1 = (Inr b', r')"
    by (auto simp: outcome_iff)
  have u: "notes_updated r b r1 b1 h (Some oid)" using note_write_Inr Cons.prems s(1) w by simp
  then have ext: "git_adds G r r1" by (simp add: notes_updated_def)
  have "\<forall>w\<in>set ws. is_hex40 (fst w) \<and> git_blob_lookup G r1 (snd w) \<noteq> None"
    using Cons.prems(1) git_extends_blob [OF git_adds_extends [OF ext]] by fastforce
  from Cons.IH [OF this _ s(2)] u git_adds_trans [OF ext] show ?case
    unfolding notes_updated_def by (auto simp: w map_add_def split: option.splits)
qed simp


lemma tree_oid_cases:
  obtains "tree_oid G r ns = Inr None" | toid where "tree_oid G r ns = Inr (Some (git_oid_tostr G toid))"
proof (cases "Option.bind (git_reference_lookup G r (nn_ref_name ns)) (git_reference_peel G r)")
  case None
  then have "tree_oid G r ns = Inr None"
    by (auto simp: tree_oid_def tip_oid_def split: option.splits)
  then show ?thesis by (rule that)
next
  case (Some oid)
  then have tip: "tip_oid G r ns = Some (git_oid_tostr G oid)"
    by (auto simp: tip_oid_def oid_to_hex_def split: option.splits bind_splits)
  show ?thesis
    by (cases "git_commit_lookup G r oid")
      (use that in \<open>auto simp: tree_oid_def tip hex_to_oid_def oid_roundtrip oid_to_hex_def\<close>)
qed

text \<open>The builder starts with the notes of the base tree, read in an earlier world.\<close>

lemma note_builder_Inr:
  assumes "notes_ok G ns r" "tree_oid G r ns = Inr base" "git_adds G r r1" "note_builder G base r1 = Inr b"
  shows "git_treebuilder_get G b = note_map G r ns"
proof (cases base)
  case None
  with assms(4) builder_new_empty [of r1 b] have "git_treebuilder_get G b n = None" for n
    by (simp add: note_builder_def require_ok_Inr)
  with None assms(2) show ?thesis by (simp add: note_map_def fun_eq_iff)
next
  case (Some h)
  with assms(1,2) obtain oid t where t: "git_oid_fromstr G h = Some oid" "git_tree_lookup G r oid = Some t"
    unfolding notes_ok_def by blast
  have t1: "git_tree_lookup G r1 oid = Some t" using git_extends_tree [OF git_adds_extends [OF assms(3)] t(2)] .
  with assms(4) Some t(1) have "git_treebuilder_new G r1 (Some t) = Some b"
    by (simp add: note_builder_def hex_to_oid_def require_ok_Inr)
  from builder_new_tree [OF t1 this] Some assms(2) t show ?thesis by (simp add: note_map_def fun_eq_iff)
qed

lemma build_note_tree_Inr:
  assumes "notes_ok G ns r" "tree_oid G r ns = Inr base" "git_adds G r r1"
    "\<forall>w\<in>set ws. is_hex40 (fst w) \<and> git_blob_lookup G r1 (snd w) \<noteq> None" "\<forall>h\<in>set ds. is_hex40 h"
    "build_note_tree G base (map (apsnd (git_oid_tostr G)) ws) ds r1 = (Inr h, r')"
  shows "git_adds G r1 r' \<and> (\<exists>toid t. h = git_oid_tostr G toid \<and> git_tree_lookup G r' toid = Some t \<and>
    notes_healthy G r' (git_tree_entry_byname G t) \<and>
    (\<forall>k. is_hex40 k \<longrightarrow> note_entry G r' (git_tree_entry_byname G t) k =
       (case map_of (rev ws) k of
          Some oid \<Rightarrow> Some oid
        | None \<Rightarrow> if k \<in> set ds then None else note_entry G r (note_map G r ns) k)))"
proof -
  from assms(6) obtain b b1 b2 r2 r3 toid where
      b: "note_builder G base r1 = Inr b" and d: "sfold (note_delete G) ds b r1 = (Inr b1, r2)"
      and w: "sfold (note_write G) (map (apsnd (git_oid_tostr G)) ws) b1 r2 = (Inr b2, r3)"
      and t: "git_treebuilder_write G r3 b2 = Some (toid, r')" and h: "h = git_oid_tostr G toid"
    by (auto simp: build_note_tree_def outcome_iff oid_to_hex_def)
  note get = note_builder_Inr [OF assms(1-3) b]
  have ok: "notes_healthy G r (note_map G r ns)" using assms(1) unfolding notes_ok_def by simp
  note ok1 = notes_healthy_extends [OF ok git_adds_extends [OF assms(3)]]
  note D = note_deletes_Inr [OF assms(5) _ d, unfolded get, OF ok1]
  then have e2: "git_adds G r1 r2" by simp
  have "\<forall>w\<in>set ws. is_hex40 (fst w) \<and> git_blob_lookup G r2 (snd w) \<noteq> None"
    using assms(4) git_extends_blob [OF git_adds_extends [OF e2]] by fastforce
  from note_writes_Inr [OF this _ w] D
  have W: "git_adds G r2 r3" "notes_healthy G r3 (git_treebuilder_get G b2)"
    "\<And>k. is_hex40 k \<Longrightarrow> note_entry G r3 (git_treebuilder_get G b2) k =
       (case map_of (rev ws) k of Some oid \<Rightarrow> Some oid | None \<Rightarrow>
         if k \<in> set ds then None else note_entry G r1 (note_map G r ns) k)"
    by (simp_all split: option.splits)
  from builder_write [OF t] obtain t' where
      t': "git_tree_lookup G r' toid = Some t'" "git_tree_entry_byname G t' = git_treebuilder_get G b2" "git_adds G r3 r'"
    by (auto simp: fun_eq_iff)
  note e = git_adds_extends [OF t'(3)]
  have "git_adds G r1 r'" using git_adds_trans [OF e2 git_adds_trans [OF W(1) t'(3)]] .
  with W t' h notes_healthy_extends [OF W(2) e] note_entry_extends [OF W(2) e]
    note_entry_extends [OF ok git_adds_extends [OF assms(3)]]
  show ?thesis by (metis (no_types, lifting))
qed

lemma note_get_entry:
  assumes "notes_ok G ns r" "is_hex40 k"
  shows "note_get G r ns k = (case note_entry G r (note_map G r ns) k of
      None \<Rightarrow> Inl (KeyNotFoundError k)
    | Some oid \<Rightarrow> Inr (from_bytes (the (git_blob_lookup G r oid))))"
proof (rule tree_oid_cases [of r ns])
  assume "tree_oid G r ns = Inr None"
  then show ?thesis using assms(2)
    by (simp add: note_get_def resolve_target_def note_entry_def note_map_def fan_entry_def)
next
  fix toid
  assume t: "tree_oid G r ns = Inr (Some (git_oid_tostr G toid))"
  with assms(1) obtain t' where t': "git_tree_lookup G r toid = Some t'"
    unfolding notes_ok_def by (auto simp: oid_roundtrip)
  have m: "note_map G r ns = git_tree_entry_byname G t'"
    using t t' by (simp add: note_map_def oid_roundtrip fun_eq_iff)
  have "find_note G r (git_oid_tostr G toid) k = Inr (map_option (git_oid_tostr G) (note_entry G r (note_map G r ns) k))"
    using t' by (auto simp: find_note_def note_entry_def m hex_to_oid_def oid_roundtrip oid_to_hex_def
        option.map_comp comp_def split: option.splits)
  moreover have "note_entry G r (note_map G r ns) k = Some oid \<Longrightarrow> \<exists>d. git_blob_lookup G r oid = Some d" for oid
    using healthy_blob [of G r "note_map G r ns" k oid] assms unfolding notes_ok_def by simp
  ultimately show ?thesis using t assms(2)
    by (auto simp: note_get_def resolve_target_def hex_to_oid_def oid_roundtrip require_ok_def split: option.splits)
qed

end

context git_refdb
begin

lemma commit_note_tree_Inr:
  assumes "commit_note_tree G ns (git_oid_tostr G toid) msg r = (Inr u, r')"
  shows "git_extends G r r' \<and> tree_oid G r' ns = Inr (Some (git_oid_tostr G toid)) \<and> note_ref_plain G ns r' \<and>
    (\<forall>n. n \<noteq> nn_ref_name ns \<longrightarrow> git_reference_lookup G r' n = git_reference_lookup G r n)"
proof -
  from with_repo_lock_Inr [OF assms [unfolded commit_note_tree_def]]
  obtain par ch r1 noid found where
      w: "write_commit G (git_oid_tostr G toid) par (in_signature (nn_inner ns)) msg r = (Inr ch, r1)"
      and n: "git_oid_fromstr G ch = Some noid"
      and found: "found \<in> {None, git_reference_lookup G r1 (nn_ref_name ns)}"
      and s: "(case found of Some existing \<Rightarrow> git_reference_set_target G r1 existing noid msg
         | None \<Rightarrow> git_reference_create G r1 (nn_ref_name ns) noid False msg) = Some r'"
    unfolding note_commit_body_def outcome_iff sread_apply by (fastforce simp: outcome_iff split: if_splits)
  from write_commit_Inr [OF w] n obtain c where
      c: "git_adds G r r1" "git_commit_lookup G r1 noid = Some c" "gc_tree c = toid"
    by (auto simp: oid_roundtrip)
  have moved: "git_reference_lookup G r' (nn_ref_name ns) = Some \<lparr>gref_name = nn_ref_name ns, gref_target = Inl noid\<rparr> \<and>
      git_moves G (nn_ref_name ns) r1 r'"
  proof (cases found)
    case None
    with s reference_create show ?thesis by simp
  next
    case (Some existing)
    with found reference_name [of r1 "nn_ref_name ns" existing] have "gref_name existing = nn_ref_name ns" by simp
    with reference_set_target [of r1 existing noid msg r'] s Some show ?thesis by simp
  qed
  have c': "git_commit_lookup G r' noid = Some c"
    using git_extends_commit [OF git_moves_extends c(2)] moved by blast
  then have "git_reference_peel G r' \<lparr>gref_name = nn_ref_name ns, gref_target = Inl noid\<rparr> = Some noid"
    using reference_peel by simp
  then have "tree_oid G r' ns = Inr (Some (git_oid_tostr G toid))"
    using moved c' c(3) by (simp add: tree_oid_def tip_oid_def hex_to_oid_def oid_roundtrip oid_to_hex_def)
  moreover have "git_extends G r r'"
    using git_extends_trans [OF git_adds_extends [OF c(1)] git_moves_extends] moved by blast
  moreover have "note_ref_plain G ns r'" using moved c' by (simp add: note_ref_plain_def)
  ultimately show ?thesis using moved git_adds_reference [OF c(1)] by (simp add: git_moves_def)
qed

text \<open>Objects written in between leave the namespace alone.\<close>

lemma notes_ok_adds:
  assumes "notes_ok G ns r" "git_adds G r r'"
  shows "notes_ok G ns r' \<and> tree_oid G r' ns = tree_oid G r ns \<and>
    (\<forall>k. note_entry G r' (note_map G r' ns) k = note_entry G r (note_map G r ns) k)"
proof -
  note ext = git_adds_extends [OF assms(2)]
  have tree: "tree_oid G r' ns = tree_oid G r ns" and plain: "note_ref_plain G ns r'"
  proof -
    have "tree_oid G r' ns = tree_oid G r ns \<and> note_ref_plain G ns r'"
    proof (cases "git_reference_lookup G r (nn_ref_name ns)")
      case None
      then show ?thesis
        by (simp add: tree_oid_def tip_oid_def note_ref_plain_def git_adds_reference [OF assms(2)])
    next
      case (Some ref)
      with assms(1) obtain oid c where oc: "gref_target ref = Inl oid" "git_commit_lookup G r oid = Some c"
        unfolding notes_ok_def note_ref_plain_def by blast
      note c' = git_extends_commit [OF ext oc(2)]
      from reference_peel [of r oid ref] reference_peel [of r' oid ref] Some oc c' show ?thesis
        by (simp add: tree_oid_def tip_oid_def note_ref_plain_def git_adds_reference [OF assms(2)]
            hex_to_oid_def oid_to_hex_def oid_roundtrip)
    qed
    then show "tree_oid G r' ns = tree_oid G r ns" "note_ref_plain G ns r'" by auto
  qed
  have base: "\<exists>oid t. git_oid_fromstr G h = Some oid \<and> git_tree_lookup G r oid = Some t \<and> git_tree_lookup G r' oid = Some t"
    if "tree_oid G r ns = Inr (Some h)" for h
  proof -
    from assms(1) that obtain oid t where t: "git_oid_fromstr G h = Some oid" "git_tree_lookup G r oid = Some t"
      unfolding notes_ok_def by blast
    with git_extends_tree [OF ext t(2)] show ?thesis by simp
  qed
  have m: "note_map G r' ns = note_map G r ns"
    using base by (rule_tac tree_oid_cases [of r ns]) (fastforce simp: note_map_def tree fun_eq_iff)+
  have h: "notes_healthy G r (note_map G r ns)" using assms(1) by (simp add: notes_ok_def)
  have "notes_ok G ns r'"
    using plain base notes_healthy_extends [OF h ext] by (fastforce simp: notes_ok_def tree m)
  with tree m note_entry_extends [OF h ext] show ?thesis by simp
qed

text \<open>Building the tree on the notes of an earlier world and committing it.\<close>

lemma notes_committed:
  assumes "notes_ok G ns r" "tree_oid G r ns = Inr base" "git_adds G r r1"
    "\<forall>w\<in>set ws. is_hex40 (fst w) \<and> git_blob_lookup G r1 (snd w) \<noteq> None" "\<forall>h\<in>set ds. is_hex40 h"
    "build_note_tree G base (map (apsnd (git_oid_tostr G)) ws) ds r1 = (Inr h, r2)"
    "commit_note_tree G ns h msg r2 = (Inr u, r')"
  shows "notes_ok G ns r' \<and> git_extends G r1 r' \<and> git_extends G r r' \<and>
    (\<forall>k. is_hex40 k \<longrightarrow> note_entry G r' (note_map G r' ns) k =
       (case map_of (rev ws) k of
          Some oid \<Rightarrow> Some oid
        | None \<Rightarrow> if k \<in> set ds then None else note_entry G r (note_map G r ns) k))"
proof -
  from build_note_tree_Inr [OF assms(1-6)] obtain toid t where
      t: "h = git_oid_tostr G toid" "git_tree_lookup G r2 toid = Some t"
        "notes_healthy G r2 (git_tree_entry_byname G t)" "git_adds G r1 r2"
      and e: "\<And>k. is_hex40 k \<Longrightarrow> note_entry G r2 (git_tree_entry_byname G t) k = (case map_of (rev ws) k of
          Some oid \<Rightarrow> Some oid
        | None \<Rightarrow> if k \<in> set ds then None else note_entry G r (note_map G r ns) k)"
    by blast
  from commit_note_tree_Inr [OF assms(7) [unfolded t(1)]]
  have c: "git_extends G r2 r'" "tree_oid G r' ns = Inr (Some (git_oid_tostr G toid))"
    "note_ref_plain G ns r'" by auto
  have m: "note_map G r' ns = git_tree_entry_byname G t"
    using c(2) git_extends_tree [OF c(1) t(2)] by (simp add: note_map_def oid_roundtrip fun_eq_iff)
  have "notes_ok G ns r'"
    using c(2,3) git_extends_tree [OF c(1) t(2)] notes_healthy_extends [OF t(3) c(1)]
    by (simp add: notes_ok_def m oid_roundtrip)
  moreover have "git_extends G r1 r'" using git_extends_trans [OF git_adds_extends [OF t(4)] c(1)] .
  ultimately show ?thesis
    using e note_entry_extends [OF t(3) c(1)] m git_extends_trans [OF git_adds_extends [OF assms(3)]] by simp
qed

end

section \<open>A namespace is a dictionary\<close>

fun run_notes :: "('r, 'b) libgit2 \<Rightarrow> NoteNamespace \<Rightarrow> (string \<times> string option) list \<Rightarrow> ('r, unit) vop" where
  "run_notes G ns [] = sreturn ()"
| "run_notes G ns ((hash, Some text) # xs) = sbind (note_set G ns hash text) (\<lambda>_. run_notes G ns xs)"
| "run_notes G ns ((hash, None) # xs) = sbind (note_del G ns hash) (\<lambda>_. run_notes G ns xs)"

locale note_space = git_refdb G for G :: "('r, 'b) libgit2" +
  fixes ns :: NoteNamespace
begin

lemma note_find_entry:
  "notes_ok G ns r \<Longrightarrow> is_hex40 k \<Longrightarrow> note_find G ns r k =
    map_option (\<lambda>oid. from_bytes (the (git_blob_lookup G r oid))) (note_entry G r (note_map G r ns) k)"
  by (simp add: note_find_def note_get_entry split: option.splits)

lemma note_find_kept:
  assumes "notes_ok G ns r" "notes_ok G ns r'" "git_extends G r r'" "is_hex40 k"
    "note_entry G r' (note_map G r' ns) k = note_entry G r (note_map G r ns) k"
  shows "note_find G ns r' k = note_find G ns r k"
proof (cases "note_entry G r (note_map G r ns) k")
  case (Some oid)
  with healthy_blob [of G r "note_map G r ns" k oid] assms(1,4) obtain d where "git_blob_lookup G r oid = Some d"
    unfolding notes_ok_def by blast
  with git_extends_blob [OF assms(3) this] Some assms show ?thesis by (simp add: note_find_entry)
qed (use assms in \<open>simp add: note_find_entry\<close>)

lemma note_set_Inr:
  assumes "notes_ok G ns r" "is_hex40 h" "note_set G ns h text r = (Inr u, r')"
  shows "notes_ok G ns r' \<and> note_find G ns r' h = Some text \<and>
    (\<forall>k. is_hex40 k \<longrightarrow> k \<noteq> h \<longrightarrow> note_find G ns r' k = note_find G ns r k)"
proof -
  from assms(2,3) obtain blob r1 base tree r2 where
      b: "git_blob_create_from_buffer G r (to_bytes text) = Some (blob, r1)"
      and t: "tree_oid G r1 ns = Inr base"
      and build: "build_note_tree G base [(h, git_oid_tostr G blob)] [] r1 = (Inr tree, r2)"
      and commit: "commit_note_tree G ns tree ''Notes updated'' r2 = (Inr u, r')"
    by (auto simp: note_set_def note_prepare_def note_finish_def resolve_target_def outcome_iff oid_to_hex_def)
  from blob_create [OF b] have blob: "git_blob_lookup G r1 blob = Some (to_bytes text)" "git_adds G r r1" by auto
  note A = notes_ok_adds [OF assms(1) blob(2)]
  have "\<forall>w\<in>set [(h, blob)]. is_hex40 (fst w) \<and> git_blob_lookup G r1 (snd w) \<noteq> None"
    using assms(2) blob(1) by simp
  from notes_committed [OF _ t git_adds_refl this _ _ commit, of "[]"] build A
  have C: "notes_ok G ns r'" "git_extends G r1 r'"
    "\<And>k. is_hex40 k \<Longrightarrow> note_entry G r' (note_map G r' ns) k =
      (if k = h then Some blob else note_entry G r (note_map G r ns) k)"
    by simp_all
  from git_extends_blob [OF C(2) blob(1)] C(1,3) assms(2) have "note_find G ns r' h = Some text"
    by (simp add: note_find_entry)
  with C note_find_kept [OF assms(1) C(1)] git_extends_trans [OF git_adds_extends [OF blob(2)] C(2)]
  show ?thesis by simp
qed

lemma note_del_Inr:
  assumes "notes_ok G ns r" "is_hex40 h" "note_del G ns h r = (Inr u, r')"
  shows "notes_ok G ns r' \<and> note_find G ns r' h = None \<and>
    (\<forall>k. is_hex40 k \<longrightarrow> k \<noteq> h \<longrightarrow> note_find G ns r' k = note_find G ns r k)"
proof -
  from assms(2,3) obtain base tree r2 where
      t: "tree_oid G r ns = Inr base"
      and build: "build_note_tree G base (map (apsnd (git_oid_tostr G)) []) [h] r = (Inr tree, r2)"
      and commit: "commit_note_tree G ns tree ''Notes updated'' r2 = (Inr u, r')"
    by (auto simp: note_del_def resolve_target_def outcome_iff split: if_splits)
  from notes_committed [OF assms(1) t git_adds_refl _ _ build commit] assms(2)
  have C: "notes_ok G ns r'" "git_extends G r r'"
    "\<And>k. is_hex40 k \<Longrightarrow> note_entry G r' (note_map G r' ns) k = (if k = h then None else note_entry G r (note_map G r ns) k)"
    by simp_all
  with assms(2) note_find_kept [OF assms(1) C(1,2)] show ?thesis by (simp add: note_find_entry)
qed

end

sublocale note_space \<subseteq> noted: key_store "notes_ok G ns" is_hex40 "note_find G ns"
  "\<lambda>k v r r'. note_set G ns k v r = (Inr (), r')" "\<lambda>k r r'. note_del G ns k r = (Inr (), r')"
proof (unfold_locales, goal_cases)
  case (1 s k l v s')
  then show ?case using note_set_Inr [OF 1(1,2,4)] by simp
next
  case (2 s k v s')
  then show ?case using note_set_Inr by blast
next
  case (3 s k l s')
  then show ?case using note_del_Inr [OF 3(1,2,4)] by simp
next
  case (4 s k s')
  then show ?case using note_del_Inr by blast
qed

context note_space
begin

lemma run_notes_ops: "run_notes G ns xs r = (Inr u, r') \<Longrightarrow> noted.run_ops xs r r'"
proof (induction xs arbitrary: r)
  case (Cons x xs)
  then show ?case by (cases x; cases "snd x") (auto simp: outcome_iff)
qed simp

lemma run_notes_find:
  assumes "notes_ok G ns r" "run_notes G ns xs r = (Inr u, r')" "\<forall>x\<in>set xs. is_hex40 (fst x)" "is_hex40 h"
  shows "notes_ok G ns r' \<and> note_find G ns r' h = (case map_of (rev xs) h of Some x \<Rightarrow> x | None \<Rightarrow> note_find G ns r h)"
  by (rule noted.run_ops_find [OF assms(1,3) run_notes_ops [OF assms(2)] assms(4)])

end

interpretation mem_notes: note_space mem_git "make_namespace demo_inner ''commits''"
  by unfold_locales

section \<open>The batch of notes\<close>

definition notes_pending :: "NotesBatch \<Rightarrow> string \<Rightarrow> string staged option" where
  "notes_pending b h =
     (case map_of (nb_writes b) h of
        Some text \<Rightarrow> Some (Put text)
      | None \<Rightarrow> if h \<in> set (nb_deletes b) then Some Del else None)"

interpretation notes_batch: staging stage_note stage_note_del notes_pending
proof
  show "notes_pending (stage_note k v s) l = (if l = k then Some (Put v) else notes_pending s l)" for k v s l
    by (auto simp: notes_pending_def stage_note_def map_of_filter_neq map_add_def split: option.splits)
  show "notes_pending (stage_note_del k s) l = (if l = k then Some Del else notes_pending s l)" for k s l
    by (auto simp: notes_pending_def stage_note_del_def map_of_filter_neq split: option.splits)
qed

fun run_notes_batch :: "('r, 'b) libgit2 \<Rightarrow> 'r \<Rightarrow> (string \<times> string staged) list \<Rightarrow> NotesBatch \<Rightarrow> NotesBatch res" where
  "run_notes_batch G r [] b = Inr b"
| "run_notes_batch G r ((h, Put text) # xs) b = ebind (notes_batch_set G r b h text) (run_notes_batch G r xs)"
| "run_notes_batch G r ((h, Del) # xs) b = ebind (notes_batch_del G r b h) (run_notes_batch G r xs)"

definition notes_batch_ok :: "NotesBatch \<Rightarrow> bool" where
  "notes_batch_ok b \<longleftrightarrow> distinct (map fst (nb_writes b)) \<and>
     (\<forall>w\<in>set (nb_writes b). is_hex40 (fst w)) \<and> (\<forall>h\<in>set (nb_deletes b). is_hex40 h)"

lemma stage_note_ns [simp]: "nb_ns (stage_note h tx b) = nb_ns b" "nb_ns (stage_note_del h b) = nb_ns b"
  by (simp_all add: stage_note_def stage_note_del_def)

lemma run_notes_batch_Inr:
  assumes "run_notes_batch G r xs b = Inr b'" "\<forall>x\<in>set xs. is_hex40 (fst x)" "notes_batch_ok b"
  shows "b' = fold notes_batch.stage xs b \<and> notes_batch_ok b' \<and> nb_ns b' = nb_ns b"
  using assms
proof (induction G r xs b rule: run_notes_batch.induct)
  case (2 G r h tx xs b)
  have "notes_batch_ok (stage_note h tx b)"
    using 2 by (auto simp: notes_batch_ok_def stage_note_def distinct_map_filter)
  with 2 show ?case
    by (auto simp: notes_batch_set_def resolve_target_def notes_batch.stage_def split: if_splits)
next
  case (3 G r h xs b)
  have "notes_batch_ok (stage_note_del h b)"
    using 3 by (auto simp: notes_batch_ok_def stage_note_del_def distinct_map_filter)
  with 3 show ?case
    by (auto simp: notes_batch_del_def resolve_target_def notes_batch.stage_def split: if_splits)
qed simp

lemma list_all2_map_of:
  "list_all2 (\<lambda>w x. fst x = fst w \<and> Q (snd w) (snd x)) ws xs \<Longrightarrow> rel_option Q (map_of ws k) (map_of xs k)"
  by (induction rule: list_all2_induct) auto

context note_space
begin

lemma write_note_blobs:
  assumes "smap (write_note_blob G) ws r = (Inr bw, r')"
  shows "git_adds G r r' \<and> (\<exists>xs. bw = map (apsnd (git_oid_tostr G)) xs \<and>
    list_all2 (\<lambda>w x. fst x = fst w \<and> git_blob_lookup G r' (snd x) = Some (to_bytes (snd w))) ws xs)"
  using assms
proof (induction ws arbitrary: r bw)
  case (Cons w ws)
  obtain h tx where w: "w = (h, tx)" by (cases w)
  with Cons.prems obtain oid r1 bw' where
      1: "git_blob_create_from_buffer G r (to_bytes tx) = Some (oid, r1)"
      and 2: "smap (write_note_blob G) ws r1 = (Inr bw', r')"
      and bw: "bw = (h, git_oid_tostr G oid) # bw'"
    by (auto simp: outcome_iff oid_to_hex_def write_note_blob_def [of G])
  from Cons.IH [OF 2] obtain xs where
      xs: "git_adds G r1 r'" "bw' = map (apsnd (git_oid_tostr G)) xs"
        "list_all2 (\<lambda>w x. fst x = fst w \<and> git_blob_lookup G r' (snd x) = Some (to_bytes (snd w))) ws xs" by blast
  from blob_create [OF 1] git_extends_blob [OF git_adds_extends [OF xs(1)]]
  have "git_blob_lookup G r' oid = Some (to_bytes tx)" "git_adds G r r1" by auto
  with xs bw w git_adds_trans show ?case
    by (intro conjI exI [of _ "(h, oid) # xs"]) auto
qed simp

lemma notes_batch_body_Inr:
  assumes "notes_ok G ns r" "notes_batch_ok b" "nb_ns b = ns" "notes_batch_body G b r = (Inr u, r')" "is_hex40 k"
  shows "notes_ok G ns r' \<and> note_find G ns r' k = (case notes_pending b k of
      Some (Put text) \<Rightarrow> Some text | Some Del \<Rightarrow> None | None \<Rightarrow> note_find G ns r k)"
proof (cases "nb_writes b = [] \<and> nb_deletes b = []")
  case True
  with assms show ?thesis by (simp add: notes_batch_body_def notes_pending_def)
next
  case False
  with assms(3,4) obtain base bw r1 tree r2 msg where
      t: "tree_oid G r ns = Inr base"
      and s: "smap (write_note_blob G) (nb_writes b) r = (Inr bw, r1)"
      and build: "build_note_tree G base bw (nb_deletes b) r1 = (Inr tree, r2)"
      and commit: "commit_note_tree G ns tree msg r2 = (Inr u, r')"
    by (auto simp: notes_batch_body_def outcome_iff)
  from write_note_blobs [OF s] obtain xs where
      xs: "git_adds G r r1" "bw = map (apsnd (git_oid_tostr G)) xs"
        "list_all2 (\<lambda>w x. fst x = fst w \<and> git_blob_lookup G r1 (snd x) = Some (to_bytes (snd w))) (nb_writes b) xs" by blast
  have "\<forall>x\<in>set xs. is_hex40 (fst x) \<and> git_blob_lookup G r1 (snd x) \<noteq> None"
    using xs(3) assms(2) unfolding notes_batch_ok_def
    by (fastforce simp: list_all2_conv_all_nth in_set_conv_nth)
  with notes_committed [OF assms(1) t xs(1) _ _ build [unfolded xs(2)] commit] assms(2)
  have C: "notes_ok G ns r'" "git_extends G r1 r'" "git_extends G r r'"
    "note_entry G r' (note_map G r' ns) k = (case map_of (rev xs) k of Some oid \<Rightarrow> Some oid
        | None \<Rightarrow> if k \<in> set (nb_deletes b) then None else note_entry G r (note_map G r ns) k)"
    using assms(5) by (auto simp: notes_batch_ok_def)
  have R: "rel_option (\<lambda>t oid. git_blob_lookup G r1 oid = Some (to_bytes t)) (map_of (nb_writes b) k) (map_of (rev xs) k)"
    using list_all2_map_of [OF list_all2_rev [THEN iffD2, OF xs(3)], of k] map_of_rev_distinct [of "nb_writes b"] assms(2)
    by (simp add: notes_batch_ok_def)
  show ?thesis
  proof (cases "map_of (nb_writes b) k")
    case (Some tx)
    with R obtain oid where "map_of (rev xs) k = Some oid" "git_blob_lookup G r1 oid = Some (to_bytes tx)"
      by (auto simp: option_rel_Some1)
    with C git_extends_blob [OF C(2)] Some assms(5) show ?thesis by (simp add: note_find_entry notes_pending_def)
  next
    case None
    with R have "map_of (rev xs) k = None" by simp
    with C None assms note_find_kept [OF assms(1) C(1,3) assms(5)] show ?thesis
      by (simp add: note_find_entry notes_pending_def)
  qed
qed

end

section \<open>A lost update\<close>

definition demo_hash :: string where
  "demo_hash = replicate 40 (CHR ''a'')"

definition demo_ns :: NoteNamespace where
  "demo_ns = make_namespace demo_inner ''commits''"

lemma demo_hex40: "is_hex40 demo_hash" by code_simp

lemma notes_ok_fresh: "git_reference_lookup G r (nn_ref_name ns) = None \<Longrightarrow> notes_ok G ns r"
  by (simp add: notes_ok_def note_ref_plain_def tree_oid_def tip_oid_def notes_healthy_def note_map_def
      note_entry_def fan_entry_def)

lemma demo_notes_ok: "notes_ok mem_git demo_ns demo_mem"
  by (rule notes_ok_fresh) (simp add: mem_git_sel mem_ref_lookup_def demo_mem_def demo_ns_def make_namespace_def)

text \<open>
  The section under the repository lock does not compare the tip with the commit the tree was
  built from. Two writers that both read the base before either commits both succeed, and the
  note of the first one is gone.
\<close>

definition demo_hash2 :: string where
  "demo_hash2 = replicate 40 (CHR ''b'')"

text \<open>The world after the first writer read its base, after the second one, and at the end.\<close>

definition note_world1 :: mem where
  "note_world1 = demo_mem\<lparr>m_objs := demo_objs @ [MBlob (to_bytes ''one'')]\<rparr>"

definition note_world2 :: mem where
  "note_world2 = mem_ref_write (note_world1\<lparr>m_objs := demo_objs @
     [MBlob (to_bytes ''one''), MBlob (to_bytes ''two''),
      MTree [\<lparr>te_name = demo_hash2, te_oid = mem_oid 5, te_mode = MODE_BLOB\<rparr>],
      MCommit \<lparr>gc_message = Some ''Notes updated'', gc_author = Some demo_author, gc_time = 7,
        gc_tree = mem_oid 6, gc_parents = []\<rparr>]\<rparr>) ''refs/notes/commits'' (mem_oid 7) ''Notes updated''"

definition note_world3 :: mem where
  "note_world3 = mem_ref_write (note_world2\<lparr>m_objs := m_objs note_world2 @
     [MTree [\<lparr>te_name = demo_hash, te_oid = mem_oid 4, te_mode = MODE_BLOB\<rparr>],
      MCommit \<lparr>gc_message = Some ''Notes updated'', gc_author = Some demo_author, gc_time = 7,
        gc_tree = mem_oid 8, gc_parents = [mem_oid 7]\<rparr>]\<rparr>) ''refs/notes/commits'' (mem_oid 9) ''Notes updated''"

lemma lost_update_1:
  "note_prepare mem_git demo_ns demo_hash ''one'' demo_mem = (Inr (demo_hash, ''0101010101'', None), note_world1)"
  by code_simp

lemma lost_update_2: "note_set mem_git demo_ns demo_hash2 ''two'' note_world1 = (Inr (), note_world2)"
  by code_simp

lemma lost_update_3: "note_finish mem_git demo_ns (demo_hash, ''0101010101'', None) note_world2 = (Inr (), note_world3)"
  by code_simp

lemma lost_update_4: "note_find mem_git demo_ns note_world2 demo_hash2 = Some ''two''"
  by code_simp

lemma lost_update_5: "note_find mem_git demo_ns note_world3 demo_hash = Some ''one''"
  by code_simp

lemma lost_update_6: "note_find mem_git demo_ns note_world3 demo_hash2 = None"
  by code_simp

lemma notes_lost_update:
  "note_prepare mem_git demo_ns demo_hash ''one'' demo_mem = (Inr (demo_hash, ''0101010101'', None), note_world1) \<and>
   note_set mem_git demo_ns demo_hash2 ''two'' note_world1 = (Inr (), note_world2) \<and>
   note_find mem_git demo_ns note_world2 demo_hash2 = Some ''two'' \<and>
   note_finish mem_git demo_ns (demo_hash, ''0101010101'', None) note_world2 = (Inr (), note_world3) \<and>
   note_find mem_git demo_ns note_world3 demo_hash = Some ''one'' \<and>
   note_find mem_git demo_ns note_world3 demo_hash2 = None"
  by (intro conjI lost_update_1 lost_update_2 lost_update_3 lost_update_4 lost_update_5 lost_update_6)

section \<open>Properties\<close>

text \<open>C21: a namespace of notes is a dictionary, whatever layout its tree has. After any sequence
  of \<^verbatim>\<open>set\<close> and \<^verbatim>\<open>del\<close> that succeeded, a hash that was last set reads back exactly its text, a hash
  that was last deleted has no note, every other hash reads as before, and the tree is still
  healthy.\<close>

theorem notes_last_update_wins:
  assumes "git_refdb G" "notes_ok G ns r" "run_notes G ns xs r = (Inr u, r')"
    "\<forall>x\<in>set xs. is_hex40 (fst x)" "is_hex40 h"
  shows "notes_ok G ns r' \<and> note_find G ns r' h = (case map_of (rev xs) h of Some x \<Rightarrow> x | None \<Rightarrow> note_find G ns r h)"
proof -
  have N: "note_space G" using assms(1) by (rule note_space.intro)
  from note_space.run_notes_find [OF N assms(2-5)] show ?thesis .
qed

theorem notes_last_update_wins_witness: "note_find mem_git demo_ns note_world2 demo_hash2 = Some ''two''"
proof -
  have "is_hex40 demo_hash2" by code_simp
  moreover have "notes_ok mem_git demo_ns note_world1"
    by (rule notes_ok_fresh)
      (simp add: mem_git_sel mem_ref_lookup_def note_world1_def demo_mem_def demo_ns_def make_namespace_def)
  moreover have "run_notes mem_git demo_ns [(demo_hash2, Some ''two'')] note_world1 = (Inr (), note_world2)"
    using lost_update_2 by simp
  ultimately show ?thesis
    using notes_last_update_wins [OF memory.git_refdb_axioms] by fastforce
qed

text \<open>C22: the commit of a batch of notes applies what was staged, the last operation on a hash
  winning, and leaves every other note alone.\<close>

theorem notes_batch_last_wins:
  assumes "git_refdb G" "notes_ok G ns r" "run_notes_batch G r0 xs (make_notes_batch ns) = Inr b"
    "\<forall>x\<in>set xs. is_hex40 (fst x)" "notes_batch_commit G b r = ((Inr u, b'), r')" "is_hex40 h"
  shows "nb_committed b' \<and> notes_ok G ns r' \<and> note_find G ns r' h = (case map_of (rev xs) h of
      Some (Put text) \<Rightarrow> Some text | Some Del \<Rightarrow> None | None \<Rightarrow> note_find G ns r h)"
proof -
  have N: "note_space G" using assms(1) by (rule note_space.intro)
  have ok0: "notes_batch_ok (make_notes_batch ns)" by (simp add: notes_batch_ok_def make_notes_batch_def)
  note S = run_notes_batch_Inr [OF assms(3,4) ok0]
  have p: "notes_pending b h = map_of (rev xs) h"
    using S notes_batch.last_wins [of xs "make_notes_batch ns" h]
    by (simp add: notes_pending_def make_notes_batch_def split: option.splits)
  from assms(5) have "notes_batch_body G b r = (Inr u, r')" "nb_committed b'"
    by (auto simp: notes_batch_commit_def split: if_splits prod.splits)
  moreover from S have "notes_batch_ok b" "nb_ns b = ns" by (auto simp: make_notes_batch_def)
  ultimately show ?thesis
    using note_space.notes_batch_body_Inr [OF N assms(2) _ _ _ assms(6), of b u r'] p by simp
qed

definition note_tree_objs :: "mem_obj list" where
  "note_tree_objs = demo_objs @ [MBlob (to_bytes ''new''),
     MTree [\<lparr>te_name = demo_hash, te_oid = mem_oid 4, te_mode = MODE_BLOB\<rparr>]]"

definition note_world4 :: mem where
  "note_world4 = mem_ref_write (demo_mem\<lparr>m_objs := note_tree_objs @
     [MCommit \<lparr>gc_message = Some ''Notes batch update (1 changes)'', gc_author = Some demo_author, gc_time = 7,
        gc_tree = mem_oid 5, gc_parents = []\<rparr>]\<rparr>) ''refs/notes/commits'' (mem_oid 6) ''Notes batch update (1 changes)''"

lemma demo_note_blobs:
  "smap (write_note_blob mem_git) [(demo_hash, ''new'')] demo_mem =
     (Inr [(demo_hash, ''0101010101'')], demo_mem\<lparr>m_objs := demo_objs @ [MBlob (to_bytes ''new'')]\<rparr>)"
  by code_simp

lemma demo_note_build:
  "build_note_tree mem_git None [(demo_hash, ''0101010101'')] [] (demo_mem\<lparr>m_objs := demo_objs @ [MBlob (to_bytes ''new'')]\<rparr>) =
     (Inr ''010101010101'', demo_mem\<lparr>m_objs := note_tree_objs\<rparr>)"
  by code_simp

lemma demo_note_commit:
  "note_commit_body mem_git demo_ns ''010101010101'' ''Notes batch update (1 changes)'' (demo_mem\<lparr>m_objs := note_tree_objs\<rparr>) =
     (Inr (), note_world4)"
  by code_simp

theorem notes_batch_last_wins_witness: "note_find mem_git demo_ns note_world4 demo_hash = Some ''new''"
proof -
  let ?b = "stage_note demo_hash ''new'' (make_notes_batch demo_ns)"
  have run: "run_notes_batch mem_git demo_mem [(demo_hash, Del), (demo_hash, Put ''new'')] (make_notes_batch demo_ns) = Inr ?b"
    using demo_hex40 by (simp add: notes_batch_del_def notes_batch_set_def resolve_target_def
        make_notes_batch_def stage_note_del_def stage_note_def)
  have t: "tree_oid mem_git demo_mem demo_ns = Inr None" "to_string 1 = ''1''" by code_simp+
  have "notes_batch_body mem_git ?b demo_mem = (Inr (), note_world4)"
    using demo_note_blobs demo_note_build demo_note_commit t
    by (simp add: notes_batch_body_def stage_note_def make_notes_batch_def commit_note_tree_def
        with_repo_lock_free [OF mem_lock_free] del: smap.simps)
  then have c: "notes_batch_commit mem_git ?b demo_mem = ((Inr (), ?b\<lparr>nb_committed := True\<rparr>), note_world4)"
    by (simp add: notes_batch_commit_def stage_note_def make_notes_batch_def)
  from notes_batch_last_wins [OF memory.git_refdb_axioms demo_notes_ok run _ c demo_hex40] demo_hex40
  show ?thesis by simp
qed

end
