(* ===== verification/Vost_Copy.thy ===== *)
theory Vost_Copy
  imports Vost_Disk Vost_GitStore
begin

text \<open>
  \<^verbatim>\<open>cpp/src/copy.cpp\<close>: copying and synchronising between the local disk and a snapshot, copying
  between snapshots, and the gitignore-style exclude filter. The disk is the parameter \<open>disk\<close>
  of \<open>Vost_Disk\<close>, over the same world as the repository.
\<close>

section \<open>Options\<close>

record CopyInOptions =
  ci_include :: "string list option"
  ci_exclude :: "string list option"
  ci_msg :: "string option"
  ci_dry_run :: bool
  ci_checksum :: bool
  ci_parents :: "string list"

record CopyOutOptions =
  co_include :: "string list option"
  co_exclude :: "string list option"

record SyncOptions =
  so_include :: "string list option"
  so_exclude :: "string list option"
  so_message :: "string option"
  so_dry_run :: bool
  so_checksum :: bool
  so_parents :: "string list"

record CopyFromRefOptions =
  cf_delete_extra :: bool
  cf_dry_run :: bool
  cf_message :: "string option"
  cf_parents :: "string list"

section \<open>Shared pieces\<close>

text \<open>\<^verbatim>\<open>dest.empty() ? "" : paths::normalize(dest)\<close>.\<close>

definition normalize_dest :: "string \<Rightarrow> string res" where
  "normalize_dest dest = (if dest = [] then Inr [] else normalize dest)"

text \<open>A path relative to the directory that was walked.\<close>

definition strip_dest :: "string \<Rightarrow> string \<Rightarrow> string" where
  "strip_dest dest_norm rel_path =
     (if dest_norm \<noteq> [] \<and> length rel_path > length dest_norm + 1
      then drop (length dest_norm + 1) rel_path else rel_path)"

definition store_path :: "string \<Rightarrow> string \<Rightarrow> string" where
  "store_path dest_norm rel = (if dest_norm = [] then rel else dest_norm @ CHR ''/'' # rel)"

text \<open>\<^verbatim>\<open>fe.file_type = *file_type_from_mode(mode)\<close>.\<close>

definition file_entry :: "string \<Rightarrow> u32 \<Rightarrow> string option \<Rightarrow> FileEntry res" where
  "file_entry path mode src =
     (case file_type_from_mode mode of
        None \<Rightarrow> Inl Undefined_behaviour
      | Some ft \<Rightarrow> Inr \<lparr>fe_path = path, fe_file_type = ft, fe_src = src\<rparr>)"

text \<open>The files of the repository below the destination, keyed by their relative path.\<close>

definition dest_tree :: "('r, 'b) libgit2 \<Rightarrow> 'r \<Rightarrow> string \<Rightarrow> string \<Rightarrow> string res" where
  "dest_tree G r tree_hex dest_norm =
     (if dest_norm = [] then Inr tree_hex
      else ebind (lookup G r tree_hex dest_norm) (\<lambda>entry.
        Inr (case entry of Some (h, mode) \<Rightarrow> if mode = MODE_TREE then h else [] | None \<Rightarrow> [])))"

definition existing_files :: "('r, 'b) libgit2 \<Rightarrow> 'r \<Rightarrow> string \<Rightarrow> string \<Rightarrow> (string \<times> u32) std_map res" where
  "existing_files G r tree_hex dest_norm =
     ebind (dest_tree G r tree_hex dest_norm) (\<lambda>sub_tree.
       if sub_tree = [] then Inr []
       else ebind (walk_tree G r sub_tree dest_norm) (\<lambda>walked.
         Inr (fold (\<lambda>(rel_path, we). smap_set (strip_dest dest_norm rel_path) (we_oid we, we_mode we)) walked [])))"

text \<open>One file on disk: its mode and contents. A file that does not open counts as empty.\<close>

definition disk_file :: "'r disk \<Rightarrow> 'r \<Rightarrow> string \<Rightarrow> byte list \<times> u32" where
  "disk_file D r full =
     (let mode = mode_from_disk D r full in
      (if mode = MODE_LINK then to_bytes (disk_read_symlink D r full)
       else case disk_open D r full of Some d \<Rightarrow> d | None \<Rightarrow> [], mode))"

text \<open>The comparison of a file with the entry of the repository writes a blob to get its hash.\<close>

definition same_blob :: "('r, 'b) libgit2 \<Rightarrow> byte list \<times> u32 \<Rightarrow> string \<times> u32 \<Rightarrow> ('r, bool) vop" where
  "same_blob G dm old r =
     (case git_blob_create_from_buffer G r (fst dm) of
        None \<Rightarrow> (Inr False, r)
      | Some (blob_oid, r') \<Rightarrow> (Inr (git_oid_tostr G blob_oid = fst old \<and> snd dm = snd old), r'))"

section \<open>copy_in\<close>

definition copy_in_step :: "('r, 'b) libgit2 \<Rightarrow> 'r disk \<Rightarrow> CopyInOptions \<Rightarrow> string \<Rightarrow> string \<Rightarrow>
    (string \<times> u32) std_map \<Rightarrow> string \<Rightarrow> tree_write list \<times> FileEntry list \<Rightarrow>
    ('r, tree_write list \<times> FileEntry list) vop" where
  "copy_in_step G D opts src dest_norm existing rel acc =
     (if \<not> matches_filters rel (ci_include opts) (ci_exclude opts) then sreturn acc
      else
        let full = path_join src rel in
        sbind (sread (\<lambda>r. Inr (disk_file D r full))) (\<lambda>dm.
        sbind (case map_of existing rel of
                 Some old \<Rightarrow> if ci_checksum opts then same_blob G dm old else sreturn False
               | None \<Rightarrow> sreturn False) (\<lambda>unchanged.
          if unchanged then sreturn acc
          else sbind (sread (\<lambda>r. file_entry (store_path dest_norm rel) (snd dm) (Some full))) (\<lambda>fe.
            sreturn (fst acc @ [(store_path dest_norm rel, dm)], snd acc @ [fe])))))"

definition copy_in :: "('r, 'b) libgit2 \<Rightarrow> 'r disk \<Rightarrow> Fs \<Rightarrow> string \<Rightarrow> string \<Rightarrow> CopyInOptions \<Rightarrow>
    ('r, ChangeReport \<times> Fs) vop" where
  "copy_in G D fs src dest opts =
     sbind (sread (\<lambda>r. require_writable fs ''copy_in'')) (\<lambda>_.
     sbind (sread (\<lambda>r. require_tree fs)) (\<lambda>tree_hex.
     sbind (sread (\<lambda>r. normalize_dest dest)) (\<lambda>dest_norm.
     sbind (sread (\<lambda>r. Inr (disk_walk D r src))) (\<lambda>disk_files.
     sbind (if ci_checksum opts then sread (\<lambda>r. existing_files G r tree_hex dest_norm) else sreturn []) (\<lambda>existing.
     sbind (sfold (copy_in_step G D opts src dest_norm existing) disk_files ([], [])) (\<lambda>(writes, added).
       let report = empty_report\<lparr>cr_add := added\<rparr> in
       if ci_dry_run opts \<or> writes = [] then sreturn (report, fs)
       else sbind (commit_changes G fs writes [] (format_message ''copy_in'' (ci_msg opts)) (Some report)
                     (ci_parents opts)) (\<lambda>new_fs.
              sreturn (case changes new_fs of Some c \<Rightarrow> c | None \<Rightarrow> empty_report, new_fs))))))))"

section \<open>sync_in\<close>

definition sync_in_step :: "('r, 'b) libgit2 \<Rightarrow> 'r disk \<Rightarrow> SyncOptions \<Rightarrow> string \<Rightarrow> string \<Rightarrow>
    (string \<times> u32) std_map \<Rightarrow> string \<Rightarrow> tree_write list \<times> ChangeReport \<times> string list \<Rightarrow>
    ('r, tree_write list \<times> ChangeReport \<times> string list) vop" where
  "sync_in_step G D opts src dest_norm existing rel = (\<lambda>(writes, report, disk_set).
     if \<not> matches_filters rel (so_include opts) (so_exclude opts) then sreturn (writes, report, disk_set)
     else
       let full = path_join src rel; disk_set' = rel # disk_set in
       sbind (sread (\<lambda>r. Inr (disk_file D r full))) (\<lambda>dm.
       sbind (case map_of existing rel of
                Some old \<Rightarrow> if so_checksum opts then same_blob G dm old else sreturn False
              | None \<Rightarrow> sreturn False) (\<lambda>unchanged.
         if unchanged then sreturn (writes, report, disk_set')
         else sbind (sread (\<lambda>r. file_entry (store_path dest_norm rel) (snd dm) (Some full))) (\<lambda>fe.
           sreturn (writes @ [(store_path dest_norm rel, dm)],
             if map_of existing rel \<noteq> None then report\<lparr>cr_update := cr_update report @ [fe]\<rparr>
             else report\<lparr>cr_add := cr_add report @ [fe]\<rparr>, disk_set')))))"

text \<open>The loop that finds the files of the repository that are not on disk.\<close>

definition sync_deletes :: "SyncOptions \<Rightarrow> string \<Rightarrow> (string \<times> u32) std_map \<Rightarrow> string list \<Rightarrow>
    (string \<times> FileEntry) list res" where
  "sync_deletes opts dest_norm existing disk_set =
     emap (\<lambda>(rel, oid, mode).
         ebind (file_entry (store_path dest_norm rel) mode None) (\<lambda>fe. Inr (store_path dest_norm rel, fe)))
       (filter (\<lambda>(rel, oid_mode). rel \<notin> set disk_set \<and> matches_filters rel (so_include opts) (so_exclude opts)) existing)"

definition sync_in :: "('r, 'b) libgit2 \<Rightarrow> 'r disk \<Rightarrow> Fs \<Rightarrow> string \<Rightarrow> string \<Rightarrow> SyncOptions \<Rightarrow>
    ('r, ChangeReport \<times> Fs) vop" where
  "sync_in G D fs src dest opts =
     sbind (sread (\<lambda>r. require_writable fs ''sync_in'')) (\<lambda>_.
     sbind (sread (\<lambda>r. require_tree fs)) (\<lambda>tree_hex.
     sbind (sread (\<lambda>r. normalize_dest dest)) (\<lambda>dest_norm.
     sbind (sread (\<lambda>r. Inr (disk_walk D r src))) (\<lambda>disk_files.
     sbind (sread (\<lambda>r. existing_files G r tree_hex dest_norm)) (\<lambda>existing.
     sbind (sfold (sync_in_step G D opts src dest_norm existing) disk_files ([], empty_report, [])) (\<lambda>(writes, report, disk_set).
     sbind (sread (\<lambda>r. sync_deletes opts dest_norm existing disk_set)) (\<lambda>dels.
       let removes = map fst dels; report = report\<lparr>cr_del := map snd dels\<rparr> in
       if so_dry_run opts \<or> (writes = [] \<and> removes = []) then sreturn (report, fs)
       else sbind (commit_changes G fs writes removes (format_message ''sync_in'' (so_message opts)) (Some report)
                     (so_parents opts)) (\<lambda>new_fs.
              sreturn (case changes new_fs of Some c \<Rightarrow> c | None \<Rightarrow> empty_report, new_fs)))))))))"

section \<open>copy_out and sync_out\<close>

text \<open>\<^verbatim>\<open>path::parent_path\<close>: without the last name and the slashes before it; of a name in the root, the root.\<close>

definition parent_path :: "string \<Rightarrow> string" where
  "parent_path p =
     (let above = dropWhile (\<lambda>c. c \<noteq> CHR ''/'') (rev p);
          parent = rev (dropWhile (\<lambda>c. c = CHR ''/'') above)
      in if parent = [] \<and> above \<noteq> [] then ''/'' else parent)"

text \<open>One file of the repository to one path on disk.\<close>

definition write_out :: "'r disk \<Rightarrow> string \<Rightarrow> byte list \<Rightarrow> u32 \<Rightarrow> 'r \<Rightarrow> 'r" where
  "write_out D dest_path data mode r =
     (let r1 = (if mode = MODE_LINK then
                  let r0 = (if disk_link_exists D r dest_path then disk_remove D r dest_path else r)
                  in disk_create_symlink D r0 (from_bytes data) dest_path
                else disk_write_file D r dest_path data)
      in if mode = MODE_BLOB_EXEC then disk_add_exec D r1 dest_path else r1)"

definition copy_out_step :: "('r, 'b) libgit2 \<Rightarrow> 'r disk \<Rightarrow> string list option \<Rightarrow> string list option \<Rightarrow> string \<Rightarrow>
    string \<Rightarrow> string \<Rightarrow> string \<times> WalkEntry \<Rightarrow> FileEntry list \<Rightarrow> ('r, FileEntry list) vop" where
  "copy_out_step G D inc exc tree_hex src_norm dest = (\<lambda>(rel_path, we) added.
     let rel = strip_dest src_norm rel_path in
     if \<not> matches_filters rel inc exc then sreturn added
     else
       let dest_path = path_join dest rel in
       sbind (\<lambda>r. (Inr (), disk_create_directories D r (parent_path dest_path))) (\<lambda>_.
       sbind (sread (\<lambda>r. read_blob G r tree_hex rel_path)) (\<lambda>data.
       sbind (\<lambda>r. (Inr (), write_out D dest_path data (we_mode we) r)) (\<lambda>_.
       sbind (sread (\<lambda>r. file_entry rel (we_mode we) None)) (\<lambda>fe.
         sreturn (added @ [fe]))))))"

definition copy_out :: "('r, 'b) libgit2 \<Rightarrow> 'r disk \<Rightarrow> Fs \<Rightarrow> string \<Rightarrow> string \<Rightarrow> CopyOutOptions \<Rightarrow> ('r, ChangeReport) vop" where
  "copy_out G D fs src_path dest opts =
     sbind (sread (\<lambda>r. require_tree fs)) (\<lambda>tree_hex.
     sbind (sread (\<lambda>r. normalize_dest src_path)) (\<lambda>src_norm.
     sbind (sread (\<lambda>r. walk_tree G r tree_hex src_norm)) (\<lambda>entries.
     sbind (sfold (copy_out_step G D (co_include opts) (co_exclude opts) tree_hex src_norm dest) entries []) (\<lambda>added.
       sreturn (empty_report\<lparr>cr_add := added\<rparr>)))))"

text \<open>
  The removal of local files that are not in the repository, and of the directories that are
  empty then, deepest first: \<^verbatim>\<open>std::sort\<close> with \<^verbatim>\<open>std::greater\<close> compares paths by their components.
\<close>

definition remove_extra :: "'r disk \<Rightarrow> SyncOptions \<Rightarrow> string \<Rightarrow> string list \<Rightarrow> string \<Rightarrow>
    'r \<times> FileEntry list \<Rightarrow> 'r \<times> FileEntry list" where
  "remove_extra D opts dest repo_rels local_rel = (\<lambda>(r, dels).
     if matches_filters local_rel (so_include opts) (so_exclude opts) \<and> local_rel \<notin> set repo_rels
     then (disk_remove D r (path_join dest local_rel),
           dels @ [\<lparr>fe_path = local_rel, fe_file_type = Blob, fe_src = None\<rparr>])
     else (r, dels))"

definition prune_dirs :: "'r disk \<Rightarrow> string \<Rightarrow> 'r \<Rightarrow> 'r" where
  "prune_dirs D dest r =
     (let dirs = (if disk_exists D r dest then disk_directories D r dest else [])
      in fold (\<lambda>d r. if disk_is_empty D r d then disk_remove D r d else r) (rev (sort_key split_slash dirs)) r)"

definition sync_out :: "('r, 'b) libgit2 \<Rightarrow> 'r disk \<Rightarrow> Fs \<Rightarrow> string \<Rightarrow> string \<Rightarrow> SyncOptions \<Rightarrow> ('r, ChangeReport) vop" where
  "sync_out G D fs src_path dest opts =
     sbind (sread (\<lambda>r. require_tree fs)) (\<lambda>tree_hex.
     sbind (sread (\<lambda>r. normalize_dest src_path)) (\<lambda>src_norm.
     sbind (sread (\<lambda>r. walk_tree G r tree_hex src_norm)) (\<lambda>entries.
     sbind (sfold (copy_out_step G D (so_include opts) (so_exclude opts) tree_hex src_norm dest) entries []) (\<lambda>added.
       let repo_rels = filter (\<lambda>rel. matches_filters rel (so_include opts) (so_exclude opts))
             (map (strip_dest src_norm \<circ> fst) entries) in
       sbind (sread (\<lambda>r. Inr (disk_walk D r dest))) (\<lambda>local_files r.
         case fold (remove_extra D opts dest repo_rels) local_files (r, []) of
           (r', dels) \<Rightarrow> (Inr (empty_report\<lparr>cr_add := added, cr_del := dels\<rparr>), prune_dirs D dest r'))))))"

section \<open>copy_from_ref\<close>

text \<open>The writes one source path contributes.\<close>

definition ref_file_target :: "('r, 'b) libgit2 \<Rightarrow> 'r \<Rightarrow> Fs \<Rightarrow> string \<Rightarrow> string \<Rightarrow> string res" where
  "ref_file_target G r fs dest_norm src_norm =
     (if dest_norm = [] then Inr (basename src_norm)
      else ebind (lookup G r (tree_oid_hex fs) dest_norm) (\<lambda>dest_entry.
        Inr (case dest_entry of
               Some (h, mode) \<Rightarrow> if mode = MODE_TREE then dest_norm @ CHR ''/'' # basename src_norm else dest_norm
             | None \<Rightarrow> dest_norm)))"

definition ref_dir_target :: "bool \<Rightarrow> string \<Rightarrow> string \<Rightarrow> string \<Rightarrow> string" where
  "ref_dir_target contents_mode dest_norm src_norm rel =
     (if contents_mode \<or> src_norm = [] then store_path dest_norm rel
      else if dest_norm = [] then basename src_norm @ CHR ''/'' # rel
      else dest_norm @ CHR ''/'' # basename src_norm @ CHR ''/'' # rel)"

definition ref_dir_writes :: "('r, 'b) libgit2 \<Rightarrow> 'r \<Rightarrow> string \<Rightarrow> bool \<Rightarrow> string \<Rightarrow> string \<Rightarrow> tree_write list res" where
  "ref_dir_writes G r src_tree contents_mode dest_norm src_norm =
     ebind (walk_tree G r src_tree src_norm) (\<lambda>src_entries.
     ebind (emap (\<lambda>(rel_path, we).
         if src_norm \<noteq> [] \<and> \<not> length rel_path > length src_norm + 1 then Inr []
         else
           let rel = (if src_norm = [] then rel_path else drop (length src_norm + 1) rel_path) in
           ebind (read_blob G r src_tree rel_path) (\<lambda>data.
             Inr [(ref_dir_target contents_mode dest_norm src_norm rel, data, we_mode we)])) src_entries) (\<lambda>ws.
       Inr (concat ws)))"

definition ref_source_writes :: "('r, 'b) libgit2 \<Rightarrow> 'r \<Rightarrow> Fs \<Rightarrow> string \<Rightarrow> string \<Rightarrow> string \<Rightarrow> tree_write list res" where
  "ref_source_writes G r fs src_tree dest_norm src_path =
     ebind (normalize_dest src_path) (\<lambda>src_norm.
       let contents_mode = (src_path \<noteq> [] \<and> last src_path = CHR ''/'') in
       if src_norm = [] then ref_dir_writes G r src_tree contents_mode dest_norm src_norm
       else ebind (lookup G r src_tree src_norm) (\<lambda>entry.
         case entry of
           None \<Rightarrow> Inl (NotFoundError src_norm)
         | Some (h, mode) \<Rightarrow>
             if mode = MODE_TREE then ref_dir_writes G r src_tree contents_mode dest_norm src_norm
             else ebind (read_blob G r src_tree src_norm) (\<lambda>data.
               ebind (ref_file_target G r fs dest_norm src_norm) (\<lambda>target. Inr [(target, data, mode)]))))"

definition extra_files :: "('r, 'b) libgit2 \<Rightarrow> 'r \<Rightarrow> Fs \<Rightarrow> string \<Rightarrow> string list \<Rightarrow> string list res" where
  "extra_files G r fs dest_norm kept =
     ebind (if dest_norm = [] then walk_tree G r (tree_oid_hex fs) []
            else ebind (lookup G r (tree_oid_hex fs) dest_norm) (\<lambda>entry.
              case entry of
                Some (h, mode) \<Rightarrow> if mode = MODE_TREE then walk_tree G r (tree_oid_hex fs) dest_norm else Inr []
              | None \<Rightarrow> Inr [])) (\<lambda>dest_entries.
       Inr (filter (\<lambda>p. p \<notin> set kept) (map fst dest_entries)))"

definition copy_from_ref :: "('r, 'b) libgit2 \<Rightarrow> Fs \<Rightarrow> Fs \<Rightarrow> string list \<Rightarrow> string \<Rightarrow> CopyFromRefOptions \<Rightarrow> ('r, Fs) vop" where
  "copy_from_ref G fs source sources dest opts =
     sbind (sread (\<lambda>r. require_writable fs ''copy_from_ref'')) (\<lambda>_.
       if tree_oid_hex source = [] then sthrow (NotFoundError ''source has no tree'')
       else
         sbind (sread (\<lambda>r. normalize_dest dest)) (\<lambda>dest_norm.
         sbind (sread (\<lambda>r. emap (ref_source_writes G r fs (tree_oid_hex source) dest_norm) sources)) (\<lambda>wss.
           let writes = concat wss in
           sbind (if cf_delete_extra opts \<and> tree_oid_hex fs \<noteq> []
                  then sread (\<lambda>r. extra_files G r fs dest_norm (map fst writes)) else sreturn []) (\<lambda>removes.
             if cf_dry_run opts \<or> (writes = [] \<and> removes = []) then sreturn fs
             else commit_changes G fs writes removes (format_message ''copy_from_ref'' (cf_message opts)) None
                    (cf_parents opts)))))"

text \<open>By name: a \<^verbatim>\<open>KeyNotFoundError\<close>, wherever it comes from, moves on to the next kind of reference.\<close>

definition catch_key_not_found :: "('r, 'a) vop \<Rightarrow> ('r, 'a) vop \<Rightarrow> ('r, 'a) vop" where
  "catch_key_not_found f g r =
     (case f r of (Inl (KeyNotFoundError k), r') \<Rightarrow> g r' | res \<Rightarrow> res)"

definition copy_from_name :: "('r, 'b) libgit2 \<Rightarrow> Fs \<Rightarrow> string \<Rightarrow> string list \<Rightarrow> string \<Rightarrow> CopyFromRefOptions \<Rightarrow> ('r, Fs) vop" where
  "copy_from_name G fs source_name sources dest opts =
     (let from = (\<lambda>d. sbind (sread (\<lambda>r. refdict_get G r d source_name)) (\<lambda>src_fs.
            copy_from_ref G fs src_fs sources dest opts))
      in catch_key_not_found (from (branches (inner fs)))
           (catch_key_not_found (from (tags (inner fs))) (sthrow (InvalidHashError source_name))))"

section \<open>ExcludeFilter\<close>

record Pattern =
  pat_raw :: string
  pat_negated :: bool
  pat_dir_only :: bool

definition parse_pattern :: "string \<Rightarrow> Pattern option" where
  "parse_pattern raw =
     (if raw = [] \<or> hd raw = CHR ''#'' then None
      else
        let negated = (hd raw = CHR ''!'');
            s = (if negated then tl raw else raw);
            dir_only = (s \<noteq> [] \<and> last s = CHR ''/'')
        in Some \<lparr>pat_raw = (if dir_only then butlast s else s), pat_negated = negated, pat_dir_only = dir_only\<rparr>)"

definition add_patterns :: "string list \<Rightarrow> Pattern list \<Rightarrow> Pattern list" where
  "add_patterns raws pats = pats @ List.map_filter parse_pattern raws"

definition trim_line :: "string \<Rightarrow> string" where
  "trim_line line = rev (dropWhile (\<lambda>c. c = CHR '' '' \<or> c = CHR 0x0D) (rev line))"

definition load_from_file :: "'r disk \<Rightarrow> 'r \<Rightarrow> string \<Rightarrow> Pattern list \<Rightarrow> Pattern list" where
  "load_from_file D r path pats =
     (case disk_open D r path of
        None \<Rightarrow> pats
      | Some data \<Rightarrow>
          add_patterns (filter (\<lambda>l. l \<noteq> []) (map trim_line (getlines (CHR 0x0A) (from_bytes data)))) pats)"

definition match_pattern :: "string \<Rightarrow> string \<Rightarrow> bool" where
  "match_pattern pattern path =
     (if CHR ''/'' \<in> set pattern then fnmatch pattern path else fnmatch pattern (basename path))"

definition is_excluded :: "Pattern list \<Rightarrow> string \<Rightarrow> bool \<Rightarrow> bool" where
  "is_excluded pats rel_path is_directory =
     fold (\<lambda>p excluded.
         if pat_dir_only p \<and> \<not> is_directory then excluded
         else if match_pattern (pat_raw p) rel_path then \<not> pat_negated p
         else excluded) pats False"

end
