(* ===== verification/Vost_Sync.thy ===== *)
theory Vost_Sync
  imports Vost_Copy
begin

text \<open>
  Correctness of \<^verbatim>\<open>sync_in\<close> and \<^verbatim>\<open>copy_in\<close> into the root of a snapshot: the files selected by the
  filters end up in the snapshot exactly as they are on disk. What happens when the destination
  names a directory that exists is \<open>existing_dest_not_found\<close>.
\<close>

section \<open>The files of a snapshot\<close>

context git_odb
begin

lemma existing_files_root:
  assumes "existing_files G r hex [] = Inr ex" "hex \<noteq> []" "hex \<noteq> zero_hex"
  shows "map_of ex p = Some v \<longleftrightarrow> (\<exists>q. q \<noteq> [] \<and> (\<forall>s\<in>set q. segment s) \<and> p = join_slash q \<and>
    snd v \<noteq> MODE_TREE \<and> view G r hex q = Inr (Some v))"
proof -
  from assms obtain ws where w: "walk_tree G r hex [] = Inr ws"
      and ex: "ex = fold (\<lambda>(k, v). smap_set k v) (map (\<lambda>(rel, we). (rel, we_oid we, we_mode we)) ws) []"
    by (auto simp: existing_files_def dest_tree_def outcome_iff strip_dest_def fold_map comp_def case_prod_unfold)
  let ?kvs = "map (\<lambda>(rel, we). (rel, we_oid we, we_mode we)) ws"
  from w obtain root where root: "hex_to_oid G hex = Inr root"
    by (auto simp: walk_tree_def target_tree_def entry_at_path_def outcome_iff split: if_splits)
  have view: "view G r hex q = entry_at_segs G r root q" for q using root assms(3) by (simp add: view_def)
  have ws: "set ws = {(join_slash q, we) |q we. q \<noteq> [] \<and> (\<forall>s\<in>set q. segment s) \<and>
      we_name we = last q \<and> we_mode we \<noteq> MODE_TREE \<and> view G r hex q = Inr (Some (we_oid we, we_mode we))}"
    using walk_tree_set [of r hex "[]" ws root] w root by (simp add: view)
  have kvs: "(k, v) \<in> set ?kvs \<longleftrightarrow> (\<exists>q. q \<noteq> [] \<and> (\<forall>s\<in>set q. segment s) \<and> k = join_slash q \<and>
      snd v \<noteq> MODE_TREE \<and> view G r hex q = Inr (Some v))" (is "_ \<longleftrightarrow> ?R") for k v
  proof
    assume "(k, v) \<in> set ?kvs"
    then show ?R unfolding set_map ws by auto
  next
    assume ?R
    then obtain q where q: "q \<noteq> []" "\<forall>s\<in>set q. segment s" "k = join_slash q" "snd v \<noteq> MODE_TREE"
        "view G r hex q = Inr (Some v)" by blast
    then have "(k, \<lparr>we_name = last q, we_oid = fst v, we_mode = snd v\<rparr>) \<in> set ws" unfolding ws by auto
    then show "(k, v) \<in> set ?kvs" by force
  qed
  have "map_of (rev ?kvs) p = Some v \<longleftrightarrow> (p, v) \<in> set ?kvs"
  proof (rule map_of_rev_functional)
    fix k v w
    assume "(k, v) \<in> set ?kvs" "(k, w) \<in> set ?kvs"
    then show "v = w" unfolding kvs by (metis split_join sum.inject(2) option.inject)
  qed
  moreover have "map_of ex p = map_of (rev ?kvs) p"
    using fold_smap_set [of "[]" ?kvs p] by (simp add: ex split: option.splits)
  ultimately show ?thesis using kvs [of p v] by simp
qed

end

section \<open>The loop over the files on disk\<close>

text \<open>The disk does not change when objects are written to the repository.\<close>

definition disk_stable :: "('r, 'b) libgit2 \<Rightarrow> 'r disk \<Rightarrow> 'r \<Rightarrow> bool" where
  "disk_stable G D r \<longleftrightarrow> (\<forall>r1. git_adds G r r1 \<longrightarrow> disk_file D r1 = disk_file D r)"

lemma disk_stable_adds: "disk_stable G D r \<Longrightarrow> git_adds G r r1 \<Longrightarrow> disk_stable G D r1 \<and> disk_file D r1 = disk_file D r"
  unfolding disk_stable_def using git_adds_trans by metis

text \<open>What the loop has settled about one file: it will be written, or the repository holds it.\<close>

definition upload_planned :: "('r, 'b) libgit2 \<Rightarrow> 'r \<Rightarrow> (string \<times> u32) std_map \<Rightarrow> tree_write list \<Rightarrow> string \<Rightarrow>
    byte list \<times> u32 \<Rightarrow> bool" where
  "upload_planned G r ex ws p dm \<longleftrightarrow> (p, dm) \<in> set ws \<or>
     (\<exists>oid. map_of ex p = Some (git_oid_tostr G oid, snd dm) \<and> git_blob_lookup G r oid = Some (fst dm))"

lemma upload_planned_mono:
  assumes "upload_planned G r ex ws p dm" "git_adds G r r'" "set ws \<subseteq> set ws'"
  shows "upload_planned G r' ex ws' p dm"
  using assms(1,3) git_extends_blob [OF git_adds_extends [OF assms(2)]] unfolding upload_planned_def by auto

context git_odb
begin

lemma same_blob_Inr:
  "same_blob G dm old r = (Inr b, r') \<Longrightarrow> git_adds G r r' \<and>
    (b \<longrightarrow> (\<exists>oid. old = (git_oid_tostr G oid, snd dm) \<and> git_blob_lookup G r' oid = Some (fst dm)))"
  using blob_create by (auto simp: same_blob_def split: option.splits) (metis prod.collapse)

lemma sync_step_Inr:
  assumes "sync_in_step G D opts src [] ex rel (ws, rep, ds) r = (Inr (ws', rep', ds'), r')" "disk_stable G D r"
  shows "git_adds G r r' \<and>
    (if matches_filters rel (so_include opts) (so_exclude opts)
     then ds' = rel # ds \<and> ws' \<in> {ws, ws @ [(rel, disk_file D r (path_join src rel))]} \<and>
          upload_planned G r' ex ws' rel (disk_file D r (path_join src rel))
     else ds' = ds \<and> ws' = ws)"
proof (cases "matches_filters rel (so_include opts) (so_exclude opts)")
  case False
  with assms(1) show ?thesis by (simp add: sync_in_step_def)
next
  case True
  let ?dm = "disk_file D r (path_join src rel)"
  from True assms(1) obtain unchanged r1 where
      u: "(case map_of ex rel of Some old \<Rightarrow> if so_checksum opts then same_blob G ?dm old else sreturn False
          | None \<Rightarrow> sreturn False) r = (Inr unchanged, r1)"
      and rest: "if unchanged then ws' = ws \<and> ds' = rel # ds \<and> r' = r1
          else ws' = ws @ [(rel, ?dm)] \<and> ds' = rel # ds \<and> r' = r1"
    by (auto simp: sync_in_step_def outcome_iff store_path_def Let_def split: if_splits)
  from u same_blob_Inr [of ?dm _ r unchanged r1] have "git_adds G r r1"
    "unchanged \<Longrightarrow> \<exists>oid. map_of ex rel = Some (git_oid_tostr G oid, snd ?dm) \<and> git_blob_lookup G r1 oid = Some (fst ?dm)"
    by (auto split: option.splits if_splits)
  with True rest show ?thesis by (auto simp: upload_planned_def split: if_splits)
qed

lemma sync_loop_Inr:
  assumes "sfold (sync_in_step G D opts src [] ex) files (ws, rep, ds) r = (Inr (ws', rep', ds'), r')" "disk_stable G D r"
  shows "git_adds G r r' \<and> set ws \<subseteq> set ws' \<and>
    set ds' = set ds \<union> {f \<in> set files. matches_filters f (so_include opts) (so_exclude opts)} \<and>
    (\<forall>w\<in>set ws'. w \<in> set ws \<or> fst w \<in> {f \<in> set files. matches_filters f (so_include opts) (so_exclude opts)} \<and>
       snd w = disk_file D r (path_join src (fst w))) \<and>
    (\<forall>f\<in>set files. matches_filters f (so_include opts) (so_exclude opts) \<longrightarrow>
       upload_planned G r' ex ws' f (disk_file D r (path_join src f)))"
  using assms
proof (induction files arbitrary: ws rep ds r)
  case (Cons f files)
  from Cons.prems(1) obtain ws1 rep1 ds1 r1 where
      s: "sync_in_step G D opts src [] ex f (ws, rep, ds) r = (Inr (ws1, rep1, ds1), r1)"
      and l: "sfold (sync_in_step G D opts src [] ex) files (ws1, rep1, ds1) r1 = (Inr (ws', rep', ds'), r')"
    by (auto simp: outcome_iff)
  note S = sync_step_Inr [OF s Cons.prems(2)]
  then have a: "git_adds G r r1" by simp
  from disk_stable_adds [OF Cons.prems(2) a] have st: "disk_stable G D r1" "disk_file D r1 = disk_file D r" by auto
  note I = Cons.IH [OF l st(1), unfolded st(2)]
  have "set ws \<subseteq> set ws1" using S by (auto split: if_splits)
  moreover have "matches_filters f (so_include opts) (so_exclude opts) \<Longrightarrow>
      upload_planned G r' ex ws' f (disk_file D r (path_join src f))"
    using S I upload_planned_mono by (metis (no_types, lifting))
  ultimately show ?case using S I git_adds_trans [OF a] by (auto split: if_splits)
qed simp

end

section \<open>The new snapshot\<close>

text \<open>No path is a file on one side and a directory on the other.\<close>

definition path_antichain :: "string set \<Rightarrow> bool" where
  "path_antichain F \<longleftrightarrow> (\<forall>p\<in>F. \<forall>q\<in>F. \<not> strict_prefix (split_slash p) (split_slash q))"

lemma antichain_not_above:
  assumes "path_antichain F" "set ps \<subseteq> F" "p \<in> F" "p \<notin> set ps" "\<forall>q\<in>F. normal_path q"
  shows "\<not> on_way (set (map split_slash ps)) [] (split_slash p)"
proof
  assume "on_way (set (map split_slash ps)) [] (split_slash p)"
  then obtain q where q: "q \<in> set ps" "prefix (split_slash q) (split_slash p)" by (auto simp: on_way_iff)
  have "split_slash q \<noteq> split_slash p"
    using q(1) assms(2-5) unfolding normal_path_def by (metis subsetD)
  with q assms(1-3) show False unfolding path_antichain_def strict_prefix_def by blast
qed

lemma antichain_not_above_strict:
  assumes "path_antichain F" "set ps \<subseteq> F" "p \<in> F"
  shows "\<not> on_way (set (map split_slash ps)) [] (butlast (split_slash p))"
proof
  assume a: "on_way (set (map split_slash ps)) [] (butlast (split_slash p))"
  then obtain q where q: "q \<in> set ps" "split_slash q \<noteq> []" "prefix (split_slash q) (butlast (split_slash p))"
    by (auto simp: on_way_iff)
  then have "split_slash p \<noteq> []" by auto
  then have "strict_prefix (butlast (split_slash p)) (split_slash p)"
    by (metis append_butlast_last_id not_Cons_self2 prefixI self_append_conv strict_prefix_def)
  with q(3) have "strict_prefix (split_slash q) (split_slash p)" by (rule prefix_order.le_less_trans)
  with q(1) assms show False unfolding path_antichain_def by blast
qed

lemma antichain_not_deeper:
  assumes "path_antichain F" "set ps \<subseteq> F" "p \<in> F"
  shows "\<not> deeper (split_slash p) (map split_slash ps)"
  using assms unfolding path_antichain_def deeper_def by auto

lemma write_node_paths: "map (fst \<circ> write_node) ws = map split_slash (map fst ws)"
  by (simp add: write_node_def case_prod_unfold comp_def)

lemma write_node_mem:
  "(q, v) \<in> set (map write_node ws) \<longleftrightarrow> (\<exists>w\<in>set ws. q = split_slash (fst w) \<and> v = File (fst (snd w)) (snd (snd w)))"
  by (force simp: write_node_def)

text \<open>The abstract update on the paths of an antichain: written, removed or kept.\<close>

lemma written_antichain:
  assumes inj: "\<And>w. w \<in> set ws \<Longrightarrow> split_slash (fst w) = split_slash p \<Longrightarrow> fst w = p"
    and val: "\<And>w. w \<in> set ws \<Longrightarrow> snd w = f (fst w)"
  shows "map_of (rev (map write_node ws)) (split_slash p) =
    (if p \<in> fst ` set ws then Some (File (fst (f p)) (snd (f p))) else None)"
proof (cases "p \<in> fst ` set ws")
  case True
  then obtain w where "w \<in> set ws" "fst w = p" by blast
  then have "(split_slash p, File (fst (snd w)) (snd (snd w))) \<in> set (map write_node ws)"
    unfolding write_node_mem by auto
  then obtain v where v: "map_of (rev (map write_node ws)) (split_slash p) = Some v"
    by (metis (no_types) fst_conv image_eqI map_of_eq_None_iff not_None_eq set_rev)
  then have "(split_slash p, v) \<in> set (map write_node ws)" by (metis map_of_SomeD set_rev)
  then obtain u where u: "u \<in> set ws" "split_slash p = split_slash (fst u)" "v = File (fst (snd u)) (snd (snd u))"
    unfolding write_node_mem by blast
  from inj [OF u(1) u(2) [symmetric]] val [OF u(1)] u(3) v True show ?thesis by simp
next
  case False
  have "map_of (rev (map write_node ws)) (split_slash p) \<noteq> Some v" for v
  proof
    assume "map_of (rev (map write_node ws)) (split_slash p) = Some v"
    then have "(split_slash p, v) \<in> set (map write_node ws)" by (metis map_of_SomeD set_rev)
    then obtain u where "u \<in> set ws" "split_slash (fst u) = split_slash p" unfolding write_node_mem by metis
    with inj False show False by (metis image_eqI)
  qed
  with False show ?thesis by (cases "map_of (rev (map write_node ws)) (split_slash p)") auto
qed

lemma removed_antichain:
  assumes F: "path_antichain F" "\<forall>q\<in>F. normal_path q" and p: "p \<in> F" "p \<noteq> []" and rms: "set rms \<subseteq> F"
  shows "on_way (set (map split_slash rms)) [] (split_slash p) \<longleftrightarrow> p \<in> set rms"
proof
  assume "on_way (set (map split_slash rms)) [] (split_slash p)"
  with antichain_not_above [OF F(1) rms p(1) _ F(2)] show "p \<in> set rms" by blast
next
  assume "p \<in> set rms"
  then have "split_slash p \<in> set (map split_slash rms)" by simp
  moreover have "split_slash p \<noteq> []" using F(2) p normal_path_Nil_iff by blast
  ultimately show "on_way (set (map split_slash rms)) [] (split_slash p)"
    unfolding on_way_iff by (metis append_Nil prefix_order.refl)
qed

lemma apply_changes_antichain:
  assumes F: "path_antichain F" "\<forall>q\<in>F. normal_path q" and sub: "fst ` set ws \<subseteq> F" "set rms \<subseteq> F"
    and p: "p \<in> F" "p \<noteq> []" and val: "\<And>w. w \<in> set ws \<Longrightarrow> snd w = f (fst w)"
  shows "apply_changes ws rms old (split_slash p) =
    (if p \<in> fst ` set ws then Some (File (fst (f p)) (snd (f p)))
     else if p \<in> set rms then None else old (split_slash p))"
proof -
  have W: "fst ` set (map write_node ws) = set (map split_slash (map fst ws))"
    by (metis list.map_comp set_map write_node_paths)
  have "\<not> on_way (set (map split_slash (map fst ws))) [] (butlast (split_slash p))"
    using antichain_not_above_strict [OF F(1) _ p(1), of "map fst ws"] sub(1) by simp
  moreover have "\<not> deeper (split_slash p) (map split_slash (map fst ws) @ map split_slash rms)"
    using antichain_not_deeper [OF F(1) _ p(1), of "map fst ws @ rms"] sub by simp
  moreover have "map_of (rev (map write_node ws)) (split_slash p) =
      (if p \<in> fst ` set ws then Some (File (fst (f p)) (snd (f p))) else None)"
  proof (rule written_antichain [OF _ val])
    fix w
    assume "w \<in> set ws" "split_slash (fst w) = split_slash p"
    then show "fst w = p" using F(2) p(1) sub(1) unfolding normal_path_def by (metis image_eqI subsetD)
  qed
  ultimately show ?thesis
    unfolding apply_changes_def Let_def W list.map_comp write_node_paths removed_antichain [OF F p sub(2)]
    by (simp only: list.map_comp [symmetric] if_False split: if_split) simp
qed

lemma settled_antichain:
  assumes "path_antichain F" "fst ` set ws \<subseteq> F" "set rms \<subseteq> F" "\<And>w. w \<in> set ws \<Longrightarrow> snd (snd w) \<noteq> MODE_TREE"
  shows "settled ws rms"
  unfolding settled_def write_node_paths
proof (intro conjI ballI)
  fix q
  assume "q \<in> set (map split_slash rms)"
  then obtain p where "p \<in> set rms" "q = split_slash p" by auto
  then show "\<not> deeper q (map split_slash (map fst ws) @ map split_slash rms)"
    using antichain_not_deeper [OF assms(1), of "map fst ws @ rms" p] assms(2,3) by auto
qed (use assms(4) in blast)


section \<open>sync_in as a whole\<close>

lemma sync_deletes_paths:
  assumes "sync_deletes opts [] ex ds = Inr dels"
  shows "map fst dels = filter (\<lambda>p. p \<notin> set ds \<and> matches_filters p (so_include opts) (so_exclude opts)) (map fst ex)"
proof -
  let ?f = "\<lambda>(rel, oid :: string, mode :: u32).
    ebind (file_entry (store_path [] rel) mode None) (\<lambda>fe. Inr (store_path [] rel, fe)) :: (string \<times> FileEntry) res"
  have "map fst ys = map fst xs" if "emap ?f xs = Inr ys" for xs ys
    using that by (induction xs arbitrary: ys) (auto simp: outcome_iff store_path_def)
  from this [OF assms [unfolded sync_deletes_def]] show ?thesis
    by (simp add: filter_map comp_def case_prod_unfold)
qed

text \<open>The changes that \<^verbatim>\<open>sync_in\<close> commits: those of the loop and of the deletes.\<close>

definition sync_plan :: "('r, 'b) libgit2 \<Rightarrow> 'r disk \<Rightarrow> SyncOptions \<Rightarrow> string \<Rightarrow> 'r \<Rightarrow> (string \<times> u32) std_map \<Rightarrow>
    tree_write list \<Rightarrow> string list \<Rightarrow> 'r \<Rightarrow> bool" where
  "sync_plan G D opts src r ex ws rms r1 \<longleftrightarrow>
     (let match = (\<lambda>p. matches_filters p (so_include opts) (so_exclude opts)); files = set (disk_walk D r src) in
      git_adds G r r1 \<and>
      (\<forall>w\<in>set ws. fst w \<in> files \<and> match (fst w) \<and> snd w = disk_file D r (path_join src (fst w))) \<and>
      (\<forall>p\<in>files. match p \<longrightarrow> upload_planned G r1 ex ws p (disk_file D r (path_join src p))) \<and>
      set rms = {p \<in> fst ` set ex. p \<notin> files \<and> match p})"

lemma sync_in_Inr:
  assumes "git_odb G" "sync_in G D fs src [] opts r = (Inr (report, fs'), r')" "\<not> so_dry_run opts" "disk_stable G D r"
    "existing_files G r (tree_oid_hex fs) [] = Inr ex"
  shows "tree_oid_hex fs \<noteq> [] \<and> (\<exists>ws rms r1. sync_plan G D opts src r ex ws rms r1 \<and>
    (ws = [] \<and> rms = [] \<and> fs' = fs \<and> r' = r1 \<or>
     (\<exists>msg rep. commit_changes G fs ws rms msg rep (so_parents opts) r1 = (Inr fs', r'))))"
proof -
  from assms(2,3,5) obtain ws rep ds dels r1 where
      tree: "tree_oid_hex fs \<noteq> []"
      and l: "sfold (sync_in_step G D opts src [] ex) (disk_walk D r src) ([], empty_report, []) r = (Inr (ws, rep, ds), r1)"
      and d: "sync_deletes opts [] ex ds = Inr dels"
      and c: "ws = [] \<and> map fst dels = [] \<and> fs' = fs \<and> r' = r1 \<or>
        (\<exists>msg rep. commit_changes G fs ws (map fst dels) msg rep (so_parents opts) r1 = (Inr fs', r'))"
    by (auto simp: sync_in_def require_tree_def normalize_dest_def outcome_iff Let_def split: if_splits)
  note L = git_odb.sync_loop_Inr [OF assms(1) l assms(4)]
  have "sync_plan G D opts src r ex ws (map fst dels) r1"
    unfolding sync_plan_def Let_def sync_deletes_paths [OF d] using L by auto
  with tree c show ?thesis by blast
qed

lemma planned_node:
  assumes "git_odb G" "existing_files G r hex [] = Inr ex" "hex \<noteq> []" "hex \<noteq> zero_hex" "git_extends G r r1"
    "upload_planned G r1 ex ws p dm" "p \<notin> fst ` set ws"
  shows "node_at G r1 hex (split_slash p) = Inr (Some (File (fst dm) (snd dm)))"
proof -
  from assms(6,7) obtain oid where o: "map_of ex p = Some (git_oid_tostr G oid, snd dm)"
      "git_blob_lookup G r1 oid = Some (fst dm)"
    by (force simp: upload_planned_def)
  from o(1) obtain q where q: "q \<noteq> []" "\<forall>s\<in>set q. segment s" "p = join_slash q" "snd dm \<noteq> MODE_TREE"
      "view G r hex q = Inr (Some (git_oid_tostr G oid, snd dm))"
    unfolding git_odb.existing_files_root [OF assms(1-4)] by auto
  from git_odb.view_extends [OF assms(1,5) q(5,1)]
  have "view G r1 hex q = Inr (Some (git_oid_tostr G oid, snd dm))" .
  moreover have "hex_to_oid G (git_oid_tostr G oid) = Inr oid" using git_odb.oid_roundtrip [OF assms(1)] by (simp add: hex_to_oid_def)
  ultimately show ?thesis using q o(2) split_join [of q] by (simp add: node_at_def require_ok_def)
qed



text \<open>A directory \<^verbatim>\<open>/d\<close> on disk that holds \<^verbatim>\<open>a/b\<close> with the text \<^verbatim>\<open>hi\<close>.\<close>

definition demo_disk :: "mem disk" where
  "demo_disk =
     \<lparr>disk_exists = (\<lambda>r p. p = ''/d''),
      disk_open = (\<lambda>r p. if p = ''/d/a/b'' then Some (to_bytes ''hi'') else None),
      disk_is_symlink = (\<lambda>r p. False), disk_user_exec = (\<lambda>r p. False), disk_read_symlink = (\<lambda>r p. []),
      disk_recursive = (\<lambda>r p. if p = ''/d'' then [(''a'', True), (''a/b'', False)] else []),
      disk_listing = (\<lambda>r p. None), disk_link_exists = (\<lambda>r p. False), disk_create_directories = (\<lambda>r p. r),
      disk_write_file = (\<lambda>r p d. r), disk_create_symlink = (\<lambda>r t p. r), disk_remove = (\<lambda>r p. r),
      disk_add_exec = (\<lambda>r p. r), disk_directories = (\<lambda>r p. []), disk_is_empty = (\<lambda>r p. False),
      disk_depth = (\<lambda>r p. 3)\<rparr>"

definition demo_sync :: SyncOptions where
  "demo_sync = \<lparr>so_include = None, so_exclude = None, so_message = Some ''write: a/b'', so_dry_run = False,
     so_checksum = True, so_parents = []\<rparr>"

definition demo_sync_report :: ChangeReport where
  "demo_sync_report = empty_report\<lparr>cr_update := [\<lparr>fe_path = ''a/b'', fe_file_type = Blob, fe_src = Some ''/d/a/b''\<rparr>]\<rparr>"

lemma demo_disk_file: "disk_file demo_disk r ''/d/a/b'' = (to_bytes ''hi'', MODE_BLOB)"
  by (simp add: disk_file_def demo_disk_def mode_from_disk_def)

lemma demo_disk_walk: "disk_walk demo_disk r ''/d'' = [''a/b'']"
  by (simp add: disk_walk_def demo_disk_def)

lemma demo_existing: "existing_files mem_git demo_mem (tree_oid_hex demo_fs) [] = Inr [(''a/b'', ''01'', MODE_BLOB)]"
  by code_simp

lemma demo_sync_blob:
  "same_blob mem_git (to_bytes ''hi'', MODE_BLOB) (''01'', MODE_BLOB) demo_mem =
     (Inr False, demo_mem\<lparr>m_objs := demo_objs @ [MBlob [104, 105]]\<rparr>)"
  by code_simp

lemma demo_sync_rebuild:
  "rebuild_tree mem_git ''010101'' [(''a/b'', to_bytes ''hi'', MODE_BLOB)] [] (demo_mem\<lparr>m_objs := demo_objs @ [MBlob [104, 105]]\<rparr>) =
     (Inr ''01010101010101'', demo_mem\<lparr>m_objs := demo_objs_tree\<rparr>)"
  by code_simp

lemma demo_sync_check_tip:
  "check_tip mem_git ''main'' ''refs/heads/main'' ''01010101'' (demo_mem\<lparr>m_objs := demo_objs @ [MBlob [104, 105]]\<rparr>) = Inr ()"
  by code_simp

lemma demo_sync_commit:
  "commit_changes mem_git demo_fs [(''a/b'', to_bytes ''hi'', MODE_BLOB)] [] ''write: a/b'' (Some demo_sync_report) []
     (demo_mem\<lparr>m_objs := demo_objs @ [MBlob [104, 105]]\<rparr>) = (Inr (demo_fs2\<lparr>changes := Some demo_sync_report\<rparr>), demo_mem2)"
proof -
  have "commit_changes mem_git demo_fs [(''a/b'', to_bytes ''hi'', MODE_BLOB)] [] ''write: a/b'' (Some demo_sync_report) []
     (demo_mem\<lparr>m_objs := demo_objs @ [MBlob [104, 105]]\<rparr>) =
    (Inr (make_fs (inner demo_fs) ''0101010101010101'' ''01010101010101'' (ref_name demo_fs) True (Some demo_sync_report)), demo_mem2)"
    by (rule commit_changes_runs [of _ "''main''", OF _ mem_lock_free])
      (use demo_sync_rebuild demo_write_commit demo_swap_ref demo_sync_check_tip in
        \<open>simp_all add: demo_fs_def demo_inner_def make_fs_def require_writable_def\<close>)
  then show ?thesis by (simp add: demo_fs_def demo_fs2_def make_fs_def)
qed

lemma demo_sync_in:
  "sync_in mem_git demo_disk demo_fs ''/d'' [] demo_sync demo_mem =
     (Inr (demo_sync_report, demo_fs2\<lparr>changes := Some demo_sync_report\<rparr>), demo_mem2)"
proof -
  have "sfold (sync_in_step mem_git demo_disk demo_sync ''/d'' [] [(''a/b'', ''01'', MODE_BLOB)]) [''a/b'']
      ([], empty_report, []) demo_mem =
    (Inr ([(''a/b'', to_bytes ''hi'', MODE_BLOB)], demo_sync_report, [''a/b'']), demo_mem\<lparr>m_objs := demo_objs @ [MBlob [104, 105]]\<rparr>)"
    by (simp add: sync_in_step_def matches_filters_def path_join_def demo_disk_file demo_sync_blob
        store_path_def file_entry_def file_type_from_mode_def demo_sync_report_def Let_def
        demo_sync_def empty_report_def sbind_def)
  moreover have "sync_deletes demo_sync [] [(''a/b'', ''01'', MODE_BLOB)] [''a/b''] = Inr []"
    by (simp add: sync_deletes_def)
  moreover have "require_writable demo_fs ''sync_in'' = Inr ''main''" "require_tree demo_fs = Inr (tree_oid_hex demo_fs)"
    by (simp_all add: demo_fs_def make_fs_def require_writable_def require_tree_def)
  ultimately show ?thesis
    using demo_sync_commit demo_existing
    by (simp add: sync_in_def normalize_dest_def demo_disk_walk Let_def demo_sync_def format_message_def demo_sync_report_def empty_report_def)
qed


section \<open>An existing destination\<close>

text \<open>
  When the destination is a directory of the snapshot, the code looks the destination up again
  inside that directory. Unless the directory happens to hold a path of the same name, the call
  fails with \<^verbatim>\<open>NotFoundError\<close> and the repository is unchanged.
\<close>

lemma existing_dest_not_found:
  assumes "tree_oid_hex fs \<noteq> []" "writable fs" "ref_name fs = Some ref" "normalize dest = Inr d" "d \<noteq> []"
    "lookup G r (tree_oid_hex fs) d = Inr (Some (h, MODE_TREE))" "h \<noteq> []" "lookup G r h d = Inr None"
  shows "sync_in G D fs src dest opts r = (Inl (NotFoundError d), r)"
proof -
  from assms(5-8) have "existing_files G r (tree_oid_hex fs) d = Inl (NotFoundError d)"
    by (simp add: existing_files_def dest_tree_def walk_tree_def target_tree_def lookup_def)
  moreover have "normalize_dest dest = Inr d" using assms(4,5) by (auto simp: normalize_dest_def normalize_eq split: if_splits)
  ultimately show ?thesis using assms(1-3) by (simp add: sync_in_def require_writable_def require_tree_def)
qed

section \<open>The exclude filter\<close>

definition pattern_applies :: "string \<Rightarrow> bool \<Rightarrow> Pattern \<Rightarrow> bool" where
  "pattern_applies path d p \<longleftrightarrow> (pat_dir_only p \<longrightarrow> d) \<and> match_pattern (pat_raw p) path"

lemma is_excluded_last:
  "fold (\<lambda>p excluded.
      if pat_dir_only p \<and> \<not> d then excluded
      else if match_pattern (pat_raw p) path then \<not> pat_negated p else excluded) pats e =
   (case rev (filter (pattern_applies path d) pats) of [] \<Rightarrow> e | p # _ \<Rightarrow> \<not> pat_negated p)"
  by (cases d; induction pats rule: rev_induct) (simp_all add: pattern_applies_def if_distrib cong: if_cong)


end
