(* ===== verification/Vost_Typing.thy ===== *)
theory Vost_Typing
  imports Vost_Timeline
begin

text \<open>
  Well-typed snapshots. A mode in a tree is a claim about the object it stands next to: a
  directory entry names a tree, any other entry a blob. A snapshot is well typed when all these
  claims hold below its tree. Reads of a well-typed snapshot never fail inside libgit2: what
  they return or throw is determined by the node at the path, and writes produce well-typed snapshots.
\<close>

definition fs_typed :: "('r, 'b) libgit2 \<Rightarrow> 'r \<Rightarrow> Fs \<Rightarrow> bool" where
  "fs_typed G r fs \<longleftrightarrow> tree_oid_hex fs \<noteq> zero_hex \<and>
     (\<forall>p. p \<noteq> [] \<longrightarrow> (\<exists>x. fs_node G r fs p = Inr x))"

text \<open>The nodes of a well-typed snapshot as a function; the root has no node of its own.\<close>

definition nodes_of :: "('r, 'b) libgit2 \<Rightarrow> 'r \<Rightarrow> Fs \<Rightarrow> string list \<Rightarrow> node option" where
  "nodes_of G r fs p = (if p = [] then None else case fs_node G r fs p of Inr x \<Rightarrow> x | Inl e \<Rightarrow> None)"

lemma nodes_of_typed:
  "fs_typed G r fs \<Longrightarrow> p \<noteq> [] \<Longrightarrow> fs_node G r fs p = Inr (nodes_of G r fs p)"
  "nodes_of G r fs [] = None"
  by (force simp: fs_typed_def nodes_of_def)+

text \<open>What the reads of one path give, by the node at the path.\<close>

definition read_outcome :: "node option \<Rightarrow> byte list res \<Rightarrow> bool" where
  "read_outcome x res \<longleftrightarrow> (case x of
     None \<Rightarrow> (\<exists>m. res = Inl (NotFoundError m))
   | Some Dir \<Rightarrow> (\<exists>m. res = Inl (IsADirectoryError m))
   | Some (File d m) \<Rightarrow> res = Inr d)"

definition size_outcome :: "node option \<Rightarrow> u64 res \<Rightarrow> bool" where
  "size_outcome x res \<longleftrightarrow> (case x of
     None \<Rightarrow> (\<exists>m. res = Inl (NotFoundError m))
   | Some Dir \<Rightarrow> (\<exists>m. res = Inl (IsADirectoryError m))
   | Some (File d m) \<Rightarrow> res = Inr (word_of_nat (length d)))"

definition link_outcome :: "node option \<Rightarrow> string res \<Rightarrow> bool" where
  "link_outcome x res \<longleftrightarrow> (case x of
     None \<Rightarrow> (\<exists>m. res = Inl (NotFoundError m))
   | Some Dir \<Rightarrow> (\<exists>m. res = Inl (InvalidPathError m))
   | Some (File d mode) \<Rightarrow> if mode = MODE_LINK then res = Inr (from_bytes d)
       else \<exists>m. res = Inl (InvalidPathError m))"

context git_odb
begin

text \<open>The node at a path decides what \<^verbatim>\<open>lookup\<close> and the blob behind it give.\<close>

lemma lookup_of_node:
  assumes "fs_node G r fs (split_slash norm) = Inr x" "norm \<noteq> []" "tree_oid_hex fs \<noteq> []" "tree_oid_hex fs \<noteq> zero_hex"
  shows "case x of
    None \<Rightarrow> lookup G r (tree_oid_hex fs) norm = Inr None
  | Some Dir \<Rightarrow> \<exists>h. lookup G r (tree_oid_hex fs) norm = Inr (Some (h, MODE_TREE))
  | Some (File d m) \<Rightarrow> m \<noteq> MODE_TREE \<and> (\<exists>h oid. lookup G r (tree_oid_hex fs) norm = Inr (Some (h, m)) \<and>
      hex_to_oid G h = Inr oid \<and> git_blob_lookup G r oid = Some d)"
proof -
  have "lookup G r (tree_oid_hex fs) norm = view G r (tree_oid_hex fs) (split_slash norm)"
    using assms(2,4) by (simp add: lookup_def entry_at_path_def view_def)
  moreover from assms(1,3) have "node_at G r (tree_oid_hex fs) (split_slash norm) = Inr x"
    by (simp add: fs_node_def)
  moreover from this obtain y where "view G r (tree_oid_hex fs) (split_slash norm) = Inr y"
    by (auto simp: node_at_def outcome_iff)
  ultimately show ?thesis
    by (cases y) (auto simp: node_at_def outcome_iff split: if_splits)
qed

lemma typed_reads:
  assumes "fs_typed G r fs" "normalize path = Inr norm" "norm \<noteq> []"
  shows "\<exists>x. fs_node G r fs (split_slash norm) = Inr x \<and> read_outcome x (read G r fs path) \<and>
    exists_path G r fs path = Inr (x \<noteq> None) \<and> is_dir G r fs path = Inr (x = Some Dir) \<and>
    size_outcome x (fs_size G r fs path) \<and> link_outcome x (readlink G r fs path)"
proof -
  have "split_slash norm \<noteq> []" using normalize_segs [OF assms(2,3)] by blast
  with assms(1) obtain x where x: "fs_node G r fs (split_slash norm) = Inr x" by (auto simp: fs_typed_def)
  show ?thesis
  proof (cases "tree_oid_hex fs = []")
    case True
    with x assms(2,3) show ?thesis
      by (auto simp: fs_node_def read_outcome_def size_outcome_def link_outcome_def read_def exists_path_def is_dir_def
          fs_size_def entry_or_throw_def readlink_def require_tree_def)
  next
    case False
    with assms(1) have t: "require_tree fs = Inr (tree_oid_hex fs)" "tree_oid_hex fs \<noteq> zero_hex"
      by (auto simp: require_tree_def fs_typed_def)
    note L = lookup_of_node [OF x assms(3) False t(2)]
    have "read_blob G r (tree_oid_hex fs) norm = ebind (lookup G r (tree_oid_hex fs) norm) (\<lambda>entry.
       case entry of
         None \<Rightarrow> Inl (NotFoundError norm)
       | Some (oid_hex, mode) \<Rightarrow>
           if mode = MODE_TREE then Inl (IsADirectoryError norm)
           else ebind (hex_to_oid G oid_hex) (\<lambda>oid.
             require_ok G r ''git_blob_lookup'' (git_blob_lookup G r oid)))"
      by (simp add: read_blob_def lookup_def)
    then show ?thesis
      using x L t assms(2,3) False
      by (auto simp: read_outcome_def size_outcome_def link_outcome_def read_def exists_path_def is_dir_def
          fs_size_def entry_or_throw_def readlink_def require_ok_def blob_size_def
          split: option.splits node.splits)
  qed
qed

lemma fs_typed_same:
  assumes "fs_typed G r fs" "git_extends G r r'" "tree_oid_hex fs' = tree_oid_hex fs"
  shows "fs_typed G r' fs'"
proof -
  have "fs_node G r' fs' p = fs_node G r' fs p" for p using assms(3) by (simp add: fs_node_def)
  with assms fs_node_extends [OF assms(2)] show ?thesis unfolding fs_typed_def by metis
qed

lemma fs_typed_empty: "tree_oid_hex fs = [] \<Longrightarrow> fs_typed G r fs"
  by (simp add: fs_typed_def fs_node_def zero_hex_def)

end

context git_refdb
begin

lemma fs_typed_committed:
  assumes "commit_changes G fs writes removes msg report extra r = (Inr fs', r')" "settled writes removes"
    "fs_typed G r fs"
  shows "fs_typed G r' fs'"
  unfolding fs_typed_def
proof (intro conjI allI impI)
  note C = commit_changes_Inr [OF assms(1)]
  show "tree_oid_hex fs' \<noteq> zero_hex" using committed_tree [OF C] by blast
  fix p :: "string list"
  assume p: "p \<noteq> []"
  with assms(3) obtain x where "fs_node G r fs p = Inr x" by (auto simp: fs_typed_def)
  then have "fs_node G r fs p = Inr ((\<lambda>_. x) p)" by simp
  from committed_node [where old = "\<lambda>_. x", OF C assms(2) p this] show "\<exists>x. fs_node G r' fs' p = Inr x" by blast
qed

end

section \<open>Properties\<close>

text \<open>C11: well-typed snapshots do not go wrong. On a snapshot in which every entry names an object of
  the kind its mode claims, the outcome of each read is determined by the node at the path (its
  value or the documented exception, never a failure of libgit2), in this and every later state of the
  repository; and committing to it and squashing it give well-typed snapshots again.\<close>

theorem typed_snapshots_do_not_go_wrong:
  assumes "git_refdb G" "fs_typed G r fs"
  shows "(\<forall>r' path norm. git_extends G r r' \<and> normalize path = Inr norm \<and> norm \<noteq> [] \<longrightarrow>
      (\<exists>x. fs_node G r fs (split_slash norm) = Inr x \<and> read_outcome x (read G r' fs path) \<and>
        exists_path G r' fs path = Inr (x \<noteq> None) \<and> is_dir G r' fs path = Inr (x = Some Dir) \<and>
        size_outcome x (fs_size G r' fs path) \<and> link_outcome x (readlink G r' fs path))) \<and>
    (\<forall>ws rms msg rep ex fs' r'. settled ws rms \<and> commit_changes G fs ws rms msg rep ex r = (Inr fs', r') \<longrightarrow>
      fs_typed G r' fs') \<and>
    (\<forall>p msg fs' r'. squash G fs p msg r = (Inr fs', r') \<longrightarrow> fs_typed G r' fs')"
proof (intro conjI allI impI)
  note odb = git_refdb.axioms(1) [OF assms(1)]
  fix r' path norm
  assume a: "git_extends G r r' \<and> normalize path = Inr norm \<and> norm \<noteq> []"
  then have later: "fs_typed G r' fs" using git_odb.fs_typed_same [OF odb assms(2)] by blast
  from a have "split_slash norm \<noteq> []" using normalize_segs by blast
  with assms(2) obtain x where x: "fs_node G r fs (split_slash norm) = Inr x" by (auto simp: fs_typed_def)
  with a \<open>split_slash norm \<noteq> []\<close> git_odb.fs_node_extends [OF odb _ x]
  have "fs_node G r' fs (split_slash norm) = Inr x" by blast
  with git_odb.typed_reads [OF odb later] a x show "\<exists>x. fs_node G r fs (split_slash norm) = Inr x \<and> read_outcome x (read G r' fs path) \<and>
        exists_path G r' fs path = Inr (x \<noteq> None) \<and> is_dir G r' fs path = Inr (x = Some Dir) \<and>
        size_outcome x (fs_size G r' fs path) \<and> link_outcome x (readlink G r' fs path)" by fastforce
next
  fix ws rms msg rep ex fs' r'
  assume "settled ws rms \<and> commit_changes G fs ws rms msg rep ex r = (Inr fs', r')"
  then show "fs_typed G r' fs'" using git_refdb.fs_typed_committed [OF assms(1) _ _ assms(2)] by blast
next
  fix p msg fs' r'
  assume s: "squash G fs p msg r = (Inr fs', r')"
  then have "tree_oid_hex fs' = tree_oid_hex fs"
    by (auto simp: squash_def outcome_iff make_fs_def require_tree_def split: if_splits)
  moreover have "git_extends G r r'"
    using s by (auto simp: squash_def outcome_iff dest!: keepsD [OF git_odb.keeps_write_commit [OF git_refdb.axioms(1) [OF assms(1)]]]
        intro: git_adds_extends split: option.splits)
  ultimately show "fs_typed G r' fs'"
    using git_odb.fs_typed_same [OF git_refdb.axioms(1) [OF assms(1)] assms(2)] by blast
qed

lemma demo_fs_typed: "fs_typed mem_git demo_mem demo_fs"
proof -
  let ?a = "\<lparr>te_name = ''a'', te_oid = mem_oid 1, te_mode = MODE_TREE\<rparr>"
  let ?b = "\<lparr>te_name = ''b'', te_oid = mem_oid 0, te_mode = MODE_BLOB\<rparr>"
  have T2: "git_tree_lookup mem_git demo_mem (mem_oid 2) = Some [?a]" by code_simp
  have T1: "git_tree_lookup mem_git demo_mem (mem_oid 1) = Some [?b]" by code_simp
  have B0: "git_blob_lookup mem_git demo_mem (mem_oid 0) = Some [120]" by code_simp
  have hex: "hex_to_oid mem_git ''010101'' = Inr (mem_oid 2)" "''010101'' \<noteq> zero_hex" by code_simp+
  note by_name = git_odb.tree_byname [OF memory.git_odb_axioms T2] git_odb.tree_byname [OF memory.git_odb_axioms T1]
  have blob: "hex_to_oid mem_git (oid_to_hex mem_git (mem_oid 0)) = Inr (mem_oid 0)"
    by (simp add: hex_to_oid_def oid_to_hex_def memory.oid_roundtrip)
  have modes: "MODE_BLOB \<noteq> MODE_TREE" by (simp add: MODE_BLOB_def MODE_TREE_def)
  have below: "\<exists>y. entry_at_segs mem_git demo_mem (mem_oid 1) q = Inr y \<and>
      (y = None \<or> y = Some (oid_to_hex mem_git (mem_oid 0), MODE_BLOB))" for q
    by (cases q) (simp_all add: T1 by_name modes require_ok_def del: One_nat_def)
  have "\<exists>x. node_at mem_git demo_mem ''010101'' p = Inr x" if p: "p \<noteq> []" for p
  proof (cases p)
    case (Cons s q)
    with below [of q] show ?thesis
      by (auto simp: node_at_def view_def hex T2 by_name blob B0 modes require_ok_def simp del: One_nat_def)
  qed (use p in simp)
  then show ?thesis by (simp add: fs_typed_def fs_node_def demo_fs_def make_fs_def hex)
qed

theorem typed_snapshots_do_not_go_wrong_witness:
  "fs_typed mem_git demo_mem2 demo_fs2 \<and> (\<exists>x. read_outcome x (read mem_git demo_mem demo_fs ''a//nothing''))"
proof -
  note T = typed_snapshots_do_not_go_wrong [OF memory.git_refdb_axioms demo_fs_typed]
  have "settled [(''a/b'', to_bytes ''hi'', MODE_BLOB)] []" by (simp add: settled_def)
  with demo_commit T have "fs_typed mem_git demo_mem2 demo_fs2" by blast
  moreover have "normalize ''a//nothing'' = Inr ''a/nothing''" by code_simp
  with T have "\<exists>x. read_outcome x (read mem_git demo_mem demo_fs ''a//nothing'')" by blast
  ultimately show ?thesis by blast
qed

end
