(* ===== verification/Vost_Moves.thy ===== *)
theory Vost_Moves
  imports Vost_Sync Vost_Typing
begin

text \<open>
  Correctness of the operations that carry a subtree to another place: \<^verbatim>\<open>rename\<close> and
  \<^verbatim>\<open>copy_from_ref\<close>. Both collect the files below a directory of some snapshot, write them below the
  target and, for \<^verbatim>\<open>rename\<close>, remove the source. The shared part is stated on the abstract file system.
\<close>

section \<open>Carrying a subtree\<close>

text \<open>A file system: only proper names, nothing below a file, and no file with a directory's mode.\<close>

definition tree_shaped :: "(string list \<Rightarrow> node option) \<Rightarrow> bool" where
  "tree_shaped fsys \<longleftrightarrow> (\<forall>p d m. fsys p = Some (File d m) \<longrightarrow> p \<noteq> [] \<and> (\<forall>s\<in>set p. segment s) \<and> m \<noteq> MODE_TREE \<and>
     (\<forall>q. q \<noteq> [] \<longrightarrow> fsys (p @ q) = None))"

text \<open>The writes that carry the files at and below \<open>ss\<close> to \<open>ds\<close>.\<close>

definition carries :: "(string list \<Rightarrow> node option) \<Rightarrow> string list \<Rightarrow> string list \<Rightarrow> tree_write list \<Rightarrow> bool" where
  "carries fsys ss ds ws \<longleftrightarrow>
     set ws = {(join_slash (ds @ q), d, m) |q d m. ds @ q \<noteq> [] \<and> fsys (ss @ q) = Some (File d m)}"

lemma carries_nodes:
  assumes "carries fsys ss ds ws" "tree_shaped fsys" "\<forall>s\<in>set ds. segment s"
  shows "set (map write_node ws) = {(ds @ q, File d m) |q d m. ds @ q \<noteq> [] \<and> fsys (ss @ q) = Some (File d m)}"
proof -
  have split: "split_slash (join_slash (ds @ q)) = ds @ q" if "fsys (ss @ q) = Some (File d m)" for q d m
    using that assms(2,3) by (intro split_join) (auto simp: tree_shaped_def)
  have "set (map write_node ws) = write_node ` {(join_slash (ds @ q), d, m) |q d m. ds @ q \<noteq> [] \<and> fsys (ss @ q) = Some (File d m)}"
    using assms(1) by (simp add: carries_def)
  also have "\<dots> = {(ds @ q, File d m) |q d m. ds @ q \<noteq> [] \<and> fsys (ss @ q) = Some (File d m)}"
    using split by (auto simp: write_node_def image_iff) metis+
  finally show ?thesis .
qed

lemma carries_paths:
  assumes "carries fsys ss ds ws" "tree_shaped fsys" "\<forall>s\<in>set ds. segment s"
  shows "c \<in> fst ` set (map write_node ws) \<longleftrightarrow> (\<exists>q d m. c = ds @ q \<and> c \<noteq> [] \<and> fsys (ss @ q) = Some (File d m))"
  unfolding carries_nodes [OF assms] by force

text \<open>A carried file arrives.\<close>

lemma carried_file:
  assumes "carries fsys ss ds ws" "tree_shaped fsys" "\<forall>s\<in>set ds. segment s"
    "fsys (ss @ q) = Some (File d m)" "ds @ q \<noteq> []"
  shows "apply_changes ws rms old (ds @ q) = Some (File d m)"
proof -
  note P = carries_paths [OF assms(1-3)]
  have "\<not> on_way (fst ` set (map write_node ws)) [] (butlast (ds @ q))"
  proof
    assume "on_way (fst ` set (map write_node ws)) [] (butlast (ds @ q))"
    then obtain c where c: "prefix c (butlast (ds @ q))" "c \<in> fst ` set (map write_node ws)" by (auto simp: on_way_iff)
    then obtain q' d' m' where q': "c = ds @ q'" "fsys (ss @ q') = Some (File d' m')" unfolding P by blast
    have "strict_prefix c (ds @ q)"
      using c(1) assms(5) by (metis append_butlast_last_id not_Cons_self2 prefixI prefix_order.le_less_trans
          self_append_conv strict_prefix_def)
    then obtain x where "x \<noteq> []" "q = q' @ x" using q'(1) by (auto simp: strict_prefix_def prefix_def)
    with q'(2) assms(2,4) show False by (force simp: tree_shaped_def)
  qed
  moreover have "map_of (rev (map write_node ws)) (ds @ q) = Some (File d m)"
  proof (subst map_of_rev_functional)
    show "(ds @ q, File d m) \<in> set (map write_node ws)"
      unfolding carries_nodes [OF assms(1-3)] using assms(4,5) by blast
  qed (unfold carries_nodes [OF assms(1-3)], auto)
  ultimately show ?thesis by (simp add: apply_changes_def Let_def)
qed

text \<open>Nothing changes apart from the target, the removed paths and the directories above them.\<close>

lemma carried_apart:
  assumes "carries fsys ss ds ws" "tree_shaped fsys" "\<forall>s\<in>set ds. segment s"
    "\<not> prefix ds p" "\<not> prefix p ds" "\<And>x. x \<in> set rms \<Longrightarrow> \<not> prefix (split_slash x) p \<and> \<not> prefix p (split_slash x)"
  shows "apply_changes ws rms old p = old p"
proof -
  note P = carries_paths [OF assms(1-3)]
  have apart: "\<not> prefix c p" "\<not> prefix p c" if "c \<in> fst ` set (map write_node ws)" for c
    using that assms(4,5) unfolding P by (auto dest: append_prefixD prefix_same_cases simp: prefix_append)
  have "\<not> on_way (fst ` set (map write_node ws)) [] (butlast p)"
    using apart(1) prefix_order.trans [OF _ prefixeq_butlast] by (auto simp: on_way_iff)
  moreover have "map_of (rev (map write_node ws)) p = None"
    using apart(1) [of p] by (auto simp: map_of_eq_None_iff)
  moreover have "\<not> deeper p (map fst (map write_node ws) @ map split_slash rms)"
    using apart(2) assms(6) by (auto simp: deeper_def strict_prefix_def)
  moreover have "\<not> on_way (set (map split_slash rms)) [] p"
    using assms(6) by (auto simp: on_way_iff)
  ultimately show ?thesis by (simp add: apply_changes_def Let_def)
qed

text \<open>What is removed and lies apart from the target is gone.\<close>

lemma carried_removed:
  assumes "carries fsys ss ds ws" "tree_shaped fsys" "\<forall>s\<in>set ds. segment s"
    "\<not> prefix ds s" "\<not> prefix s ds" "s \<noteq> []" "map split_slash rms = [s]"
  shows "apply_changes ws rms old (s @ q) = None"
proof -
  note P = carries_paths [OF assms(1-3)]
  have apart: "\<not> prefix c (s @ q)" "\<not> prefix (s @ q) c" if "c \<in> fst ` set (map write_node ws)" for c
    using that assms(4,5) unfolding P
    by (auto dest!: append_prefixD prefix_same_cases [of ds _ s]) (metis append_prefixD prefixI prefix_same_cases)+
  have "map_of (rev (map write_node ws)) (s @ q) = None"
    using apart(1) [of "s @ q"] by (auto simp: map_of_eq_None_iff)
  moreover have "\<not> deeper (s @ q) (map fst (map write_node ws) @ map split_slash rms)"
    using apart(2) assms(7) by (auto simp: deeper_def strict_prefix_def)
  moreover have "on_way (set (map split_slash rms)) [] (s @ q)"
    using assms(6,7) by (auto simp: on_way_iff)
  ultimately show ?thesis by (simp add: apply_changes_def Let_def)
qed

lemma carries_settled:
  assumes "carries fsys ss ds ws" "tree_shaped fsys" "\<forall>s\<in>set ds. segment s"
    "\<And>x. x \<in> set rms \<Longrightarrow> \<not> prefix ds (split_slash x) \<and> \<not> prefix (split_slash x) ds"
    "\<And>x y. x \<in> set rms \<Longrightarrow> y \<in> set rms \<Longrightarrow> \<not> strict_prefix (split_slash x) (split_slash y)"
  shows "settled ws rms"
  unfolding settled_def
proof (intro conjI ballI)
  note P = carries_paths [OF assms(1-3)]
  fix x
  assume "x \<in> set (map split_slash rms)"
  then obtain y where y: "y \<in> set rms" "x = split_slash y" by auto
  have "\<not> strict_prefix x c" if c: "c \<in> fst ` set (map write_node ws)" for c
  proof
    assume "strict_prefix x c"
    moreover from c have "prefix ds c" unfolding P by auto
    ultimately have "prefix x ds \<or> prefix ds x" using prefix_same_cases by (auto simp: strict_prefix_def)
    with assms(4) [OF y(1)] y(2) show False by blast
  qed
  moreover have "\<not> strict_prefix x c" if "c \<in> set (map split_slash rms)" for c
    using that assms(5) [OF y(1)] y(2) by auto
  ultimately show "\<not> deeper x (map (fst \<circ> write_node) ws @ map split_slash rms)"
    by (auto simp: deeper_def)
next
  fix w
  assume "w \<in> set ws"
  with assms(1,2) show "snd (snd w) \<noteq> MODE_TREE" by (auto simp: carries_def tree_shaped_def)
qed

section \<open>Reading a subtree\<close>

context git_odb
begin

lemma entry_at_segs_segments:
  assumes "entry_at_segs G r oid p = Inr (Some e)"
  shows "p \<noteq> [] \<and> (\<forall>s\<in>set p. segment s)"
  using assms
proof (induction p arbitrary: oid)
  case (Cons n p)
  then obtain t te where t: "git_tree_lookup G r oid = Some t" "git_tree_entry_byname G t n = Some te"
      and rest: "p = [] \<or> entry_at_segs G r (te_oid te) p = Inr (Some e)"
    by (auto simp: outcome_iff split: option.splits if_splits)
  from t tree_byname [OF t(1)] have "te \<in> set t" "te_name te = n" by (auto simp: find_Some_iff)
  with tree_names [OF t(1)] have "segment n" by blast
  with rest Cons.IH show ?case by auto
qed simp

lemma entry_at_segs_below_file:
  assumes "entry_at_segs G r oid p = Inr (Some (h, m))" "m \<noteq> MODE_TREE" "q \<noteq> []"
  shows "entry_at_segs G r oid (p @ q) = Inr None"
  using assms
proof (induction p arbitrary: oid)
  case (Cons n p)
  then show ?case by (cases "p = []") (auto simp: outcome_iff split: option.splits if_splits)
qed simp

lemma node_at_File:
  "node_at G r hex p = Inr (Some (File d m)) \<longleftrightarrow> m \<noteq> MODE_TREE \<and>
    (\<exists>h oid. view G r hex p = Inr (Some (h, m)) \<and> hex_to_oid G h = Inr oid \<and> git_blob_lookup G r oid = Some d)"
proof (cases "view G r hex p")
  case (Inr e)
  then show ?thesis by (cases e) (auto simp: node_at_def outcome_iff split: if_splits)
qed (simp add: node_at_def)

text \<open>The nodes of a well-typed snapshot form a file system.\<close>

lemma tree_shaped_nodes:
  assumes "\<And>p. p \<noteq> [] \<Longrightarrow> fs_node G r fs p = Inr (old p)" "old [] = None"
  shows "tree_shaped old"
  unfolding tree_shaped_def
proof (intro allI impI)
  fix p d m
  assume f: "old p = Some (File d m)"
  then have p: "p \<noteq> []" using assms(2) by auto
  with assms(1) f have n: "fs_node G r fs p = Inr (Some (File d m))" by simp
  then have hex: "tree_oid_hex fs \<noteq> []" "tree_oid_hex fs \<noteq> zero_hex"
    by (auto simp: fs_node_def node_at_def view_def outcome_iff split: if_splits)
  with n obtain oid h where e: "hex_to_oid G (tree_oid_hex fs) = Inr oid" "entry_at_segs G r oid p = Inr (Some (h, m))"
      "m \<noteq> MODE_TREE"
    by (auto simp: fs_node_def node_at_File view_def outcome_iff)
  have "old (p @ q) = None" if "q \<noteq> []" for q
    using assms(1) [of "p @ q"] p entry_at_segs_below_file [OF e(2,3) that] hex e(1)
    by (simp add: fs_node_def node_at_def view_def)
  with p entry_at_segs_segments [OF e(2)] e(3) show "p \<noteq> [] \<and> (\<forall>s\<in>set p. segment s) \<and> m \<noteq> MODE_TREE \<and>
     (\<forall>q. q \<noteq> [] \<longrightarrow> old (p @ q) = None)" by blast
qed

text \<open>The files that \<^verbatim>\<open>rename\<close> and \<^verbatim>\<open>move\<close> collect below a directory.\<close>

lemma walked_file:
  assumes "walk_tree G r hex (join_slash ss) = Inr ws" "\<forall>s\<in>set ss. segment s" "hex \<noteq> zero_hex"
  shows "(path, we) \<in> set ws \<longleftrightarrow> (\<exists>q. path = join_slash (ss @ q) \<and> q \<noteq> [] \<and> (\<forall>s\<in>set q. segment s) \<and>
    we_name we = last q \<and> we_mode we \<noteq> MODE_TREE \<and> view G r hex (ss @ q) = Inr (Some (we_oid we, we_mode we)))"
proof -
  obtain root where root: "hex_to_oid G hex = Inr root"
    using assms(1) by (auto simp: walk_tree_def target_tree_def entry_at_path_def outcome_iff split: if_splits)
  with walk_tree_set [OF assms(1,2) root] assms(3) show ?thesis by (auto simp: view_def)
qed

text \<open>Reading what was walked gives the files below the directory.\<close>

lemma carried_walk:
  assumes w: "walk_tree G r hex (join_slash ss) = Inr ws" "\<forall>s\<in>set ss. segment s" "hex \<noteq> zero_hex"
    and xs: "\<And>x. x \<in> set xs \<longleftrightarrow> (\<exists>path we d. (path, we) \<in> set ws \<and> read_blob G r hex path = Inr d \<and>
      x = (tgt path, d, we_mode we))"
    and tgt: "\<And>q. q \<noteq> [] \<Longrightarrow> \<forall>s\<in>set q. segment s \<Longrightarrow> tgt (join_slash (ss @ q)) = join_slash (ds @ q)"
    and old: "\<And>p. p \<noteq> [] \<Longrightarrow> node_at G r hex p = Inr (fsys p)" "tree_shaped fsys" "\<And>d m. fsys ss \<noteq> Some (File d m)"
  shows "carries fsys ss ds xs"
proof -
  note W = walked_file [OF w]
  have split: "split_slash (join_slash (ss @ q)) = ss @ q" "join_slash (ss @ q) \<noteq> []"
    if "\<forall>s\<in>set q. segment s" "q \<noteq> []" for q
  proof -
    have "\<forall>s\<in>set (ss @ q). segment s" using that w(2) by auto
    then show "split_slash (join_slash (ss @ q)) = ss @ q" "join_slash (ss @ q) \<noteq> []"
      using join_slash_Nil_iff [of "ss @ q"] that(2) by auto
  qed
  have "x \<in> set xs \<longleftrightarrow> x \<in> {(join_slash (ds @ q), d, m) |q d m. ds @ q \<noteq> [] \<and> fsys (ss @ q) = Some (File d m)}" for x
  proof
    assume "x \<in> set xs"
    then obtain path we d where p: "(path, we) \<in> set ws" "read_blob G r hex path = Inr d" "x = (tgt path, d, we_mode we)"
      unfolding xs by blast
    from p(1) obtain q where q: "path = join_slash (ss @ q)" "q \<noteq> []" "\<forall>s\<in>set q. segment s"
        "view G r hex (ss @ q) = Inr (Some (we_oid we, we_mode we))" unfolding W by blast
    from p(2) q split [OF q(3,2)] old(1) [of "ss @ q"] read_blob_node [of path hex G r] w(3)
    obtain m where n: "node_at G r hex (ss @ q) = Inr (Some (File d m))" "fsys (ss @ q) = Some (File d m)"
      by (auto split: option.splits node.splits)
    from n(1) q(4) have "m = we_mode we" unfolding node_at_File by auto
    with n(2) p(3) q tgt [OF q(2,3)] show "x \<in> {(join_slash (ds @ q), d, m) |q d m. ds @ q \<noteq> [] \<and> fsys (ss @ q) = Some (File d m)}"
      by auto
  next
    assume "x \<in> {(join_slash (ds @ q), d, m) |q d m. ds @ q \<noteq> [] \<and> fsys (ss @ q) = Some (File d m)}"
    then obtain q d m where q: "x = (join_slash (ds @ q), d, m)" "fsys (ss @ q) = Some (File d m)" by blast
    have qn: "q \<noteq> []" using q(2) old(3) by auto
    have segs: "\<forall>s\<in>set q. segment s" using q(2) old(2) by (auto simp: tree_shaped_def)
    have n: "node_at G r hex (ss @ q) = Inr (Some (File d m))" using old(1) [of "ss @ q"] qn q(2) by simp
    then obtain h oid where h: "m \<noteq> MODE_TREE" "view G r hex (ss @ q) = Inr (Some (h, m))" unfolding node_at_File by blast
    have "(join_slash (ss @ q), \<lparr>we_name = last q, we_oid = h, we_mode = m\<rparr>) \<in> set ws"
      unfolding W using qn segs h by auto
    moreover have "read_blob G r hex (join_slash (ss @ q)) = Inr d"
      using read_blob_node [of "join_slash (ss @ q)" hex G r] split [OF segs qn] n w(3) by simp
    ultimately show "x \<in> set xs" unfolding xs q(1) using tgt [OF qn segs] by force
  qed
  then show ?thesis unfolding carries_def by blast
qed

lemma emap_set: "emap f xs = Inr ys \<Longrightarrow> set ys = {y. \<exists>x\<in>set xs. f x = Inr y}"
  by (induction xs arbitrary: ys) (auto simp: outcome_iff)

lemma moved_children_carries:
  assumes "moved_children G r hex (join_slash ss) (join_slash ds) = Inr xs" "\<forall>s\<in>set ss. segment s" "ss \<noteq> []" "ds \<noteq> []"
    "hex \<noteq> zero_hex" "\<And>p. p \<noteq> [] \<Longrightarrow> node_at G r hex p = Inr (fsys p)" "tree_shaped fsys" "\<And>d m. fsys ss \<noteq> Some (File d m)"
  shows "carries fsys ss ds xs"
proof -
  let ?tgt = "\<lambda>path. join_slash ds @ drop (length (join_slash ss)) path"
  from assms(1) obtain ws where ws: "walk_tree G r hex (join_slash ss) = Inr ws"
      and xs: "emap (\<lambda>(path, we). ebind (read_blob G r hex path) (\<lambda>data. Inr (?tgt path, data, we_mode we))) ws = Inr xs"
    by (auto simp: moved_children_def outcome_iff)
  show ?thesis
  proof (rule carried_walk [OF ws assms(2,5) _ _ assms(6-8), where tgt = ?tgt])
    fix x
    show "x \<in> set xs \<longleftrightarrow> (\<exists>path we d. (path, we) \<in> set ws \<and> read_blob G r hex path = Inr d \<and>
        x = (?tgt path, d, we_mode we))"
      unfolding emap_set [OF xs] by (simp add: Bex_def split_paired_Ex ebind_Inr_iff) metis
  qed (auto simp: join_slash_append assms(3,4))
qed

lemma carries_file:
  assumes "tree_shaped fsys" "fsys ss = Some (File d m)" "ds \<noteq> []"
  shows "carries fsys ss ds [(join_slash ds, d, m)]"
proof -
  have "fsys (ss @ q) = Some (File d' m') \<longleftrightarrow> q = [] \<and> d' = d \<and> m' = m" for q d' m'
    using assms(1,2) by (cases "q = []") (auto simp: tree_shaped_def)
  with assms(3) show ?thesis unfolding carries_def by auto
qed

lemma rename_plan_carries:
  assumes "rename_plan G r hex None (join_slash ss) (join_slash ds) = Inr ws" "\<forall>s\<in>set ss. segment s" "ss \<noteq> []" "ds \<noteq> []"
    "hex \<noteq> zero_hex" "\<And>p. p \<noteq> [] \<Longrightarrow> node_at G r hex p = Inr (fsys p)" "tree_shaped fsys"
  shows "carries fsys ss ds ws"
proof -
  have path: "join_slash ss \<noteq> []" "split_slash (join_slash ss) = ss"
    using assms(2,3) join_slash_Nil_iff by auto
  from assms(1) obtain h m where l: "lookup G r hex (join_slash ss) = Inr (Some (h, m))"
    by (auto simp: rename_plan_def outcome_iff split: option.splits)
  with path assms(5) have v: "view G r hex ss = Inr (Some (h, m))"
    by (simp add: lookup_def entry_at_path_def view_def)
  have n: "node_at G r hex ss = Inr (fsys ss)" using assms(3,6) by blast
  show ?thesis
  proof (cases "m = MODE_TREE")
    case True
    with v n have "fsys ss = Some Dir" by (simp add: node_at_def)
    then have "fsys ss \<noteq> Some (File d m)" for d m by simp
    with True assms(1) l moved_children_carries [OF _ assms(2-7)] show ?thesis
      by (simp add: rename_plan_def)
  next
    case False
    with assms(1) l obtain d where d: "read_blob G r hex (join_slash ss) = Inr d" "ws = [(join_slash ds, d, m)]"
      by (auto simp: rename_plan_def outcome_iff)
    from n v False d(1) path assms(5) read_blob_node [of "join_slash ss" hex G r] have "fsys ss = Some (File d m)"
      by (auto simp: node_at_def outcome_iff)
    with carries_file [OF assms(7) _ assms(4)] d(2) show ?thesis by simp
  qed
qed

end

context git_odb
begin

lemma store_path_join: "q \<noteq> [] \<Longrightarrow> \<forall>s\<in>set ds. segment s \<Longrightarrow> store_path (join_slash ds) (join_slash q) = join_slash (ds @ q)"
  by (cases "ds = []") (auto simp: store_path_def join_slash_append join_slash_Nil_iff)

lemma ref_dir_carries:
  assumes "ref_dir_writes G r hex contents (join_slash ds) (join_slash ss) = Inr xs" "contents \<or> ss = []"
    "\<forall>s\<in>set ss. segment s" "\<forall>s\<in>set ds. segment s" "hex \<noteq> zero_hex"
    "\<And>p. p \<noteq> [] \<Longrightarrow> node_at G r hex p = Inr (fsys p)" "tree_shaped fsys" "\<And>d m. fsys ss \<noteq> Some (File d m)"
  shows "carries fsys ss ds xs"
proof -
  let ?ns = "join_slash ss"
  let ?rel = "\<lambda>path. if ?ns = [] then path else drop (length ?ns + 1) path"
  let ?tgt = "\<lambda>path. store_path (join_slash ds) (?rel path)"
  let ?f = "\<lambda>(path, we). if ?ns \<noteq> [] \<and> \<not> length path > length ?ns + 1 then Inr []
    else ebind (read_blob G r hex path) (\<lambda>d. Inr [(?tgt path, d, we_mode we)])"
  have ns: "?ns = [] \<longleftrightarrow> ss = []" using join_slash_Nil_iff [OF assms(3)] .
  from assms(1) obtain ws wss where ws: "walk_tree G r hex ?ns = Inr ws"
      and xs: "emap ?f ws = Inr wss"
      and concat: "xs = concat wss"
    using assms(2) ns by (auto simp: ref_dir_writes_def outcome_iff Let_def ref_dir_target_def cong: if_cong)
  have long: "ss = [] \<or> length path > length ?ns + 1" "path \<noteq> []" if "(path, we) \<in> set ws" for path we
  proof -
    from that obtain q where q: "path = join_slash (ss @ q)" "q \<noteq> []" "\<forall>s\<in>set q. segment s"
      unfolding walked_file [OF ws assms(3,5)] by blast
    from q join_slash_Nil_iff [of q] have "join_slash q \<noteq> []" by simp
    with q show "ss = [] \<or> length path > length ?ns + 1" "path \<noteq> []"
      by (cases "ss = []"; simp add: join_slash_append)+
  qed
  show ?thesis
  proof (rule carried_walk [OF ws assms(3,5) _ _ assms(6-8), where tgt = ?tgt])
    fix x
    show "x \<in> set xs \<longleftrightarrow> (\<exists>path we d. (path, we) \<in> set ws \<and> read_blob G r hex path = Inr d \<and> x = (?tgt path, d, we_mode we))"
    proof
      assume "x \<in> set xs"
      then obtain w where w: "w \<in> set wss" "x \<in> set w" unfolding concat by auto
      from w(1) emap_set [OF xs] obtain y where y: "y \<in> set ws" "?f y = Inr w" by blast
      with w(2) show "\<exists>path we d. (path, we) \<in> set ws \<and> read_blob G r hex path = Inr d \<and> x = (?tgt path, d, we_mode we)"
        by (cases y) (auto simp: outcome_iff split: if_splits, blast+)
    next
      assume "\<exists>path we d. (path, we) \<in> set ws \<and> read_blob G r hex path = Inr d \<and> x = (?tgt path, d, we_mode we)"
      then obtain path we d where w: "(path, we) \<in> set ws" "read_blob G r hex path = Inr d" "x = (?tgt path, d, we_mode we)" by blast
      have "[x] \<in> set wss"
        unfolding emap_set [OF xs] using w long(1) [OF w(1)] ns by (auto intro!: bexI [OF _ w(1)])
      then show "x \<in> set xs" unfolding concat by force
    qed
  next
    fix q :: "string list"
    assume "q \<noteq> []" "\<forall>s\<in>set q. segment s"
    then show "?tgt (join_slash (ss @ q)) = join_slash (ds @ q)"
      using store_path_join [OF _ assms(4)] ns by (cases "ss = []") (simp_all add: join_slash_append)
  qed
qed

text \<open>The files of the destination that \<^verbatim>\<open>delete_extra\<close> removes.\<close>

lemma entry_at_segs_below_none:
  assumes "entry_at_segs G r oid p = Inr None" "p \<noteq> []"
  shows "entry_at_segs G r oid (p @ q) = Inr None"
  using assms
proof (induction p arbitrary: oid)
  case (Cons n p)
  then show ?case by (cases "p = []") (auto simp: outcome_iff split: option.splits if_splits)
qed simp

lemma walked_paths:
  assumes "walk_tree G r hex (join_slash ds) = Inr es" "\<forall>s\<in>set ds. segment s" "hex \<noteq> zero_hex"
    "\<And>p. p \<noteq> [] \<Longrightarrow> node_at G r hex p = Inr (old p)" "tree_shaped old" "\<And>d m. old ds \<noteq> Some (File d m)"
  shows "set (map fst es) = {join_slash (ds @ q) |q d m. old (ds @ q) = Some (File d m)}"
proof -
  note W = walked_file [OF assms(1-3)]
  have "x \<in> set (map fst es) \<longleftrightarrow> (\<exists>q d m. x = join_slash (ds @ q) \<and> old (ds @ q) = Some (File d m))" for x
  proof
    assume "x \<in> set (map fst es)"
    then obtain we where "(x, we) \<in> set es" by auto
    then obtain q where q: "x = join_slash (ds @ q)" "q \<noteq> []" "we_mode we \<noteq> MODE_TREE"
        "view G r hex (ds @ q) = Inr (Some (we_oid we, we_mode we))" unfolding W by blast
    with assms(4) [of "ds @ q"] have "\<exists>d. old (ds @ q) = Some (File d (we_mode we))"
      by (auto simp: node_at_def outcome_iff) metis
    with q(1) show "\<exists>q d m. x = join_slash (ds @ q) \<and> old (ds @ q) = Some (File d m)" by blast
  next
    assume "\<exists>q d m. x = join_slash (ds @ q) \<and> old (ds @ q) = Some (File d m)"
    then obtain q d m where q: "x = join_slash (ds @ q)" "old (ds @ q) = Some (File d m)" by blast
    have qn: "q \<noteq> []" using q(2) assms(6) by auto
    have segs: "\<forall>s\<in>set q. segment s" using q(2) assms(5) by (auto simp: tree_shaped_def)
    from q(2) assms(4) [of "ds @ q"] qn obtain h where "m \<noteq> MODE_TREE" "view G r hex (ds @ q) = Inr (Some (h, m))"
      by (auto simp: node_at_File)
    then have "(x, \<lparr>we_name = last q, we_oid = h, we_mode = m\<rparr>) \<in> set es" unfolding W using qn segs q(1) by auto
    then show "x \<in> set (map fst es)" by force
  qed
  then show ?thesis by blast
qed

lemma extra_files_set:
  assumes "extra_files G r fs (join_slash ds) kept = Inr xs" "\<forall>s\<in>set ds. segment s"
    "tree_oid_hex fs \<noteq> zero_hex" "\<And>p. p \<noteq> [] \<Longrightarrow> node_at G r (tree_oid_hex fs) p = Inr (old p)" "tree_shaped old"
    "\<And>d m. old ds \<noteq> Some (File d m)"
  shows "set xs = {join_slash (ds @ q) |q d m. old (ds @ q) = Some (File d m)} - set kept"
proof -
  let ?hex = "tree_oid_hex fs"
  from assms(1) obtain es where xs: "xs = filter (\<lambda>p. p \<notin> set kept) (map fst es)"
      and es: "if ds = [] then walk_tree G r ?hex (join_slash ds) = Inr es
        else ebind (lookup G r ?hex (join_slash ds)) (\<lambda>entry. case entry of
            Some (h, mode) \<Rightarrow> if mode = MODE_TREE then walk_tree G r ?hex (join_slash ds) else Inr []
          | None \<Rightarrow> Inr []) = Inr es"
    using join_slash_Nil_iff [OF assms(2)] by (auto simp: extra_files_def outcome_iff split: if_splits)
  have "set (map fst es) = {join_slash (ds @ q) |q d m. old (ds @ q) = Some (File d m)}"
  proof (cases "walk_tree G r ?hex (join_slash ds) = Inr es")
    case True
    from walked_paths [OF this assms(2-6)] show ?thesis .
  next
    case False
    with es have ds: "ds \<noteq> []" and none: "es = []"
        and l: "\<exists>e. lookup G r ?hex (join_slash ds) = Inr e \<and> (\<forall>h. e \<noteq> Some (h, MODE_TREE))"
      by (auto simp: outcome_iff split: if_splits option.splits)
    then obtain oid e where e: "hex_to_oid G ?hex = Inr oid" "entry_at_segs G r oid ds = Inr e" "\<forall>h. e \<noteq> Some (h, MODE_TREE)"
      using join_slash_Nil_iff [OF assms(2)] split_join [OF assms(2)]
      by (auto simp: lookup_def entry_at_path_def outcome_iff)
    have "old (ds @ q) \<noteq> Some (File d m)" for q d m
    proof (cases "q = []")
      case True
      with assms(6) show ?thesis by simp
    next
      case False
      have "entry_at_segs G r oid (ds @ q) = Inr None"
        using e(2,3) entry_at_segs_below_none [OF _ ds] entry_at_segs_below_file [OF _ _ False]
        by (cases e) (auto split: prod.splits)
      with assms(3) e(1) ds assms(4) [of "ds @ q"] show ?thesis by (simp add: node_at_def view_def)
    qed
    with none show ?thesis by simp
  qed
  with xs show ?thesis by auto
qed

end

text \<open>The conclusion shared by the operations: files arrive, the rest stays.\<close>

context git_refdb
begin

lemma committed_carried:
  assumes "commit_changes G fs ws rms msg rep ex r = (Inr fs', r')" "carries fsys ss ds ws" "tree_shaped fsys"
    "\<forall>s\<in>set ds. segment s" "\<And>p. p \<noteq> [] \<Longrightarrow> fs_node G r fs p = Inr (old p)" "settled ws rms" "p \<noteq> []"
  shows "(\<forall>q d m. p = ds @ q \<and> fsys (ss @ q) = Some (File d m) \<longrightarrow> fs_node G r' fs' p = Inr (Some (File d m))) \<and>
    (\<not> prefix ds p \<and> \<not> prefix p ds \<and> (\<forall>x\<in>set rms. \<not> prefix (split_slash x) p \<and> \<not> prefix p (split_slash x)) \<longrightarrow>
      fs_node G r' fs' p = Inr (old p)) \<and>
    (\<forall>s q. map split_slash rms = [s] \<and> s \<noteq> [] \<and> p = s @ q \<and> \<not> prefix ds s \<and> \<not> prefix s ds \<longrightarrow>
      fs_node G r' fs' p = Inr None)"
proof -
  have node: "fs_node G r' fs' p = Inr (apply_changes ws rms old p)"
    using committed_node [where old = old, OF commit_changes_Inr [OF assms(1)] assms(6,7) assms(5) [OF assms(7)]] .
  show ?thesis
    unfolding node
  proof (intro conjI allI impI)
    fix s q
    assume "map split_slash rms = [s] \<and> s \<noteq> [] \<and> p = s @ q \<and> \<not> prefix ds s \<and> \<not> prefix s ds"
    then show "Inr (apply_changes ws rms old p) = Inr None"
      using carried_removed [OF assms(2-4), of s rms old q] by simp
  qed (use assms(7) in \<open>auto intro: carried_file [OF assms(2-4)] carried_apart [OF assms(2-4)]\<close>)
qed

end

text \<open>Extra files of the target go, when no file of one side lies below a file of the other.\<close>

lemma carried_extra:
  assumes "carries fsys ss ds ws" "tree_shaped fsys" "\<forall>s\<in>set ds. segment s"
    "\<And>d m. fsys (ss @ q) \<noteq> Some (File d m)"
    "\<And>q' d m. fsys (ss @ q') = Some (File d m) \<Longrightarrow> \<not> strict_prefix q q' \<and> \<not> strict_prefix q' q"
    "\<And>x. x \<in> set rms \<Longrightarrow> \<not> strict_prefix (ds @ q) (split_slash x) \<and> \<not> strict_prefix (split_slash x) (ds @ q)"
    "ds @ q \<noteq> []"
  shows "apply_changes ws rms old (ds @ q) = (if ds @ q \<in> set (map split_slash rms) then None else old (ds @ q))"
proof -
  note P = carries_paths [OF assms(1-3)]
  have apart: "\<not> prefix c (ds @ q)" "\<not> strict_prefix (ds @ q) c" if c: "c \<in> fst ` set (map write_node ws)" for c
  proof -
    from c obtain q' d m where q': "c = ds @ q'" "fsys (ss @ q') = Some (File d m)" unfolding P by blast
    with assms(4) have "q' \<noteq> q" by auto
    with assms(5) [OF q'(2)] have "\<not> prefix q' q" "\<not> strict_prefix q q'" by (simp_all add: strict_prefix_def)
    with q'(1) show "\<not> prefix c (ds @ q)" "\<not> strict_prefix (ds @ q) c" by (simp_all add: strict_prefix_def)
  qed
  have "\<not> on_way (fst ` set (map write_node ws)) [] (butlast (ds @ q))"
  proof
    assume "on_way (fst ` set (map write_node ws)) [] (butlast (ds @ q))"
    then obtain c where "c \<in> fst ` set (map write_node ws)" "prefix c (butlast (ds @ q))"
      unfolding on_way_iff append_Nil by blast
    with apart(1) show False using prefix_order.trans [OF _ prefixeq_butlast] by blast
  qed
  moreover have "ds @ q \<notin> fst ` set (map write_node ws)" using apart(1) by blast
  then have "map_of (rev (map write_node ws)) (ds @ q) = None" by (simp add: map_of_eq_None_iff)
  moreover have "\<not> deeper (ds @ q) (map fst (map write_node ws) @ map split_slash rms)"
    using apart(2) assms(6) unfolding deeper_def set_append set_map by blast
  moreover have "on_way (set (map split_slash rms)) [] (ds @ q) \<longleftrightarrow> ds @ q \<in> set (map split_slash rms)"
  proof
    assume "on_way (set (map split_slash rms)) [] (ds @ q)"
    then obtain x where x: "x \<in> set rms" "prefix (split_slash x) (ds @ q)" unfolding on_way_iff by auto
    with assms(6) [OF x(1)] have "split_slash x = ds @ q" by (simp add: strict_prefix_def)
    with x(1) show "ds @ q \<in> set (map split_slash rms)" by force
  next
    assume "ds @ q \<in> set (map split_slash rms)"
    then show "on_way (set (map split_slash rms)) [] (ds @ q)"
      unfolding on_way_iff append_Nil using assms(7) by blast
  qed
  ultimately show ?thesis unfolding apply_changes_def Let_def by simp
qed

text \<open>
  The removes of \<open>delete_extra\<close>: the files of the destination that are not written. No file of one
  side has the path of a directory of the other.
\<close>

definition extras :: "bool \<Rightarrow> (string list \<Rightarrow> node option) \<Rightarrow> string list \<Rightarrow> tree_write list \<Rightarrow> string list \<Rightarrow> bool" where
  "extras del old ds ws rms \<longleftrightarrow>
     set rms = (if del then {join_slash (ds @ q) |q d m. old (ds @ q) = Some (File d m)} - fst ` set ws else {})"

definition compatible :: "(string list \<Rightarrow> node option) \<Rightarrow> string list \<Rightarrow> (string list \<Rightarrow> node option) \<Rightarrow> string list \<Rightarrow> bool" where
  "compatible fsys ss old ds \<longleftrightarrow> (\<forall>q q' d m d' m'. fsys (ss @ q) = Some (File d m) \<longrightarrow> old (ds @ q') = Some (File d' m') \<longrightarrow>
     \<not> strict_prefix q q' \<and> \<not> strict_prefix q' q)"

lemma extras_file:
  assumes "extras del old ds ws rms" "tree_shaped old" "x \<in> set rms"
  shows "\<exists>q d m. split_slash x = ds @ q \<and> old (ds @ q) = Some (File d m) \<and> del \<and> x \<notin> fst ` set ws"
  using assms by (auto simp: extras_def tree_shaped_def split: if_splits)

lemma files_apart:
  "tree_shaped old \<Longrightarrow> old p = Some (File d m) \<Longrightarrow> old p' = Some (File d' m') \<Longrightarrow> \<not> strict_prefix p p'"
  by (force simp: tree_shaped_def strict_prefix_def prefix_def)

lemma extras_settled:
  assumes "carries fsys ss ds ws" "tree_shaped fsys" "\<forall>s\<in>set ds. segment s" "extras del old ds ws rms" "tree_shaped old"
    "compatible fsys ss old ds"
  shows "settled ws rms"
  unfolding settled_def
proof (intro conjI ballI)
  fix y
  assume "y \<in> set (map split_slash rms)"
  then obtain x where x: "x \<in> set rms" "y = split_slash x" by auto
  from extras_file [OF assms(4,5) x(1)] x(2) obtain q d m where y: "y = ds @ q" "old (ds @ q) = Some (File d m)" by blast
  have "\<not> strict_prefix y c" if "c \<in> fst ` set (map write_node ws)" for c
  proof -
    from that carries_paths [OF assms(1-3), of c] obtain q' d' m' where
        "c = ds @ q'" "fsys (ss @ q') = Some (File d' m')" by blast
    with assms(6) y show ?thesis by (auto simp: compatible_def strict_prefix_def)
  qed
  moreover have "\<not> strict_prefix y c" if "c \<in> set (map split_slash rms)" for c
  proof -
    from that obtain z where "z \<in> set rms" "c = split_slash z" by auto
    with extras_file [OF assms(4,5), of z] files_apart [OF assms(5) y(2)] y(1) show ?thesis by auto
  qed
  ultimately show "\<not> deeper y (map (fst \<circ> write_node) ws @ map split_slash rms)" by (auto simp: deeper_def)
qed (use assms(1,2) in \<open>auto simp: carries_def tree_shaped_def\<close>)

text \<open>A file of the destination that is not overwritten.\<close>

lemma extras_kept:
  assumes "carries fsys ss ds ws" "tree_shaped fsys" "\<forall>s\<in>set ds. segment s" "extras del old ds ws rms" "tree_shaped old"
    "compatible fsys ss old ds" "old (ds @ q) = Some (File d m)" "\<And>d' m'. fsys (ss @ q) \<noteq> Some (File d' m')"
  shows "apply_changes ws rms old (ds @ q) = (if del then None else old (ds @ q))"
proof -
  note P = carries_paths [OF assms(1-3)]
  have ne: "ds @ q \<noteq> []" using assms(5,7) by (auto simp: tree_shaped_def)
  have "apply_changes ws rms old (ds @ q) = (if ds @ q \<in> set (map split_slash rms) then None else old (ds @ q))"
  proof (rule carried_extra [OF assms(1-3,8) _ _ ne])
    fix x
    assume "x \<in> set rms"
    with extras_file [OF assms(4,5)] files_apart [OF assms(5)] assms(7)
    show "\<not> strict_prefix (ds @ q) (split_slash x) \<and> \<not> strict_prefix (split_slash x) (ds @ q)" by metis
  qed (use assms(6,7) in \<open>auto simp: compatible_def\<close>)
  moreover have "ds @ q \<in> set (map split_slash rms) \<longleftrightarrow> del"
  proof
    assume del
    have seg: "\<forall>s\<in>set (ds @ q). segment s" using assms(5,7) by (auto simp: tree_shaped_def)
    then have "split_slash (join_slash (ds @ q)) \<notin> fst ` set (map write_node ws)"
      using P [of "ds @ q"] assms(8) by (simp only: split_join [OF seg]) blast
    then have "join_slash (ds @ q) \<notin> fst ` set ws" by (force simp: write_node_def)
    with assms(4,7) \<open>del\<close> have "join_slash (ds @ q) \<in> set rms" by (auto simp: extras_def)
    then show "ds @ q \<in> set (map split_slash rms)" using split_join [OF seg] by force
  qed (use extras_file [OF assms(4,5)] in auto)
  ultimately show ?thesis by simp
qed

lemma extras_apart:
  assumes "carries fsys ss ds ws" "tree_shaped fsys" "\<forall>s\<in>set ds. segment s" "extras del old ds ws rms" "tree_shaped old"
    "\<not> prefix ds p" "\<not> prefix p ds"
  shows "apply_changes ws rms old p = old p"
proof (rule carried_apart [OF assms(1-3,6,7)])
  fix x
  assume "x \<in> set rms"
  with extras_file [OF assms(4,5)] obtain q where "split_slash x = ds @ q" by blast
  with assms(6,7) show "\<not> prefix (split_slash x) p \<and> \<not> prefix p (split_slash x)"
    by (metis append_prefixD prefixI prefix_same_cases)
qed

lemma apply_no_changes [simp]: "apply_changes [] [] old = old"
  by (rule ext) (auto simp: apply_changes_def deeper_def on_way_iff Let_def)

lemma normalize_dest_segs:
  assumes "normalize_dest path = Inr norm"
  shows "(\<forall>s\<in>set (split_slash norm). segment s) \<and> join_slash (split_slash norm) = norm"
proof (cases "norm = []")
  case True
  then show ?thesis by (simp add: split_slash_Nil_iff)
next
  case False
  with assms normalize_segs [of path norm] show ?thesis by (auto simp: normalize_dest_def split: if_splits)
qed

lemma copy_from_ref_steps:
  assumes "copy_from_ref G fs source [src] dest opts r = (Inr fs', r')" "\<not> cf_dry_run opts" "normalize_dest dest = Inr nd"
  shows "tree_oid_hex source \<noteq> [] \<and> (\<exists>ws rms. ref_source_writes G r fs (tree_oid_hex source) nd src = Inr ws \<and>
    (if cf_delete_extra opts \<and> tree_oid_hex fs \<noteq> [] then extra_files G r fs nd (map fst ws) = Inr rms else rms = []) \<and>
    (if ws = [] \<and> rms = [] then fs' = fs \<and> r' = r
     else \<exists>msg. commit_changes G fs ws rms msg None (cf_parents opts) r = (Inr fs', r')))"
proof -
  let ?fin = "\<lambda>ws rms. if ws = [] \<and> rms = [] then sreturn fs
    else commit_changes G fs ws rms (format_message ''copy_from_ref'' (cf_message opts)) None (cf_parents opts)"
  have finish: "if ws = [] \<and> rms = [] then fs' = fs \<and> r' = r
     else \<exists>msg. commit_changes G fs ws rms msg None (cf_parents opts) r = (Inr fs', r')"
    if "?fin ws rms r = (Inr fs', r')" for ws rms
  proof (cases "ws = [] \<and> rms = []")
    case True
    with that show ?thesis by simp
  next
    case False
    from that show ?thesis unfolding if_not_P [OF False] by blast
  qed
  have tree: "tree_oid_hex source \<noteq> []"
    using assms(1) by (auto simp: copy_from_ref_def outcome_iff)
  have single: "(\<exists>x. (\<exists>y. A y \<and> [y] = x) \<and> B x) \<longleftrightarrow> (\<exists>y. A y \<and> B [y])"
    for A :: "tree_write list \<Rightarrow> bool" and B by blast
  note D = copy_from_ref_def outcome_iff Let_def single
  show ?thesis
  proof (cases "cf_delete_extra opts \<and> tree_oid_hex fs \<noteq> []")
    case True
    with assms tree have "\<exists>ws. ref_source_writes G r fs (tree_oid_hex source) nd src = Inr ws \<and>
        (\<exists>rms. extra_files G r fs nd (map fst ws) = Inr rms \<and> ?fin ws rms r = (Inr fs', r'))"
      by (simp add: D cong: if_cong)
    with True tree finish show ?thesis by (auto simp only: if_True simp_thms)
  next
    case False
    with assms tree have "\<exists>ws. ref_source_writes G r fs (tree_oid_hex source) nd src = Inr ws \<and> ?fin ws [] r = (Inr fs', r')"
      by (simp add: D cong: if_cong)
    then obtain ws where ws: "ref_source_writes G r fs (tree_oid_hex source) nd src = Inr ws" "?fin ws [] r = (Inr fs', r')" by blast
    from finish [OF ws(2)] ws(1) tree show ?thesis unfolding if_not_P [OF False] by blast
  qed
qed

context git_refdb
begin

text \<open>What \<^verbatim>\<open>copy_from_ref\<close> commits for the contents of one directory.\<close>

lemma copy_from_ref_Inr:
  assumes "copy_from_ref G fs source [src] dest opts r = (Inr fs', r')" "\<not> cf_dry_run opts"
    "normalize_dest src = Inr (join_slash ss)" "normalize_dest dest = Inr (join_slash ds)"
    "\<forall>s\<in>set ss. segment s" "\<forall>s\<in>set ds. segment s" "ss = [] \<or> last src = CHR ''/''"
    "\<And>p. p \<noteq> [] \<Longrightarrow> fs_node G r fs p = Inr (old p)" "old [] = None" "tree_oid_hex fs \<noteq> zero_hex"
    "\<And>p. p \<noteq> [] \<Longrightarrow> fs_node G r source p = Inr (from p)" "from [] = None" "tree_oid_hex source \<noteq> zero_hex"
    "\<And>d m. from ss \<noteq> Some (File d m)" "\<And>d m. old ds \<noteq> Some (File d m)"
  shows "\<exists>ws rms. carries from ss ds ws \<and>
    extras (cf_delete_extra opts) old ds ws rms \<and>
    (ws = [] \<and> rms = [] \<and> fs' = fs \<and> r' = r \<or>
     (\<exists>msg. commit_changes G fs ws rms msg None (cf_parents opts) r = (Inr fs', r')))"
proof -
  note fshape = tree_shaped_nodes [OF assms(11,12)] and oshape = tree_shaped_nodes [OF assms(8,9)]
  obtain ws rms where tree: "tree_oid_hex source \<noteq> []"
      and ws: "ref_source_writes G r fs (tree_oid_hex source) (join_slash ds) src = Inr ws"
      and rms: "if cf_delete_extra opts \<and> tree_oid_hex fs \<noteq> [] then extra_files G r fs (join_slash ds) (map fst ws) = Inr rms else rms = []"
      and c: "ws = [] \<and> rms = [] \<and> fs' = fs \<and> r' = r \<or>
        (\<exists>msg. commit_changes G fs ws rms msg None (cf_parents opts) r = (Inr fs', r'))"
  proof -
    from copy_from_ref_steps [OF assms(1,2,4)] obtain ws rms where
        *: "tree_oid_hex source \<noteq> []" "ref_source_writes G r fs (tree_oid_hex source) (join_slash ds) src = Inr ws"
          "if cf_delete_extra opts \<and> tree_oid_hex fs \<noteq> [] then extra_files G r fs (join_slash ds) (map fst ws) = Inr rms else rms = []"
        and c: "if ws = [] \<and> rms = [] then fs' = fs \<and> r' = r
          else \<exists>msg. commit_changes G fs ws rms msg None (cf_parents opts) r = (Inr fs', r')" by blast
    show thesis
      by (rule that [OF *]) (use c in \<open>simp split: if_split_asm\<close>)
  qed
  have from_node: "node_at G r (tree_oid_hex source) p = Inr (from p)" if "p \<noteq> []" for p
    using assms(11) [OF that] tree by (simp add: fs_node_def)
  let ?contents = "src \<noteq> [] \<and> last src = CHR ''/''"
  have path: "join_slash ss = [] \<longleftrightarrow> ss = []" "split_slash (join_slash ss) = ss"
    using join_slash_Nil_iff [OF assms(5)] split_join [OF assms(5)] by auto
  have "src = [] \<Longrightarrow> ss = []" using assms(3) path(1) by (auto simp: normalize_dest_def)
  then have contents: "?contents \<or> ss = []" using assms(7) by auto
  have "ref_dir_writes G r (tree_oid_hex source) ?contents (join_slash ds) (join_slash ss) = Inr ws"
  proof (cases "ss = []")
    case True
    with ws assms(3) show ?thesis by (simp add: ref_source_writes_def Let_def)
  next
    case False
    with ws assms(3) path(1) obtain h m where l: "lookup G r (tree_oid_hex source) (join_slash ss) = Inr (Some (h, m))"
      by (auto simp: ref_source_writes_def outcome_iff Let_def split: option.splits)
    with False path assms(13) have "view G r (tree_oid_hex source) ss = Inr (Some (h, m))"
      by (simp add: lookup_def entry_at_path_def view_def)
    then have "m = MODE_TREE \<or> (\<exists>d. from ss = Some (File d m))"
      using from_node [OF False] by (cases "m = MODE_TREE") (auto simp: node_at_def outcome_iff dest: sym)
    with assms(14) have "m = MODE_TREE" by blast
    with ws assms(3) False path(1) l show ?thesis by (simp add: ref_source_writes_def Let_def)
  qed
  note C = ref_dir_carries [OF this contents assms(5,6,13) from_node fshape assms(14)]
  have "extras (cf_delete_extra opts) old ds ws rms"
  proof (cases "cf_delete_extra opts \<and> tree_oid_hex fs \<noteq> []")
    case True
    then have "node_at G r (tree_oid_hex fs) p = Inr (old p)" if "p \<noteq> []" for p
      using assms(8) [OF that] by (simp add: fs_node_def)
    note E = extra_files_set [OF _ assms(6,10) this oshape assms(15), of "map fst ws" rms]
    from rms True have "extra_files G r fs (join_slash ds) (map fst ws) = Inr rms" by simp
    from E [OF this] True show ?thesis by (simp add: extras_def)
  next
    case False
    have "old p = None" if "tree_oid_hex fs = []" for p
      using that assms(8) [of p] assms(9) by (cases "p = []") (simp_all add: fs_node_def)
    with False rms show ?thesis by (auto simp: extras_def)
  qed
  with C c show ?thesis by blast
qed

end

section \<open>Properties\<close>

text \<open>C26: \<^verbatim>\<open>rename\<close> moves a file or a whole directory. When neither path lies inside the other, in the
  new snapshot every file at or below the source has arrived at the same place relative to the
  target with its contents and mode, nothing is left at or below the source, and every path
  apart from both (and not above them) is as it was.\<close>

theorem rename_moves_subtree:
  assumes "git_refdb G" "rename_fs G fs src dest opts r = (Inr fs', r')" "wo_mode opts = None"
    "normalize src = Inr ns" "normalize dest = Inr nd" "split_slash ns = ss" "split_slash nd = ds"
    "fs_typed G r fs" "old = nodes_of G r fs" "\<not> prefix ss ds" "\<not> prefix ds ss"
  shows "(\<forall>q d m. old (ss @ q) = Some (File d m) \<longrightarrow> fs_node G r' fs' (ds @ q) = Inr (Some (File d m))) \<and>
    (\<forall>q. fs_node G r' fs' (ss @ q) = Inr None) \<and>
    (\<forall>p. \<not> prefix ss p \<and> \<not> prefix p ss \<and> \<not> prefix ds p \<and> \<not> prefix p ds \<longrightarrow> fs_node G r' fs' p = Inr (old p))"
proof -
  note odb = git_refdb.axioms(1) [OF assms(1)]
  from nodes_of_typed(1) [OF assms(8)] nodes_of_typed(2) [of G r fs] assms(8,9)
  have nd: "\<And>p. p \<noteq> [] \<Longrightarrow> fs_node G r fs p = Inr (old p)" "old [] = None" and zero: "tree_oid_hex fs \<noteq> zero_hex"
    by (simp_all add: fs_typed_def)
  from assms(2-5) obtain ws msg where nn: "ns \<noteq> []" "nd \<noteq> []" "tree_oid_hex fs \<noteq> []"
      and plan: "rename_plan G r (tree_oid_hex fs) None ns nd = Inr ws"
      and c: "commit_changes G fs ws [ns] msg None (wo_parents opts) r = (Inr fs', r')"
    by (auto simp: rename_fs_def outcome_iff Let_def require_tree_def split: if_splits)
  from normalize_segs [OF assms(4) nn(1)] normalize_segs [OF assms(5) nn(2)] assms(6,7)
  have segs: "ss \<noteq> []" "\<forall>s\<in>set ss. segment s" "ns = join_slash ss" "ds \<noteq> []" "\<forall>s\<in>set ds. segment s" "nd = join_slash ds"
    by auto
  note shaped = git_odb.tree_shaped_nodes [OF odb nd]
  have nodes: "node_at G r (tree_oid_hex fs) p = Inr (old p)" if "p \<noteq> []" for p
    using nd(1) [OF that] nn(3) by (simp add: fs_node_def)
  note C = git_odb.rename_plan_carries [OF odb plan [unfolded segs(3,6)] segs(2,1,4) zero nodes shaped]
  have settled: "settled ws [ns]"
    using carries_settled [OF C shaped segs(5), of "[ns]"] assms(6,10,11) by auto
  note R = git_refdb.committed_carried [OF assms(1) c C shaped segs(5) nd(1) settled]
  show ?thesis
  proof (intro conjI allI impI)
    fix q d m
    assume "old (ss @ q) = Some (File d m)"
    with R [of "ds @ q"] segs(4) show "fs_node G r' fs' (ds @ q) = Inr (Some (File d m))" by blast
  next
    fix q
    from R [of "ss @ q"] segs(1) assms(6,10,11) show "fs_node G r' fs' (ss @ q) = Inr None" by simp
  next
    fix p
    assume p: "\<not> prefix ss p \<and> \<not> prefix p ss \<and> \<not> prefix ds p \<and> \<not> prefix p ds"
    then have "p \<noteq> []" by auto
    with R [of p] p assms(6) show "fs_node G r' fs' p = Inr (old p)" by simp
  qed
qed

text \<open>C29: \<^verbatim>\<open>copy_from_ref\<close> of the contents of a directory (its path ends with a slash or is empty) puts
  every file of the source directory at the same place below the destination, with contents and
  mode; other files of the destination stay, or go with \<^verbatim>\<open>delete_extra\<close>; and nothing changes
  apart from the destination. The last two hypotheses: both sides are directories and no file of
  one side has the path of a directory of the other.\<close>

theorem copy_from_ref_copies:
  assumes "git_refdb G" "copy_from_ref G fs source [src] dest opts r = (Inr fs', r')" "\<not> cf_dry_run opts"
    "normalize_dest src = Inr ns" "normalize_dest dest = Inr nd" "split_slash ns = ss" "split_slash nd = ds"
    "ss = [] \<or> last src = CHR ''/''"
    "fs_typed G r fs" "old = nodes_of G r fs" "fs_typed G r source" "from = nodes_of G r source"
    "\<And>d m. from ss \<noteq> Some (File d m) \<and> old ds \<noteq> Some (File d m)"
    "compatible from ss old ds"
  shows "(\<forall>q d m. from (ss @ q) = Some (File d m) \<longrightarrow> fs_node G r' fs' (ds @ q) = Inr (Some (File d m))) \<and>
    (\<forall>q d m. old (ds @ q) = Some (File d m) \<and> (\<forall>d' m'. from (ss @ q) \<noteq> Some (File d' m')) \<longrightarrow>
      fs_node G r' fs' (ds @ q) = Inr (if cf_delete_extra opts then None else old (ds @ q))) \<and>
    (\<forall>p. \<not> prefix ds p \<and> \<not> prefix p ds \<longrightarrow> fs_node G r' fs' p = Inr (old p))"
proof -
  note odb = git_refdb.axioms(1) [OF assms(1)]
  from nodes_of_typed(1) [OF assms(9)] nodes_of_typed(1) [OF assms(11)] nodes_of_typed(2) [of G r] assms(9-12)
  have nd: "\<And>p. p \<noteq> [] \<Longrightarrow> fs_node G r fs p = Inr (old p)" "old [] = None" "tree_oid_hex fs \<noteq> zero_hex"
      "\<And>p. p \<noteq> [] \<Longrightarrow> fs_node G r source p = Inr (from p)" "from [] = None" "tree_oid_hex source \<noteq> zero_hex"
    by (simp_all add: fs_typed_def)
  from normalize_dest_segs [OF assms(4)] normalize_dest_segs [OF assms(5)] assms(6,7)
  have segs: "\<forall>s\<in>set ss. segment s" "ns = join_slash ss" "\<forall>s\<in>set ds. segment s" "nd = join_slash ds" by auto
  note fshape = git_odb.tree_shaped_nodes [OF odb nd(4,5)] and oshape = git_odb.tree_shaped_nodes [OF odb nd(1,2)]
  have nofile: "\<And>d m. from ss \<noteq> Some (File d m)" "\<And>d m. old ds \<noteq> Some (File d m)" using assms(13) by blast+
  from git_refdb.copy_from_ref_Inr [OF assms(1,2,3) assms(4) [unfolded segs(2)] assms(5) [unfolded segs(4)] segs(1,3)
      assms(8) nd nofile] obtain ws rms where C: "carries from ss ds ws"
      and R: "extras (cf_delete_extra opts) old ds ws rms"
      and c: "ws = [] \<and> rms = [] \<and> fs' = fs \<and> r' = r \<or>
        (\<exists>msg. commit_changes G fs ws rms msg None (cf_parents opts) r = (Inr fs', r'))" by blast
  note E = C fshape segs(3) R oshape
  have node: "fs_node G r' fs' p = Inr (apply_changes ws rms old p)" if "p \<noteq> []" for p
    using c nd(1) [OF that] git_refdb.committed_node [where old = old, OF assms(1) git_refdb.commit_changes_Inr [OF assms(1)]
      extras_settled [OF E assms(14)] that] by auto
  show ?thesis
  proof (intro conjI allI impI)
    fix q d m
    assume f: "from (ss @ q) = Some (File d m)"
    then have "ds @ q \<noteq> []" using nofile(1) by auto
    with carried_file [OF C fshape segs(3) f] node show "fs_node G r' fs' (ds @ q) = Inr (Some (File d m))" by simp
  next
    fix q d m
    assume f: "old (ds @ q) = Some (File d m) \<and> (\<forall>d' m'. from (ss @ q) \<noteq> Some (File d' m'))"
    then have "ds @ q \<noteq> []" using nd(2) by auto
    with extras_kept [OF E assms(14), of q d m] f node
    show "fs_node G r' fs' (ds @ q) = Inr (if cf_delete_extra opts then None else old (ds @ q))" by auto
  next
    fix p
    assume p: "\<not> prefix ds p \<and> \<not> prefix p ds"
    then have "p \<noteq> []" by auto
    with extras_apart [OF E, of p] p node show "fs_node G r' fs' p = Inr (old p)" by simp
  qed
qed

section \<open>Witnesses\<close>

text \<open>The demonstration repository after renaming \<^verbatim>\<open>a\<close> to \<^verbatim>\<open>c\<close>.\<close>

definition demo_objs_renamed :: "mem_obj list" where
  "demo_objs_renamed = demo_objs @ [MTree [\<lparr>te_name = ''c'', te_oid = mem_oid 1, te_mode = MODE_TREE\<rparr>]]"

definition demo_objs_renamed2 :: "mem_obj list" where
  "demo_objs_renamed2 = demo_objs_renamed @
     [MCommit \<lparr>gc_message = Some ''rename: a -> c'', gc_author = Some demo_author, gc_time = 7,
        gc_tree = mem_oid 4, gc_parents = [mem_oid 3]\<rparr>]"

lemma not_isl_unit: "\<not> isl (fst x) \<Longrightarrow> \<exists>w. x = (Inr (), w)" for x :: "(verror + unit) \<times> 'r"
  by (cases x; cases "fst x") auto

lemma demo_rename: "\<exists>fs' r'. rename_fs mem_git demo_fs ''a'' ''c'' no_write_options demo_mem = (Inr fs', r')"
proof -
  have rb: "rebuild_tree mem_git ''010101'' [(''c/b'', [120], MODE_BLOB)] [''a''] demo_mem =
      (Inr ''0101010101'', demo_mem\<lparr>m_objs := demo_objs_renamed\<rparr>)" by code_simp
  have wc: "write_commit mem_git ''0101010101'' [''01010101''] default_signature ''rename: a -> c''
      (demo_mem\<lparr>m_objs := demo_objs_renamed\<rparr>) = (Inr ''010101010101'', demo_mem\<lparr>m_objs := demo_objs_renamed2\<rparr>)" by code_simp
  have "\<not> isl (fst (swap_ref mem_git ''refs/heads/main'' ''01010101'' ''010101010101'' ''rename: a -> c''
      (demo_mem\<lparr>m_objs := demo_objs_renamed2\<rparr>)))" by code_simp
  from not_isl_unit [OF this] obtain w where sw: "swap_ref mem_git ''refs/heads/main'' ''01010101'' ''010101010101'' ''rename: a -> c''
      (demo_mem\<lparr>m_objs := demo_objs_renamed2\<rparr>) = (Inr (), w)" ..
  have "commit_changes mem_git demo_fs [(''c/b'', [120], MODE_BLOB)] [''a''] ''rename: a -> c'' None [] demo_mem =
      (Inr (make_fs (inner demo_fs) ''010101010101'' ''0101010101'' (ref_name demo_fs) True None), w)"
    by (rule commit_changes_runs [of _ "''main''", OF _ mem_lock_free])
      (use rb wc sw demo_check_tip in \<open>simp_all add: demo_fs_def demo_inner_def make_fs_def require_writable_def\<close>)
  moreover have "normalize ''a'' = Inr ''a''" "normalize ''c'' = Inr ''c''" by code_simp+
  moreover have "rename_plan mem_git demo_mem ''010101'' None ''a'' ''c'' = Inr [(''c/b'', [120], MODE_BLOB)]" by code_simp
  moreover have "format_message (''rename: '' @ ''a'' @ '' -> '' @ ''c'') None = ''rename: a -> c''"
    by (simp add: format_message_def)
  moreover have "require_writable demo_fs ''rename'' = Inr ''main''" "require_tree demo_fs = Inr ''010101''"
    by (simp_all add: require_writable_def require_tree_def demo_fs_def make_fs_def)
  ultimately have "rename_fs mem_git demo_fs ''a'' ''c'' no_write_options demo_mem =
      (Inr (make_fs (inner demo_fs) ''010101010101'' ''0101010101'' (ref_name demo_fs) True None), w)"
    by (simp add: rename_fs_def no_write_options_def Let_def del: append.simps)
  then show ?thesis by blast
qed

lemma demo_nodes: "nodes_of mem_git demo_mem demo_fs [''a'', ''b''] = Some (File [120] MODE_BLOB)"
  using demo_node by (simp add: nodes_of_def fs_node_def demo_fs_def make_fs_def)

theorem rename_moves_subtree_witness:
  "\<exists>fs' r'. rename_fs mem_git demo_fs ''a'' ''c'' no_write_options demo_mem = (Inr fs', r') \<and>
    fs_node mem_git r' fs' [''c'', ''b''] = Inr (Some (File [120] MODE_BLOB)) \<and>
    fs_node mem_git r' fs' [''a'', ''b''] = Inr None"
proof -
  from demo_rename obtain fs' r' where run: "rename_fs mem_git demo_fs ''a'' ''c'' no_write_options demo_mem = (Inr fs', r')" by blast
  have n: "normalize ''a'' = Inr ''a''" "normalize ''c'' = Inr ''c''" by code_simp+
  have sp: "split_slash ''a'' = [''a'']" "split_slash ''c'' = [''c'']" by code_simp+
  have "wo_mode no_write_options = None" by (simp add: no_write_options_def)
  note R = rename_moves_subtree [OF memory.git_refdb_axioms run this n sp demo_fs_typed refl]
  have apart: "\<not> prefix [''a''] [''c'']" "\<not> prefix [''c''] [''a'']" by simp_all
  have fnode: "nodes_of mem_git demo_mem demo_fs ([''a''] @ [''b'']) = Some (File [120] MODE_BLOB)"
    using demo_nodes by simp
  from R [OF apart] fnode have "fs_node mem_git r' fs' ([''c''] @ [''b'']) = Inr (Some (File [120] MODE_BLOB))"
    "fs_node mem_git r' fs' ([''a''] @ [''b'']) = Inr None" by blast+
  then show ?thesis using run by (intro exI [of _ fs'] exI [of _ r']) simp
qed

text \<open>The old contents of \<^verbatim>\<open>a\<close> copied back over the new ones.\<close>

definition demo_copy_options :: CopyFromRefOptions where
  "demo_copy_options = \<lparr>cf_delete_extra = True, cf_dry_run = False, cf_message = None, cf_parents = []\<rparr>"

definition demo_objs_copied :: "mem_obj list" where
  "demo_objs_copied = demo_objs2 @
     [MCommit \<lparr>gc_message = Some ''copy_from_ref'', gc_author = Some demo_author, gc_time = 7,
        gc_tree = mem_oid 2, gc_parents = [mem_oid 7]\<rparr>]"

lemma demo_copy: "\<exists>fs' r'. copy_from_ref mem_git demo_fs2 demo_fs [''a/''] ''a'' demo_copy_options demo_mem2 = (Inr fs', r')"
proof -
  have rb: "rebuild_tree mem_git ''01010101010101'' [(''a/b'', [120], MODE_BLOB)] [] demo_mem2 =
      (Inr ''010101'', demo_mem2)" by code_simp
  have wc: "write_commit mem_git ''010101'' [''0101010101010101''] default_signature ''copy_from_ref'' demo_mem2 =
      (Inr ''010101010101010101'', demo_mem2\<lparr>m_objs := demo_objs_copied\<rparr>)" by code_simp
  have "\<not> isl (fst (swap_ref mem_git ''refs/heads/main'' ''0101010101010101'' ''010101010101010101'' ''copy_from_ref''
      (demo_mem2\<lparr>m_objs := demo_objs_copied\<rparr>)))" by code_simp
  from not_isl_unit [OF this] obtain w where sw: "swap_ref mem_git ''refs/heads/main'' ''0101010101010101'' ''010101010101010101'' ''copy_from_ref''
      (demo_mem2\<lparr>m_objs := demo_objs_copied\<rparr>) = (Inr (), w)" ..
  have ct: "check_tip mem_git ''main'' ''refs/heads/main'' ''0101010101010101'' demo_mem2 = Inr ()" by code_simp
  have "commit_changes mem_git demo_fs2 [(''a/b'', [120], MODE_BLOB)] [] ''copy_from_ref'' None [] demo_mem2 =
      (Inr (make_fs (inner demo_fs2) ''010101010101010101'' ''010101'' (ref_name demo_fs2) True None), w)"
    by (rule commit_changes_runs [of _ "''main''", OF _ mem_lock_free])
      (use rb wc sw ct in \<open>simp_all add: demo_fs2_def demo_inner_def make_fs_def require_writable_def\<close>)
  moreover have "normalize_dest ''a'' = Inr ''a''" by code_simp
  moreover have "ref_source_writes mem_git demo_mem2 demo_fs2 ''010101'' ''a'' ''a/'' = Inr [(''a/b'', [120], MODE_BLOB)]" by code_simp
  moreover have "extra_files mem_git demo_mem2 demo_fs2 ''a'' [''a/b''] = Inr []" by code_simp
  moreover have "format_message ''copy_from_ref'' None = ''copy_from_ref''" by (simp add: format_message_def)
  moreover have "require_writable demo_fs2 ''copy_from_ref'' = Inr ''main''" "tree_oid_hex demo_fs = ''010101''"
    "tree_oid_hex demo_fs2 \<noteq> []"
    by (simp_all add: require_writable_def demo_fs_def demo_fs2_def make_fs_def)
  ultimately have "copy_from_ref mem_git demo_fs2 demo_fs [''a/''] ''a'' demo_copy_options demo_mem2 =
      (Inr (make_fs (inner demo_fs2) ''010101010101010101'' ''010101'' (ref_name demo_fs2) True None), w)"
    by (simp add: copy_from_ref_def demo_copy_options_def Let_def)
  then show ?thesis by blast
qed

text \<open>The files of both snapshots: \<^verbatim>\<open>a/b\<close> alone.\<close>

lemma only_file:
  assumes "git_odb G" "git_tree_lookup G r x = Some [\<lparr>te_name = a, te_oid = y, te_mode = MODE_TREE\<rparr>]"
    "git_tree_lookup G r y = Some [\<lparr>te_name = b, te_oid = z, te_mode = MODE_BLOB\<rparr>]"
    "entry_at_segs G r x p = Inr (Some (h, m))" "m \<noteq> MODE_TREE"
  shows "p = [a, b]"
proof -
  note by_name = git_odb.tree_byname [OF assms(1,2)] git_odb.tree_byname [OF assms(1,3)]
  have modes: "MODE_BLOB \<noteq> MODE_TREE" by (simp add: MODE_BLOB_def MODE_TREE_def)
  from assms(4,5) obtain q where q: "p = a # q" "entry_at_segs G r y q = Inr (Some (h, m))"
    by (cases p) (auto simp: require_ok_def assms(2) by_name split: if_splits)
  then show ?thesis
    by (cases q) (auto simp: require_ok_def assms(3) by_name modes split: if_splits)
qed

lemma demo_only_file:
  assumes "nodes_of mem_git demo_mem2 fs p = Some (File d m)" "fs = demo_fs \<or> fs = demo_fs2"
  shows "p = [''a'', ''b'']"
proof -
  have t: "git_tree_lookup mem_git demo_mem2 (mem_oid 2) = Some [\<lparr>te_name = ''a'', te_oid = mem_oid 1, te_mode = MODE_TREE\<rparr>]"
    "git_tree_lookup mem_git demo_mem2 (mem_oid 1) = Some [\<lparr>te_name = ''b'', te_oid = mem_oid 0, te_mode = MODE_BLOB\<rparr>]"
    "git_tree_lookup mem_git demo_mem2 (mem_oid 6) = Some [\<lparr>te_name = ''a'', te_oid = mem_oid 5, te_mode = MODE_TREE\<rparr>]"
    "git_tree_lookup mem_git demo_mem2 (mem_oid 5) = Some [\<lparr>te_name = ''b'', te_oid = mem_oid 4, te_mode = MODE_BLOB\<rparr>]"
    by code_simp+
  have hex: "hex_to_oid mem_git ''010101'' = Inr (mem_oid 2)" "hex_to_oid mem_git ''01010101010101'' = Inr (mem_oid 6)" by code_simp+
  from assms(1) have "fs_node mem_git demo_mem2 fs p = Inr (Some (File d m))"
    by (auto simp: nodes_of_def split: if_splits sum.splits)
  then obtain h oid where "hex_to_oid mem_git (tree_oid_hex fs) = Inr oid" "entry_at_segs mem_git demo_mem2 oid p = Inr (Some (h, m))"
      "m \<noteq> MODE_TREE"
    by (auto simp: fs_node_def git_odb.node_at_File [OF memory.git_odb_axioms] view_def outcome_iff split: if_splits)
  with assms(2) only_file [OF memory.git_odb_axioms t(1,2)] only_file [OF memory.git_odb_axioms t(3,4)] show ?thesis
    by (auto simp: demo_fs_def demo_fs2_def make_fs_def hex)
qed

theorem copy_from_ref_copies_witness:
  "\<exists>fs' r'. copy_from_ref mem_git demo_fs2 demo_fs [''a/''] ''a'' demo_copy_options demo_mem2 = (Inr fs', r') \<and>
    fs_node mem_git r' fs' [''a'', ''b''] = Inr (Some (File [120] MODE_BLOB))"
proof -
  note odb = memory.git_odb_axioms
  from demo_copy obtain fs' r' where run: "copy_from_ref mem_git demo_fs2 demo_fs [''a/''] ''a'' demo_copy_options demo_mem2 = (Inr fs', r')" by blast
  have n: "normalize_dest ''a/'' = Inr ''a''" "normalize_dest ''a'' = Inr ''a''" by code_simp+
  have sp: "split_slash ''a'' = [''a'']" by code_simp
  have later: "git_extends mem_git demo_mem demo_mem2"
    using keepsD [OF git_refdb.keeps_commit_changes [OF memory.git_refdb_axioms] demo_commit] .
  have typed: "fs_typed mem_git demo_mem2 demo_fs2"
    using git_refdb.fs_typed_committed [OF memory.git_refdb_axioms demo_commit _ demo_fs_typed] by (simp add: settled_def)
  have typed0: "fs_typed mem_git demo_mem2 demo_fs"
    using git_odb.fs_typed_same [OF odb demo_fs_typed later refl] .
  have "fs_node mem_git demo_mem demo_fs [''a'', ''b''] = Inr (Some (File [120] MODE_BLOB))"
    using nodes_of_typed(1) [OF demo_fs_typed, of "[''a'', ''b'']"] demo_nodes by simp
  from git_odb.fs_node_extends [OF odb later this]
  have from_node: "nodes_of mem_git demo_mem2 demo_fs ([''a''] @ [''b'']) = Some (File [120] MODE_BLOB)"
    by (simp add: nodes_of_def)
  have dirs: "nodes_of mem_git demo_mem2 demo_fs [''a''] \<noteq> Some (File d m) \<and>
      nodes_of mem_git demo_mem2 demo_fs2 [''a''] \<noteq> Some (File d m)" for d m
    using demo_only_file by blast
  have apart: "compatible (nodes_of mem_git demo_mem2 demo_fs) [''a''] (nodes_of mem_git demo_mem2 demo_fs2) [''a'']"
    unfolding compatible_def
  proof (intro allI impI)
    fix q q' d m d' m'
    assume "nodes_of mem_git demo_mem2 demo_fs ([''a''] @ q) = Some (File d m)"
      "nodes_of mem_git demo_mem2 demo_fs2 ([''a''] @ q') = Some (File d' m')"
    then show "\<not> strict_prefix q q' \<and> \<not> strict_prefix q' q"
      using demo_only_file [of demo_fs "[''a''] @ q" d m] demo_only_file [of demo_fs2 "[''a''] @ q'" d' m'] by simp
  qed
  have wet: "\<not> cf_dry_run demo_copy_options" by (simp add: demo_copy_options_def)
  have slash: "[''a''] = [] \<or> last ''a/'' = CHR ''/''" by simp
  note R = copy_from_ref_copies [OF memory.git_refdb_axioms run wet n sp sp slash typed refl typed0 refl dirs apart]
  from conjunct1 [OF R] from_node have "fs_node mem_git r' fs' ([''a''] @ [''b'']) = Inr (Some (File [120] MODE_BLOB))" by blast
  then show ?thesis using run by (intro exI [of _ fs'] exI [of _ r']) simp
qed

end
