(* ===== verification/Vost_Git_Beside.thy ===== *)
theory Vost_Git_Beside
  imports Vost_Git_Memory
begin

text \<open>
  A repository in a larger world. \<open>beside G\<close> runs \<open>G\<close> on the first component of a pair and leaves
  the second one alone, so a world can hold files and other repositories next to the one libgit2
  works on. Every law of \<open>Vost_Git\<close> carries over.
\<close>

definition with_side :: "'s \<Rightarrow> ('a \<times> 'r) option \<Rightarrow> ('a \<times> 'r \<times> 's) option" where
  "with_side s x = map_option (\<lambda>(a, r). (a, r, s)) x"

definition and_side :: "'s \<Rightarrow> 'r option \<Rightarrow> ('r \<times> 's) option" where
  "and_side s x = map_option (\<lambda>r. (r, s)) x"

definition beside :: "('r, 'b) libgit2 \<Rightarrow> ('r \<times> 's, 'b) libgit2" where
  "beside G = \<lparr>
     os_open_lock = (\<lambda>w. os_open_lock G (fst w)),
     os_flock = (\<lambda>w. os_flock G (fst w)),
     os_clock = (\<lambda>w. os_clock G (fst w)),
     git_error_last = (\<lambda>w. git_error_last G (fst w)),
     git_oid_fromstr = git_oid_fromstr G,
     git_oid_tostr = git_oid_tostr G,
     git_blob_create_from_buffer = (\<lambda>w d. with_side (snd w) (git_blob_create_from_buffer G (fst w) d)),
     git_blob_lookup = (\<lambda>w. git_blob_lookup G (fst w)),
     git_tree_lookup = (\<lambda>w. git_tree_lookup G (fst w)),
     git_tree_entry_byname = git_tree_entry_byname G,
     git_tree_walk = (\<lambda>w. git_tree_walk G (fst w)),
     git_treebuilder_new = (\<lambda>w. git_treebuilder_new G (fst w)),
     git_treebuilder_get = git_treebuilder_get G,
     git_treebuilder_insert = (\<lambda>w. git_treebuilder_insert G (fst w)),
     git_treebuilder_remove = git_treebuilder_remove G,
     git_treebuilder_entrycount = git_treebuilder_entrycount G,
     git_treebuilder_write = (\<lambda>w b. with_side (snd w) (git_treebuilder_write G (fst w) b)),
     git_signature_now = (\<lambda>w. git_signature_now G (fst w)),
     git_commit_create = (\<lambda>w sg m t ps. with_side (snd w) (git_commit_create G (fst w) sg m t ps)),
     git_commit_lookup = (\<lambda>w. git_commit_lookup G (fst w)),
     git_reference_lookup = (\<lambda>w. git_reference_lookup G (fst w)),
     git_reference_peel = (\<lambda>w. git_reference_peel G (fst w)),
     git_reference_create = (\<lambda>w n oid f m. and_side (snd w) (git_reference_create G (fst w) n oid f m)),
     git_reference_set_target = (\<lambda>w ref oid m. and_side (snd w) (git_reference_set_target G (fst w) ref oid m)),
     git_reference_delete = (\<lambda>w ref. and_side (snd w) (git_reference_delete G (fst w) ref)),
     git_reference_glob = (\<lambda>w. git_reference_glob G (fst w)),
     git_reflog_read = (\<lambda>w. git_reflog_read G (fst w)),
     git_repository_head = (\<lambda>w. git_repository_head G (fst w)),
     git_repository_set_head = (\<lambda>w n. and_side (snd w) (git_repository_set_head G (fst w) n)),
     git_tree_depth = (\<lambda>w. git_tree_depth G (fst w)),
     git_commit_depth = (\<lambda>w. git_commit_depth G (fst w))\<rparr>"

lemma beside_sel [simp]:
  "os_open_lock (beside G) w = os_open_lock G (fst w)"
  "os_flock (beside G) w = os_flock G (fst w)"
  "os_clock (beside G) w = os_clock G (fst w)"
  "git_error_last (beside G) w = git_error_last G (fst w)"
  "git_oid_fromstr (beside G) = git_oid_fromstr G"
  "git_oid_tostr (beside G) = git_oid_tostr G"
  "git_blob_create_from_buffer (beside G) w d = with_side (snd w) (git_blob_create_from_buffer G (fst w) d)"
  "git_blob_lookup (beside G) w = git_blob_lookup G (fst w)"
  "git_tree_lookup (beside G) w = git_tree_lookup G (fst w)"
  "git_tree_entry_byname (beside G) = git_tree_entry_byname G"
  "git_tree_walk (beside G) w = git_tree_walk G (fst w)"
  "git_treebuilder_new (beside G) w = git_treebuilder_new G (fst w)"
  "git_treebuilder_get (beside G) = git_treebuilder_get G"
  "git_treebuilder_insert (beside G) w = git_treebuilder_insert G (fst w)"
  "git_treebuilder_remove (beside G) = git_treebuilder_remove G"
  "git_treebuilder_entrycount (beside G) = git_treebuilder_entrycount G"
  "git_treebuilder_write (beside G) w b = with_side (snd w) (git_treebuilder_write G (fst w) b)"
  "git_signature_now (beside G) w = git_signature_now G (fst w)"
  "git_commit_create (beside G) w sg m t ps = with_side (snd w) (git_commit_create G (fst w) sg m t ps)"
  "git_commit_lookup (beside G) w = git_commit_lookup G (fst w)"
  "git_reference_lookup (beside G) w = git_reference_lookup G (fst w)"
  "git_reference_peel (beside G) w = git_reference_peel G (fst w)"
  "git_reference_create (beside G) w n oid f m = and_side (snd w) (git_reference_create G (fst w) n oid f m)"
  "git_reference_set_target (beside G) w ref oid m = and_side (snd w) (git_reference_set_target G (fst w) ref oid m)"
  "git_reference_delete (beside G) w ref = and_side (snd w) (git_reference_delete G (fst w) ref)"
  "git_reference_glob (beside G) w = git_reference_glob G (fst w)"
  "git_reflog_read (beside G) w = git_reflog_read G (fst w)"
  "git_repository_head (beside G) w = git_repository_head G (fst w)"
  "git_repository_set_head (beside G) w n = and_side (snd w) (git_repository_set_head G (fst w) n)"
  "git_tree_depth (beside G) w = git_tree_depth G (fst w)"
  "git_commit_depth (beside G) w = git_commit_depth G (fst w)"
  by (simp_all add: beside_def)

lemma side_Some [simp]:
  "with_side s x = Some (a, w) \<longleftrightarrow> x = Some (a, fst w) \<and> snd w = s"
  "and_side s y = Some w \<longleftrightarrow> y = Some (fst w) \<and> snd w = s"
  "and_side s y = None \<longleftrightarrow> y = None"
  by (cases w; auto simp: with_side_def and_side_def)+

lemma beside_worlds [simp]:
  "git_extends (beside G) w w' \<longleftrightarrow> git_extends G (fst w) (fst w')"
  "git_same_refs (beside G) w w' \<longleftrightarrow> git_same_refs G (fst w) (fst w')"
  "git_adds (beside G) w w' \<longleftrightarrow> git_adds G (fst w) (fst w')"
  "git_moves (beside G) n w w' \<longleftrightarrow> git_moves G n (fst w) (fst w')"
  by (simp_all add: git_extends_def git_same_refs_def git_adds_def git_moves_def)


context git_odb
begin

lemma odb_beside: "git_odb (beside G)"
proof (unfold_locales, goal_cases)
  case 1 show ?case by (simp add: oid_roundtrip)
next
  case 2 then show ?case using blob_create by auto
next
  case 3 then show ?case using blob_dedup by auto
next
  case 4 then show ?case using tree_not_null by auto
next
  case 5 then show ?case using tree_names by auto
next
  case 6 then show ?case using tree_byname by auto
next
  case 7 then show ?case using tree_acyclic by auto
next
  case 8 then show ?case unfolding beside_sel by (rule tree_walk)
next
  case 9 then show ?case using builder_new_empty by auto
next
  case 10 then show ?case using builder_new_tree by auto
next
  case 11 then show ?case using builder_insert by auto
next
  case 12 show ?case by (simp add: builder_remove)
next
  case 13 show ?case by (simp add: builder_count)
next
  case 14 then show ?case using builder_write by auto
next
  case 15 then show ?case using commit_create by auto
next
  case 16 then show ?case using signature_now by auto
next
  case 17 then show ?case using commit_not_null by auto
next
  case 18 then show ?case using history_acyclic by auto
qed

end

context git_refdb
begin

lemma refdb_beside: "git_refdb (beside G)"
proof (rule git_refdb.intro [OF odb_beside], unfold_locales, goal_cases)
  case 1 then show ?case using reference_name by auto
next
  case 2 then show ?case using reference_peel by auto
next
  case 3 then show ?case using reference_peel_commit by auto
next
  case 4 then show ?case using reference_create by auto
next
  case 5 then show ?case using reference_create_exists by auto
next
  case 6 then show ?case using reference_set_target by auto
next
  case 7 then show ?case using reference_delete by auto
qed

end

end
