(* ===== verification/Vost_Disk_Out.thy ===== *)
theory Vost_Disk_Out
  imports Vost_Moves Vost_Git_Beside
begin

text \<open>
  Correctness of \<^verbatim>\<open>copy_out\<close> and \<^verbatim>\<open>sync_out\<close> of \<^verbatim>\<open>cpp/src/copy.cpp\<close>. What the local file system promises is the
  locale \<open>local_disk\<close>, and for the removals of \<open>sync_out\<close> its extension \<open>local_tree\<close>; they speak of
  paths that lead through directories only, of files with one name each, so that two paths never
  name one file, and say nothing about the calls that throw. An instance is in \<open>Vost_Disk_Memory\<close>.
\<close>

section \<open>The local file system as nodes\<close>

datatype local_node = Absent | Directory | Entry "byte list \<times> u32"

definition local_node :: "'r disk \<Rightarrow> 'r \<Rightarrow> string \<Rightarrow> local_node" where
  "local_node D r p =
     (if \<not> disk_link_exists D r p then Absent
      else if \<not> disk_is_symlink D r p \<and> disk_listing D r p \<noteq> None then Directory
      else Entry (disk_file D r p))"

text \<open>\<open>q\<close> is a directory on the way to \<open>p\<close>.\<close>

definition ancestor :: "string \<Rightarrow> string \<Rightarrow> bool" where
  "ancestor q p \<longleftrightarrow> q \<noteq> [] \<and> prefix (q @ ''/'') p"

lemma ancestor_trans: "ancestor q p \<Longrightarrow> ancestor p t \<Longrightarrow> ancestor q t"
  by (auto simp: ancestor_def prefix_def)

lemma ancestor_neq: "ancestor q p \<Longrightarrow> q \<noteq> p"
  by (auto simp: ancestor_def prefix_def)

lemma parent_path_join:
  assumes "d \<noteq> []" "last d \<noteq> CHR ''/''" "segment s"
  shows "parent_path (d @ CHR ''/'' # s) = d"
proof -
  have "dropWhile (\<lambda>c. c \<noteq> CHR ''/'') (rev s @ CHR ''/'' # rev d) = dropWhile (\<lambda>c. c \<noteq> CHR ''/'') (CHR ''/'' # rev d)"
    by (rule dropWhile_append2) (use assms(3) in \<open>auto simp: segment_def\<close>)
  then have above: "dropWhile (\<lambda>c. c \<noteq> CHR ''/'') (rev (d @ CHR ''/'' # s)) = CHR ''/'' # rev d" by simp
  have d: "dropWhile (\<lambda>c. c = CHR ''/'') (CHR ''/'' # rev d) = rev d"
    using assms(1,2) by (cases d rule: rev_cases) simp_all
  show ?thesis unfolding parent_path_def Let_def above d using assms(1) by simp
qed

lemma ancestor_parent:
  assumes "segment s"
  shows "ancestor q (d @ CHR ''/'' # s) \<longleftrightarrow> q \<noteq> [] \<and> (q = d \<or> ancestor q d)"
proof
  assume "ancestor q (d @ CHR ''/'' # s)"
  then obtain t where q: "q \<noteq> []" "d @ CHR ''/'' # s = q @ CHR ''/'' # t" by (auto simp: ancestor_def prefix_def)
  then have "q = d \<or> prefix (q @ ''/'') d"
    using assms by (auto simp: append_eq_append_conv2 append_eq_Cons_conv Cons_eq_append_conv segment_def)
  with q(1) show "q \<noteq> [] \<and> (q = d \<or> ancestor q d)" by (simp add: ancestor_def)
qed (auto simp: ancestor_def)

text \<open>A path that the laws speak of, with no file in place of a directory on the way.\<close>

definition clear :: "'r disk \<Rightarrow> (string \<Rightarrow> bool) \<Rightarrow> 'r \<Rightarrow> string \<Rightarrow> bool" where
  "clear D plain r p \<longleftrightarrow> plain p \<and> (\<forall>q f. ancestor q p \<longrightarrow> local_node D r q \<noteq> Entry f)"

text \<open>The repository is intact and the nodes have changed to \<open>new\<close>, but for paths below \<open>p\<close>.\<close>

definition disk_effect :: "('r, 'b) libgit2 \<Rightarrow> 'r disk \<Rightarrow> (string \<Rightarrow> bool) \<Rightarrow> string \<Rightarrow> 'r \<Rightarrow> 'r \<Rightarrow>
    (string \<Rightarrow> local_node) \<Rightarrow> bool" where
  "disk_effect G D plain p r r' new \<longleftrightarrow> git_extends G r r' \<and>
     (\<forall>q. clear D plain r q \<and> \<not> ancestor p q \<longrightarrow> local_node D r' q = new q)"

text \<open>What is left at a path when an entry of the repository is written over a node: a file that
  exists keeps its executable bit.\<close>

definition replaced :: "byte list \<Rightarrow> u32 \<Rightarrow> local_node \<Rightarrow> local_node" where
  "replaced d m old = Entry (d,
     if m = MODE_LINK \<or> m = MODE_BLOB_EXEC then m
     else if \<exists>d'. old = Entry (d', MODE_BLOB_EXEC) then MODE_BLOB_EXEC else MODE_BLOB)"

definition link_target :: "byte list \<Rightarrow> bool" where
  "link_target d \<longleftrightarrow> d \<noteq> [] \<and> 0 \<notin> set d"

definition through_directories :: "'r disk \<Rightarrow> 'r \<Rightarrow> string \<Rightarrow> bool" where
  "through_directories D r p \<longleftrightarrow> (\<forall>q. ancestor q p \<longrightarrow> local_node D r q = Directory)"

locale local_disk = git_odb G for G :: "('r, 'b) libgit2" +
  fixes D :: "'r disk" and plain :: "string \<Rightarrow> bool"
  assumes plain_ancestor: "plain p \<Longrightarrow> ancestor q p \<Longrightarrow> plain q"
    and create_directories: "clear D plain r p \<Longrightarrow> \<forall>f. local_node D r p \<noteq> Entry f \<Longrightarrow>
      git_extends G r (disk_create_directories D r p) \<and>
      (\<forall>q. clear D plain r q \<longrightarrow> local_node D (disk_create_directories D r p) q =
         (if q = p \<or> ancestor q p then Directory else local_node D r q))"
    and write_file: "clear D plain r p \<Longrightarrow> through_directories D r p \<Longrightarrow> local_node D r p \<noteq> Directory \<Longrightarrow>
      \<forall>d'. local_node D r p \<noteq> Entry (d', MODE_LINK) \<Longrightarrow>
      disk_effect G D plain p r (disk_write_file D r p d)
        ((local_node D r)(p := replaced d MODE_BLOB (local_node D r p)))"
    and create_symlink: "clear D plain r p \<Longrightarrow> through_directories D r p \<Longrightarrow> local_node D r p = Absent \<Longrightarrow> link_target d \<Longrightarrow>
      disk_effect G D plain p r (disk_create_symlink D r (from_bytes d) p)
        ((local_node D r)(p := Entry (d, MODE_LINK)))"
    and remove_entry: "clear D plain r p \<Longrightarrow> local_node D r p = Entry f \<Longrightarrow>
      disk_effect G D plain p r (disk_remove D r p) ((local_node D r)(p := Absent))"
    and add_exec: "clear D plain r p \<Longrightarrow> local_node D r p = Entry (d, m) \<Longrightarrow> m \<noteq> MODE_LINK \<Longrightarrow>
      disk_effect G D plain p r (disk_add_exec D r p) ((local_node D r)(p := Entry (d, MODE_BLOB_EXEC)))"

section \<open>One file\<close>

text \<open>The destination of one entry, ready to be written.\<close>

definition export_ok :: "'r disk \<Rightarrow> (string \<Rightarrow> bool) \<Rightarrow> 'r \<Rightarrow> string \<times> byte list \<times> u32 \<Rightarrow> bool" where
  "export_ok D plain r = (\<lambda>(p, d, m). clear D plain r p \<and> local_node D r p \<noteq> Directory \<and>
     ((\<exists>d'. local_node D r p = Entry (d', MODE_LINK)) \<longrightarrow> m = MODE_LINK) \<and> (m = MODE_LINK \<longrightarrow> link_target d) \<and>
     ancestor (parent_path p) p \<and> (\<forall>q. ancestor q p \<longrightarrow> q = parent_path p \<or> ancestor q (parent_path p)))"

definition export_step :: "'r disk \<Rightarrow> 'r \<Rightarrow> string \<times> byte list \<times> u32 \<Rightarrow> 'r" where
  "export_step D r = (\<lambda>(p, d, m). write_out D p d m (disk_create_directories D r (parent_path p)))"

definition exported_node :: "string \<times> byte list \<times> u32 \<Rightarrow> (string \<Rightarrow> local_node) \<Rightarrow> string \<Rightarrow> local_node" where
  "exported_node = (\<lambda>(p, d, m) old q.
     if q = p then replaced d m (old p) else if ancestor q p then Directory else old q)"

context local_disk
begin

lemma clear_ancestor: "clear D plain r p \<Longrightarrow> ancestor q p \<Longrightarrow> clear D plain r q"
  using plain_ancestor ancestor_trans unfolding clear_def by blast

lemma clear_effect:
  assumes "disk_effect G D plain p r r' new" "clear D plain r q" "\<not> ancestor p q"
    "\<And>a f. ancestor a q \<Longrightarrow> new a = Entry f \<Longrightarrow> local_node D r a = Entry f"
  shows "clear D plain r' q"
  unfolding clear_def
proof (intro conjI allI impI)
  fix a f
  assume a: "ancestor a q"
  with assms(3) have "\<not> ancestor p a" using ancestor_trans by blast
  with assms(1) clear_ancestor [OF assms(2) a] have "local_node D r' a = new a" by (simp add: disk_effect_def)
  with assms(2) assms(4) [OF a, of f] a show "local_node D r' a \<noteq> Entry f" unfolding clear_def by metis
qed (use assms(2) in \<open>simp add: clear_def\<close>)

text \<open>The node of one path is set once more.\<close>

lemma effect_at:
  assumes "disk_effect G D plain p r r1 (new(p := x))" "disk_effect G D plain p r1 r2 ((local_node D r1)(p := y))"
    "\<And>a f. new a = Entry f \<Longrightarrow> local_node D r a = Entry f"
  shows "disk_effect G D plain p r r2 (new(p := y))"
  unfolding disk_effect_def
proof (intro conjI allI impI)
  have "git_extends G r r1" "git_extends G r1 r2" using assms(1,2) unfolding disk_effect_def by simp_all
  then show "git_extends G r r2" by (rule git_extends_trans)
  fix q
  assume q: "clear D plain r q \<and> \<not> ancestor p q"
  have "clear D plain r1 q"
  proof (rule clear_effect [OF assms(1)])
    fix a f
    assume a: "ancestor a q" "(new(p := x)) a = Entry f"
    with q have "a \<noteq> p" by blast
    with a(2) assms(3) show "local_node D r a = Entry f" by simp
  next
    show "clear D plain r q" "\<not> ancestor p q" using q by blast+
  qed
  with q assms(2) have "local_node D r2 q = ((local_node D r1)(p := y)) q" unfolding disk_effect_def by blast
  moreover have "local_node D r1 q = (new(p := x)) q" using q assms(1) unfolding disk_effect_def by blast
  ultimately show "local_node D r2 q = (new(p := y)) q" by simp
qed

lemma parents_made:
  assumes "clear D plain r p" "disk_effect G D plain p r r' ((\<lambda>q. if ancestor q p then Directory else local_node D r q)(p := x))"
  shows "clear D plain r' p \<and> through_directories D r' p \<and> local_node D r' p = x"
proof (intro conjI)
  have np: "\<not> ancestor p p" using ancestor_neq by blast
  show "clear D plain r' p"
    by (rule clear_effect [OF assms(2,1) np]) (auto dest: ancestor_neq split: if_splits)
  show "local_node D r' p = x" using assms np by (simp add: disk_effect_def)
  show "through_directories D r' p"
    unfolding through_directories_def
  proof (intro allI impI)
    fix a
    assume a: "ancestor a p"
    then have "\<not> ancestor p a" using ancestor_trans np by blast
    with assms(2) clear_ancestor [OF assms(1) a] a ancestor_neq [OF a] show "local_node D r' a = Directory"
      by (simp add: disk_effect_def)
  qed
qed

lemma make_parents:
  assumes "export_ok D plain r (p, d, m)"
  shows "disk_effect G D plain p r (disk_create_directories D r (parent_path p))
    ((\<lambda>q. if ancestor q p then Directory else local_node D r q)(p := local_node D r p))"
proof -
  let ?d = "parent_path p"
  from assms have c: "clear D plain r p" and d: "ancestor ?d p" "\<And>q. ancestor q p \<longleftrightarrow> q = ?d \<or> ancestor q ?d"
    using ancestor_trans by (auto simp: export_ok_def)
  from c d(1) have "\<forall>f. local_node D r ?d \<noteq> Entry f" by (simp add: clear_def)
  from create_directories [OF clear_ancestor [OF c d(1)] this] show ?thesis
    unfolding disk_effect_def d(2) [symmetric] by (auto dest: ancestor_neq)
qed

lemma export_step_effect:
  assumes "export_ok D plain r (p, d, m)"
  shows "disk_effect G D plain p r (export_step D r (p, d, m)) (exported_node (p, d, m) (local_node D r))"
proof -
  let ?new = "\<lambda>q. if ancestor q p then Directory else local_node D r q" and ?n = "local_node D r p"
  let ?r1 = "disk_create_directories D r (parent_path p)"
  from assms have c: "clear D plain r p" and ok: "?n \<noteq> Directory" "m \<noteq> MODE_LINK \<Longrightarrow> \<forall>d'. ?n \<noteq> Entry (d', MODE_LINK)"
      "m = MODE_LINK \<Longrightarrow> link_target d" by (auto simp: export_ok_def)
  have new: "exported_node (p, d, m) (local_node D r) = ?new(p := replaced d m ?n)"
    by (rule ext) (simp add: exported_node_def)
  have keep: "\<And>a f. ?new a = Entry f \<Longrightarrow> local_node D r a = Entry f" by (simp split: if_splits)
  note E1 = make_parents [OF assms] and at = effect_at [where new = ?new, OF _ _ keep]
  note P1 = parents_made [OF c E1]
  show ?thesis
  proof (cases "m = MODE_LINK")
    case True
    define r2 where "r2 = (if disk_link_exists D ?r1 p then disk_remove D ?r1 p else ?r1)"
    have E2: "disk_effect G D plain p r r2 (?new(p := Absent))"
    proof (cases ?n)
      case (Entry f)
      with P1 have "local_node D ?r1 p = Entry f" "disk_link_exists D ?r1 p"
        by (auto simp: local_node_def split: if_splits)
      with at [OF E1 remove_entry [OF _ this(1)]] P1 show ?thesis by (simp add: r2_def)
    next
      case Absent
      with P1 have "\<not> disk_link_exists D ?r1 p" by (auto simp: local_node_def split: if_splits)
      with E1 Absent show ?thesis by (simp add: r2_def)
    qed (use ok in simp)
    note P2 = parents_made [OF c E2]
    with create_symlink ok(3) True have "disk_effect G D plain p r2 (disk_create_symlink D r2 (from_bytes d) p)
        ((local_node D r2)(p := Entry (d, MODE_LINK)))" by blast
    from at [OF E2 this] True show ?thesis
      unfolding new by (simp add: export_step_def write_out_def r2_def Let_def replaced_def)
  next
    case False
    let ?r2 = "disk_write_file D ?r1 p d"
    have "disk_effect G D plain p ?r1 ?r2 ((local_node D ?r1)(p := replaced d MODE_BLOB (local_node D ?r1 p)))"
      using P1 ok(1) ok(2) [OF False] by (intro write_file) auto
    with P1 have W: "disk_effect G D plain p ?r1 ?r2 ((local_node D ?r1)(p := replaced d MODE_BLOB ?n))" by simp
    note E2 = at [OF E1 W]
    show ?thesis
    proof (cases "m = MODE_BLOB_EXEC")
      case True
      note P2 = parents_made [OF c E2]
      then obtain m' where e: "local_node D ?r2 p = Entry (d, m')" "m' \<noteq> MODE_LINK"
        by (auto simp: replaced_def MODE_BLOB_def MODE_BLOB_EXEC_def MODE_LINK_def split: if_splits)
      from P2 add_exec [OF _ e] have "disk_effect G D plain p ?r2 (disk_add_exec D ?r2 p)
          ((local_node D ?r2)(p := Entry (d, MODE_BLOB_EXEC)))" by blast
      from at [OF E2 this] False True show ?thesis
        unfolding new by (simp add: export_step_def write_out_def Let_def replaced_def)
    next
      case False
      with \<open>m \<noteq> MODE_LINK\<close> E2 show ?thesis
        unfolding new by (simp add: export_step_def write_out_def Let_def replaced_def)
    qed
  qed
qed

end

section \<open>All files\<close>

type_synonym export = "string \<times> byte list \<times> u32"

definition exportable :: "'r disk \<Rightarrow> (string \<Rightarrow> bool) \<Rightarrow> 'r \<Rightarrow> export list \<Rightarrow> bool" where
  "exportable D plain r xs \<longleftrightarrow> (\<forall>x\<in>set xs. export_ok D plain r x) \<and>
     (\<forall>x\<in>set xs. \<forall>y\<in>set xs. \<not> ancestor (fst x) (fst y) \<and> (fst x = fst y \<longrightarrow> x = y))"

definition exported :: "export list \<Rightarrow> (string \<Rightarrow> local_node) \<Rightarrow> string \<Rightarrow> local_node" where
  "exported xs old q = (case map_of xs q of
       Some (d, m) \<Rightarrow> replaced d m (old q)
     | None \<Rightarrow> if \<exists>x\<in>set xs. ancestor q (fst x) then Directory else old q)"

lemma replaced_replaced: "replaced d m (replaced d m old) = replaced d m old"
  by (auto simp: replaced_def)

lemma exported_cong: "old q = old' q \<Longrightarrow> exported xs old q = exported xs old' q"
  by (auto simp: exported_def split: option.split)

lemma exported_Cons:
  assumes "\<forall>y\<in>set xs. \<not> ancestor (fst x) (fst y) \<and> \<not> ancestor (fst y) (fst x) \<and> (fst x = fst y \<longrightarrow> x = y)"
  shows "exported xs (exported_node x old) q = exported (x # xs) old q"
proof (cases "map_of xs q")
  case None
  then have "q \<notin> fst ` set xs" by (simp add: map_of_eq_None_iff)
  with None assms show ?thesis by (cases x) (auto simp: exported_def exported_node_def)
next
  case (Some y)
  then have y: "(q, y) \<in> set xs" by (rule map_of_SomeD)
  with assms have na: "\<not> ancestor q (fst x)" and eq: "q = fst x \<Longrightarrow> x = (q, y)" by fastforce+
  show ?thesis
  proof (cases "q = fst x")
    case True
    with eq have "x = (q, y)" by simp
    with Some show ?thesis by (cases y) (simp add: exported_def exported_node_def replaced_replaced)
  next
    case False
    with na Some show ?thesis by (cases x) (simp add: exported_def exported_node_def)
  qed
qed

context local_disk
begin

lemma exportable_Cons:
  assumes "exportable D plain r (x # xs)"
  shows "exportable D plain (export_step D r x) xs"
proof -
  obtain p d m where x: "x = (p, d, m)" by (cases x) auto
  from assms have ok: "export_ok D plain r (p, d, m)" by (simp add: exportable_def x)
  note E = export_step_effect [OF ok]
  have "export_ok D plain (export_step D r x) y" if y: "y \<in> set xs" for y
  proof -
    obtain p' d' m' where y': "y = (p', d', m')" by (cases y) auto
    from assms y have ok': "export_ok D plain r (p', d', m')" and na: "\<not> ancestor p p'" "\<not> ancestor p' p"
        and eq: "p = p' \<Longrightarrow> x = y" unfolding exportable_def x y' by fastforce+
    from ok' have c: "clear D plain r p'" by (simp add: export_ok_def)
    have c1: "clear D plain (export_step D r (p, d, m)) p'"
      by (rule clear_effect [OF E c na(1)]) (use na(1) in \<open>auto simp: exported_node_def split: if_splits\<close>)
    have n: "local_node D (export_step D r (p, d, m)) p' = (if p' = p then replaced d m (local_node D r p) else local_node D r p')"
      using E c na by (simp add: disk_effect_def exported_node_def)
    show ?thesis
    proof (cases "p' = p")
      case True
      with eq have "d' = d" "m' = m" by (auto simp: x y')
      with ok' c1 n True show ?thesis unfolding x y'
        by (auto simp: export_ok_def replaced_def MODE_BLOB_def MODE_BLOB_EXEC_def MODE_LINK_def split: if_splits)
    next
      case False
      with ok' c1 n show ?thesis unfolding x y' by (simp add: export_ok_def)
    qed
  qed
  with assms show ?thesis unfolding exportable_def by simp
qed

lemma export_steps_effect:
  assumes "exportable D plain r xs"
  shows "git_extends G r (foldl (export_step D) r xs) \<and>
    (\<forall>q. clear D plain r q \<and> (\<forall>x\<in>set xs. \<not> ancestor (fst x) q) \<longrightarrow>
       clear D plain (foldl (export_step D) r xs) q \<and>
       local_node D (foldl (export_step D) r xs) q = exported xs (local_node D r) q)"
  using assms
proof (induction xs arbitrary: r)
  case Nil
  then show ?case by (simp add: exported_def git_extends_refl)
next
  case (Cons x xs)
  obtain p d m where x: "x = (p, d, m)" by (cases x) auto
  from Cons.prems have ok: "export_ok D plain r (p, d, m)" by (simp add: exportable_def x)
  note E = export_step_effect [OF ok, folded x] and I = Cons.IH [OF exportable_Cons [OF Cons.prems]]
  have "git_extends G r (export_step D r x)" using E by (simp add: disk_effect_def)
  with I have "git_extends G r (foldl (export_step D) r (x # xs))" using git_extends_trans by auto
  moreover have "clear D plain (foldl (export_step D) r (x # xs)) q \<and>
      local_node D (foldl (export_step D) r (x # xs)) q = exported (x # xs) (local_node D r) q"
    if q: "clear D plain r q" "\<forall>y\<in>set (x # xs). \<not> ancestor (fst y) q" for q
  proof -
    have nq: "\<not> ancestor p q" using q(2) x by simp
    have c: "clear D plain (export_step D r x) q"
      by (rule clear_effect [OF E q(1) nq]) (use nq in \<open>auto simp: exported_node_def x split: if_splits\<close>)
    have n: "local_node D (export_step D r x) q = exported_node x (local_node D r) q"
      using E q(1) nq by (simp add: disk_effect_def x)
    have "exported xs (local_node D (export_step D r x)) q = exported xs (exported_node x (local_node D r)) q"
      using n by (rule exported_cong)
    also have "\<dots> = exported (x # xs) (local_node D r) q"
      by (rule exported_Cons) (use Cons.prems in \<open>auto simp: exportable_def\<close>)
    finally show ?thesis using I c q(2) by simp
  qed
  ultimately show ?case by blast
qed

end

text \<open>The files that pass the filters, and where they go.\<close>

definition export_plan :: "string list option \<Rightarrow> string list option \<Rightarrow> string \<Rightarrow> string \<Rightarrow> (string \<Rightarrow> byte list) \<Rightarrow>
    (string \<times> WalkEntry) list \<Rightarrow> export list" where
  "export_plan inc exc src dest content ws =
     map (\<lambda>(path, we). (path_join dest (strip_dest src path), content path, we_mode we))
       (filter (\<lambda>(path, we). matches_filters (strip_dest src path) inc exc) ws)"

context local_disk
begin

lemma copy_out_loop:
  assumes "\<And>path we. (path, we) \<in> set ws \<Longrightarrow> split_slash path \<noteq> [] \<and>
      (matches_filters (strip_dest src path) inc exc \<longrightarrow> file_type_from_mode (we_mode we) \<noteq> None) \<and>
      node_at G r hex (split_slash path) = Inr (Some (File (content path) (we_mode we)))"
    "hex \<noteq> zero_hex" "exportable D plain r (export_plan inc exc src dest content ws)"
  shows "\<exists>fes. sfold (copy_out_step G D inc exc hex src dest) ws added r =
      (Inr (added @ fes), foldl (export_step D) r (export_plan inc exc src dest content ws)) \<and>
    map fe_path fes = filter (\<lambda>rel. matches_filters rel inc exc) (map (strip_dest src \<circ> fst) ws)"
  using assms(1,3)
proof (induction ws arbitrary: added r)
  case Nil
  then show ?case by (simp add: sreturn_def export_plan_def)
next
  case (Cons w ws)
  obtain path we where w: "w = (path, we)" by (cases w) auto
  let ?rel = "strip_dest src path"
  note P = Cons.prems(1) [of path we, unfolded w, simplified]
  show ?case
  proof (cases "matches_filters ?rel inc exc")
    case False
    then have skip: "copy_out_step G D inc exc hex src dest w added r = (Inr added, r)"
      and plan: "export_plan inc exc src dest content (w # ws) = export_plan inc exc src dest content ws"
      by (simp_all add: w copy_out_step_def sreturn_def export_plan_def)
    from Cons.prems(2) have X: "exportable D plain r (export_plan inc exc src dest content ws)" by (simp add: plan)
    have "\<exists>fes. sfold (copy_out_step G D inc exc hex src dest) ws added r =
        (Inr (added @ fes), foldl (export_step D) r (export_plan inc exc src dest content ws)) \<and>
        map fe_path fes = filter (\<lambda>rel. matches_filters rel inc exc) (map (strip_dest src \<circ> fst) ws)"
      by (rule Cons.IH [OF _ X], rule Cons.prems(1)) simp
    with False skip plan show ?thesis by (simp add: sbind_def w comp_def)
  next
    case True
    let ?x = "(path_join dest ?rel, content path, we_mode we)"
    let ?plan = "export_plan inc exc src dest content ws"
    from True have plan: "export_plan inc exc src dest content (w # ws) = ?x # ?plan" by (simp add: w export_plan_def)
    with Cons.prems(2) have X: "exportable D plain r (?x # ?plan)" by simp
    let ?r1 = "disk_create_directories D r (parent_path (path_join dest ?rel))" and ?r2 = "export_step D r ?x"
    from X have ok: "export_ok D plain r ?x" by (simp add: exportable_def)
    have g1: "git_extends G r ?r1" using make_parents [OF ok] by (simp add: disk_effect_def)
    have g2: "git_extends G r ?r2" using export_step_effect [OF ok] by (simp add: disk_effect_def)
    have "path \<noteq> []" using P by auto
    with node_at_extends [OF g1] P assms(2) have rd: "read_blob G ?r1 hex path = Inr (content path)"
      by (simp add: read_blob_node)
    from P True obtain ft where "file_type_from_mode (we_mode we) = Some ft" by blast
    then obtain fe where fe: "\<And>r. file_entry ?rel (we_mode we) None = Inr fe" "fe_path fe = ?rel"
      by (auto simp: file_entry_def)
    have step: "copy_out_step G D inc exc hex src dest w added r = (Inr (added @ [fe]), ?r2)"
      using True rd fe(1) by (simp add: w copy_out_step_def Let_def sbind_def sread_def sreturn_def export_step_def)
    have "\<exists>fes. sfold (copy_out_step G D inc exc hex src dest) ws (added @ [fe]) ?r2 =
        (Inr ((added @ [fe]) @ fes), foldl (export_step D) ?r2 ?plan) \<and>
        map fe_path fes = filter (\<lambda>rel. matches_filters rel inc exc) (map (strip_dest src \<circ> fst) ws)"
    proof (rule Cons.IH [OF _ exportable_Cons [OF X]])
      fix path we
      assume "(path, we) \<in> set ws"
      with Cons.prems(1) [of path we] node_at_extends [OF g2]
      show "split_slash path \<noteq> [] \<and>
      (matches_filters (strip_dest src path) inc exc \<longrightarrow> file_type_from_mode (we_mode we) \<noteq> None) \<and>
          node_at G ?r2 hex (split_slash path) = Inr (Some (File (content path) (we_mode we)))" by simp
    qed
    then obtain fes where "sfold (copy_out_step G D inc exc hex src dest) ws (added @ [fe]) ?r2 =
        (Inr ((added @ [fe]) @ fes), foldl (export_step D) ?r2 ?plan)"
      "map fe_path fes = filter (\<lambda>rel. matches_filters rel inc exc) (map (strip_dest src \<circ> fst) ws)" by blast
    with step fe(2) True show ?thesis
      by (intro exI [of _ "fe # fes"]) (simp add: plan [unfolded w] sbind_def w comp_def)
  qed
qed

end

section \<open>The files of a snapshot and their destinations\<close>

text \<open>The files below a directory that pass the filters, with their relative paths.\<close>

definition selected_files :: "(string list \<Rightarrow> node option) \<Rightarrow> string list \<Rightarrow> string list option \<Rightarrow> string list option \<Rightarrow>
    export set" where
  "selected_files old ss inc exc =
     {(join_slash q, d, m) |q d m. q \<noteq> [] \<and> old (ss @ q) = Some (File d m) \<and> matches_filters (join_slash q) inc exc}"

text \<open>Every destination is free or a file of a kind that the entry can replace, and no file stands
  in place of a directory.\<close>

definition destinations_ok :: "'r disk \<Rightarrow> (string \<Rightarrow> bool) \<Rightarrow> 'r \<Rightarrow> string \<Rightarrow> export set \<Rightarrow> bool" where
  "destinations_ok D plain r dest files \<longleftrightarrow> dest \<noteq> [] \<and> last dest \<noteq> CHR ''/'' \<and>
     (\<forall>(rel, d, m)\<in>files. clear D plain r (path_join dest rel) \<and> local_node D r (path_join dest rel) \<noteq> Directory \<and>
        ((\<exists>d'. local_node D r (path_join dest rel) = Entry (d', MODE_LINK)) \<longrightarrow> m = MODE_LINK) \<and>
        (m = MODE_LINK \<longrightarrow> link_target d))"

lemma path_join_dest: "dest \<noteq> [] \<Longrightarrow> last dest \<noteq> CHR ''/'' \<Longrightarrow> path_join dest rel = dest @ CHR ''/'' # rel"
  by (simp add: path_join_def)

lemma join_slash_last:
  assumes "q \<noteq> []" "\<forall>s\<in>set q. segment s"
  shows "join_slash q \<noteq> [] \<and> last (join_slash q) \<noteq> CHR ''/''"
  using assms
proof (induction q rule: join_slash.induct)
  case (2 x)
  then have "x \<noteq> []" "CHR ''/'' \<notin> set x" by (simp_all add: segment_def)
  then have "last x \<noteq> CHR ''/''" using last_in_set by metis
  with \<open>x \<noteq> []\<close> show ?case by simp
qed auto

lemma destination_parent:
  assumes "dest \<noteq> []" "last dest \<noteq> CHR ''/''" "q \<noteq> []" "\<forall>s\<in>set q. segment s" "p = dest @ CHR ''/'' # join_slash q"
  shows "ancestor (parent_path p) p \<and> (\<forall>a. ancestor a p \<longrightarrow> a = parent_path p \<or> ancestor a (parent_path p))"
proof -
  obtain q' s where q: "q = q' @ [s]" using assms(3) by (cases q rule: rev_cases) auto
  define above where "above = (if q' = [] then dest else dest @ CHR ''/'' # join_slash q')"
  have s: "segment s" using assms(4) q by simp
  have p: "p = above @ CHR ''/'' # s"
    using assms(5) q join_slash_append [of q' "[s]"] by (simp add: above_def)
  have "last above \<noteq> CHR ''/''" "above \<noteq> []"
    using assms(1,2,4) join_slash_last [of q'] by (auto simp: above_def q)
  with parent_path_join [OF _ _ s] have "parent_path p = above" by (simp add: p)
  with ancestor_parent [OF s, of _ above] \<open>above \<noteq> []\<close> show ?thesis by (auto simp: p)
qed

lemma ancestor_join:
  assumes "ancestor (d @ CHR ''/'' # join_slash q) (d @ CHR ''/'' # join_slash q')"
    "\<forall>s\<in>set q. segment s" "\<forall>s\<in>set q'. segment s" "q \<noteq> []"
  shows "strict_prefix q q'"
  using assms
proof (induction q arbitrary: q' d)
  case (Cons s q)
  from Cons.prems(1) obtain t where t: "join_slash q' = join_slash (s # q) @ CHR ''/'' # t"
    by (auto simp: ancestor_def prefix_def)
  then obtain s' q'' where q': "q' = s' # q''" by (cases q') auto
  have seg: "segment s" "segment s'" using Cons.prems(2,3) by (simp_all add: q')
  obtain u where u: "join_slash (s # q) @ CHR ''/'' # t = s @ CHR ''/'' # u"
    using join_slash_append [of "[s]" q] by (cases "q = []") auto
  have "q'' \<noteq> []"
  proof
    assume "q'' = []"
    with t u q' have "CHR ''/'' \<in> set s'" by simp
    with seg(2) show False by (simp add: segment_def)
  qed
  then have j: "join_slash q' = s' @ CHR ''/'' # join_slash q''"
    using join_slash_append [of "[s']" q''] by (simp add: q')
  from j t u have "split_slash (s' @ CHR ''/'' # join_slash q'') = split_slash (s @ CHR ''/'' # u)" by simp
  then have s': "s' = s" by (simp add: split_slash_Cons seg)
  show ?case
  proof (cases "q = []")
    case False
    then have "join_slash (s # q) = s @ CHR ''/'' # join_slash q" using join_slash_append [of "[s]" q] by simp
    with j t s' have "join_slash q'' = join_slash q @ CHR ''/'' # t" by simp
    then have "ancestor (''x'' @ CHR ''/'' # join_slash q) (''x'' @ CHR ''/'' # join_slash q'')"
      by (simp add: ancestor_def)
    from Cons.IH [OF this] Cons.prems False show ?thesis by (simp add: q' s')
  qed (use \<open>q'' \<noteq> []\<close> q' s' in \<open>simp add: strict_prefix_def\<close>)
qed simp

text \<open>The plan of the loop holds exactly the selected files.\<close>

definition contents_of :: "(string list \<Rightarrow> node option) \<Rightarrow> string \<Rightarrow> byte list" where
  "contents_of old path = (case old (split_slash path) of Some (File d m) \<Rightarrow> d | _ \<Rightarrow> [])"

context git_odb
begin

lemma walked_nodes:
  assumes "walk_tree G r (tree_oid_hex fs) (join_slash ss) = Inr ws" "\<forall>s\<in>set ss. segment s" "fs_typed G r fs"
    "tree_oid_hex fs \<noteq> []" "old = nodes_of G r fs"
  shows "(path, we) \<in> set ws \<Longrightarrow> \<exists>q. path = join_slash (ss @ q) \<and> q \<noteq> [] \<and> (\<forall>s\<in>set q. segment s) \<and>
      split_slash path = ss @ q \<and>
      node_at G r (tree_oid_hex fs) (ss @ q) = Inr (Some (File (contents_of old path) (we_mode we))) \<and>
      old (ss @ q) = Some (File (contents_of old path) (we_mode we))"
    "q \<noteq> [] \<Longrightarrow> old (ss @ q) = Some (File d m) \<Longrightarrow> \<exists>we. (join_slash (ss @ q), we) \<in> set ws \<and> we_mode we = m"
proof -
  have zero: "tree_oid_hex fs \<noteq> zero_hex" using assms(3) by (simp add: fs_typed_def)
  note W = walked_file [OF assms(1,2) zero]
  have node: "node_at G r (tree_oid_hex fs) p = Inr (old p)" if "p \<noteq> []" for p
    using nodes_of_typed(1) [OF assms(3) that] assms(4,5) by (simp add: fs_node_def)
  {
    assume "(path, we) \<in> set ws"
    then obtain q where q: "path = join_slash (ss @ q)" "q \<noteq> []" "\<forall>s\<in>set q. segment s" "we_mode we \<noteq> MODE_TREE"
        "view G r (tree_oid_hex fs) (ss @ q) = Inr (Some (we_oid we, we_mode we))" unfolding W by blast
    with node [of "ss @ q"] obtain d where "Some (File d (we_mode we)) = old (ss @ q)"
      by (auto simp: node_at_def outcome_iff)
    then have d: "old (ss @ q) = Some (File d (we_mode we))" by simp
    have sp: "split_slash path = ss @ q" unfolding q(1) by (rule split_join) (use q(3) assms(2) in auto)
    with d node [of "ss @ q"] q show "\<exists>q. path = join_slash (ss @ q) \<and> q \<noteq> [] \<and> (\<forall>s\<in>set q. segment s) \<and>
        split_slash path = ss @ q \<and>
        node_at G r (tree_oid_hex fs) (ss @ q) = Inr (Some (File (contents_of old path) (we_mode we))) \<and>
        old (ss @ q) = Some (File (contents_of old path) (we_mode we))"
      by (intro exI [of _ q]) (simp add: contents_of_def)
  next
    assume q: "q \<noteq> []" "old (ss @ q) = Some (File d m)"
    have "nodes_of G r fs [] = None" by (simp add: nodes_of_def)
    from tree_shaped_nodes [OF nodes_of_typed(1) [OF assms(3)] this] q(2) assms(5)
    have segs: "\<forall>s\<in>set (ss @ q). segment s" by (simp add: tree_shaped_def)
    from node [of "ss @ q"] q have "node_at G r (tree_oid_hex fs) (ss @ q) = Inr (Some (File d m))" by simp
    then obtain h where h: "m \<noteq> MODE_TREE" "view G r (tree_oid_hex fs) (ss @ q) = Inr (Some (h, m))"
      unfolding node_at_File by blast
    have "(join_slash (ss @ q), \<lparr>we_name = last q, we_oid = h, we_mode = m\<rparr>) \<in> set ws"
      unfolding W using q(1) segs h by auto
    then show "\<exists>we. (join_slash (ss @ q), we) \<in> set ws \<and> we_mode we = m" by force
  }
qed

end

lemma strip_dest_join:
  assumes "q \<noteq> []" "\<forall>s\<in>set (ss @ q). segment s"
  shows "strip_dest (join_slash ss) (join_slash (ss @ q)) = join_slash q"
proof (cases "ss = []")
  case False
  have "join_slash q \<noteq> []" "join_slash ss \<noteq> []" using assms False join_slash_Nil_iff [of q] join_slash_Nil_iff [of ss] by auto
  with False show ?thesis using assms(1) by (auto simp: strip_dest_def join_slash_append)
qed (simp add: strip_dest_def)

text \<open>What the loop is about to do, in terms of the snapshot.\<close>

lemma planned_exports:
  assumes "git_odb G" "walk_tree G r (tree_oid_hex fs) (join_slash ss) = Inr ws" "\<forall>s\<in>set ss. segment s" "fs_typed G r fs"
    "tree_oid_hex fs \<noteq> []" "old = nodes_of G r fs" "dest \<noteq> []" "last dest \<noteq> CHR ''/''"
  shows "set (export_plan inc exc (join_slash ss) dest (contents_of old) ws) =
      (\<lambda>(rel, d, m). (path_join dest rel, d, m)) ` selected_files old ss inc exc"
    "set (filter (\<lambda>rel. matches_filters rel inc exc) (map (strip_dest (join_slash ss) \<circ> fst) ws)) =
      fst ` selected_files old ss inc exc"
proof -
  note W = git_odb.walked_nodes [OF assms(1-6)]
  have fwd: "\<exists>q. split_slash path = ss @ q \<and> strip_dest (join_slash ss) path = join_slash q \<and> q \<noteq> [] \<and>
      old (ss @ q) = Some (File (contents_of old path) (we_mode we))" if "(path, we) \<in> set ws" for path we
  proof -
    from W(1) [OF that] obtain q where q: "path = join_slash (ss @ q)" "q \<noteq> []" "\<forall>s\<in>set q. segment s"
        "split_slash path = ss @ q" "old (ss @ q) = Some (File (contents_of old path) (we_mode we))" by blast
    have "\<forall>s\<in>set (ss @ q). segment s" using q(3) assms(3) by auto
    from strip_dest_join [OF q(2) this] q show ?thesis by blast
  qed
  have bwd: "\<exists>path we. (path, we) \<in> set ws \<and> strip_dest (join_slash ss) path = join_slash q \<and> we_mode we = m \<and>
      contents_of old path = d" if q: "q \<noteq> []" "old (ss @ q) = Some (File d m)" for q d m
  proof -
    from W(2) [OF q] obtain we where we: "(join_slash (ss @ q), we) \<in> set ws" "we_mode we = m" by blast
    have "nodes_of G r fs [] = None" by (simp add: nodes_of_def)
    from git_odb.tree_shaped_nodes [OF assms(1) nodes_of_typed(1) [OF assms(4)] this] q(2) assms(6)
    have segs: "\<forall>s\<in>set (ss @ q). segment s" by (simp add: tree_shaped_def)
    have "contents_of old (join_slash (ss @ q)) = d" using split_join [OF segs] q(2) by (simp add: contents_of_def)
    with we strip_dest_join [OF q(1) segs] show ?thesis by blast
  qed
  have mem: "(\<exists>path we. (path, we) \<in> set ws \<and> strip_dest (join_slash ss) path = rel \<and> we_mode we = m \<and>
      contents_of old path = d \<and> matches_filters rel inc exc) \<longleftrightarrow> (rel, d, m) \<in> selected_files old ss inc exc" for rel d m
  proof
    assume "\<exists>path we. (path, we) \<in> set ws \<and> strip_dest (join_slash ss) path = rel \<and> we_mode we = m \<and>
      contents_of old path = d \<and> matches_filters rel inc exc"
    then obtain path we where p: "(path, we) \<in> set ws" "strip_dest (join_slash ss) path = rel" "we_mode we = m"
        "contents_of old path = d" "matches_filters rel inc exc" by blast
    from fwd [OF p(1)] p(2-5) show "(rel, d, m) \<in> selected_files old ss inc exc" by (auto simp: selected_files_def)
  next
    assume "(rel, d, m) \<in> selected_files old ss inc exc"
    then obtain q where q: "rel = join_slash q" "q \<noteq> []" "old (ss @ q) = Some (File d m)" "matches_filters rel inc exc"
      by (auto simp: selected_files_def)
    from bwd [OF q(2,3)] q(1,4) show "\<exists>path we. (path, we) \<in> set ws \<and> strip_dest (join_slash ss) path = rel \<and> we_mode we = m \<and>
      contents_of old path = d \<and> matches_filters rel inc exc" by blast
  qed
  show "set (export_plan inc exc (join_slash ss) dest (contents_of old) ws) =
      (\<lambda>(rel, d, m). (path_join dest rel, d, m)) ` selected_files old ss inc exc" (is "?A = ?B")
  proof (rule set_eqI)
    fix x
    have "x \<in> ?A \<longleftrightarrow> (\<exists>rel d m. x = (path_join dest rel, d, m) \<and> (\<exists>path we. (path, we) \<in> set ws \<and>
        strip_dest (join_slash ss) path = rel \<and> we_mode we = m \<and> contents_of old path = d \<and> matches_filters rel inc exc))"
      by (auto simp: export_plan_def image_iff; blast)
    also have "\<dots> \<longleftrightarrow> x \<in> ?B" unfolding mem by (force simp: image_iff)
    finally show "x \<in> ?A \<longleftrightarrow> x \<in> ?B" .
  qed
  show "set (filter (\<lambda>rel. matches_filters rel inc exc) (map (strip_dest (join_slash ss) \<circ> fst) ws)) =
      fst ` selected_files old ss inc exc" (is "?A = ?B")
  proof (rule set_eqI)
    fix rel
    have "rel \<in> ?A \<longleftrightarrow> (\<exists>d m path we. (path, we) \<in> set ws \<and> strip_dest (join_slash ss) path = rel \<and> we_mode we = m \<and>
        contents_of old path = d \<and> matches_filters rel inc exc)"
      by (auto simp: image_iff; force)
    also have "\<dots> \<longleftrightarrow> rel \<in> ?B" unfolding mem by force
    finally show "rel \<in> ?A \<longleftrightarrow> rel \<in> ?B" .
  qed
qed

lemma plan_exportable:
  assumes "tree_shaped old" "files = selected_files old ss inc exc" "destinations_ok D plain r dest files"
    "set xs = (\<lambda>(rel, d, m). (path_join dest rel, d, m)) ` files"
  shows "exportable D plain r xs"
  unfolding exportable_def
proof (intro conjI ballI)
  from assms(3) have dest: "dest \<noteq> []" "last dest \<noteq> CHR ''/''" by (simp_all add: destinations_ok_def)
  have sf: "\<exists>q d m. q \<noteq> [] \<and> (\<forall>s\<in>set q. segment s) \<and> x = (dest @ CHR ''/'' # join_slash q, d, m) \<and>
      old (ss @ q) = Some (File d m) \<and> (join_slash q, d, m) \<in> files" if "x \<in> set xs" for x
  proof -
    from that assms(2,4) obtain q d m where q: "x = (path_join dest (join_slash q), d, m)" "q \<noteq> []"
        "old (ss @ q) = Some (File d m)" "(join_slash q, d, m) \<in> files" by (auto simp: selected_files_def)
    moreover from q(3) assms(1) have "\<forall>s\<in>set q. segment s" by (simp add: tree_shaped_def)
    moreover from q(1) have "x = (dest @ CHR ''/'' # join_slash q, d, m)" by (simp add: path_join_dest [OF dest])
    ultimately show ?thesis by blast
  qed
  fix x
  assume "x \<in> set xs"
  from sf [OF this] obtain q d m where q: "q \<noteq> []" "\<forall>s\<in>set q. segment s" "x = (dest @ CHR ''/'' # join_slash q, d, m)"
      "old (ss @ q) = Some (File d m)" "(join_slash q, d, m) \<in> files" by blast
  from assms(3) have "\<forall>(rel, d, m)\<in>files. clear D plain r (path_join dest rel) \<and> local_node D r (path_join dest rel) \<noteq> Directory \<and>
      ((\<exists>d'. local_node D r (path_join dest rel) = Entry (d', MODE_LINK)) \<longrightarrow> m = MODE_LINK) \<and>
      (m = MODE_LINK \<longrightarrow> link_target d)" by (simp add: destinations_ok_def)
  from bspec [OF this q(5)] destination_parent [OF dest q(1,2) refl]
  show "export_ok D plain r x" unfolding export_ok_def q(3) path_join_dest [OF dest] prod.case by blast
  fix y
  assume "y \<in> set xs"
  from sf [OF this] obtain q' d' m' where y: "\<forall>s\<in>set q'. segment s" "y = (dest @ CHR ''/'' # join_slash q', d', m')"
      "old (ss @ q') = Some (File d' m')" by blast
  show "\<not> ancestor (fst x) (fst y)"
  proof
    assume "ancestor (fst x) (fst y)"
    then have "ancestor (dest @ CHR ''/'' # join_slash q) (dest @ CHR ''/'' # join_slash q')" by (simp only: q(3) y(2) fst_conv)
    from ancestor_join [OF this q(2) y(1) q(1)] have "strict_prefix q q'" .
    with files_apart [OF assms(1) q(4) y(3)] show False by (simp add: strict_prefix_def)
  qed
  show "fst x = fst y \<longrightarrow> x = y"
  proof
    assume "fst x = fst y"
    then have "join_slash q = join_slash q'" by (simp add: q(3) y(2))
    from arg_cong [OF this, of split_slash] have "q = q'" unfolding split_join [OF q(2)] split_join [OF y(1)] .
    with q(3,4) y(2,3) show "x = y" by simp
  qed
qed

lemma copy_out_plan:
  assumes "local_disk G D plain" "fs_typed G r fs" "old = nodes_of G r fs" "tree_oid_hex fs \<noteq> []"
    "\<forall>s\<in>set ss. segment s" "walk_tree G r (tree_oid_hex fs) (join_slash ss) = Inr ws"
    "files = selected_files old ss inc exc" "\<forall>(rel, d, m)\<in>files. file_type_from_mode m \<noteq> None"
    "destinations_ok D plain r dest files"
  shows "\<exists>fes xs. sfold (copy_out_step G D inc exc (tree_oid_hex fs) (join_slash ss) dest) ws [] r =
      (Inr fes, foldl (export_step D) r xs) \<and> set (map fe_path fes) = fst ` files \<and>
    exportable D plain r xs \<and> set xs = (\<lambda>(rel, d, m). (path_join dest rel, d, m)) ` files"
proof -
  note odb = local_disk.axioms(1) [OF assms(1)]
  let ?xs = "export_plan inc exc (join_slash ss) dest (contents_of old) ws"
  have dest: "dest \<noteq> []" "last dest \<noteq> CHR ''/''" using assms(9) by (simp_all add: destinations_ok_def)
  have "nodes_of G r fs [] = None" by (simp add: nodes_of_def)
  from git_odb.tree_shaped_nodes [OF odb nodes_of_typed(1) [OF assms(2)] this]
  have shaped: "tree_shaped old" by (simp add: assms(3))
  note P = planned_exports [OF odb assms(6,5,2,4,3) dest, of inc exc]
  have X: "exportable D plain r ?xs" using plan_exportable [OF shaped assms(7,9)] P(1) assms(7) by simp
  have entries: "split_slash path \<noteq> [] \<and>
      (matches_filters (strip_dest (join_slash ss) path) inc exc \<longrightarrow> file_type_from_mode (we_mode we) \<noteq> None) \<and>
      node_at G r (tree_oid_hex fs) (split_slash path) = Inr (Some (File (contents_of old path) (we_mode we)))"
    if "(path, we) \<in> set ws" for path we
  proof -
    from git_odb.walked_nodes(1) [OF odb assms(6,5,2,4,3) that] obtain q where q: "path = join_slash (ss @ q)" "q \<noteq> []"
      "\<forall>s\<in>set q. segment s" "split_slash path = ss @ q"
      "node_at G r (tree_oid_hex fs) (ss @ q) = Inr (Some (File (contents_of old path) (we_mode we)))"
      "old (ss @ q) = Some (File (contents_of old path) (we_mode we))" by blast
    have "\<forall>s\<in>set (ss @ q). segment s" using q(3) assms(5) by auto
    from strip_dest_join [OF q(2) this] q(1,2,6) assms(7)
    have "matches_filters (strip_dest (join_slash ss) path) inc exc \<Longrightarrow>
        (join_slash q, contents_of old path, we_mode we) \<in> files" by (auto simp: selected_files_def)
    with assms(8) q(2,4,5) show ?thesis by fastforce
  qed
  have "tree_oid_hex fs \<noteq> zero_hex" using assms(2) by (simp add: fs_typed_def)
  from local_disk.copy_out_loop [OF assms(1) entries this X, of "[]"] obtain fes where
      run: "sfold (copy_out_step G D inc exc (tree_oid_hex fs) (join_slash ss) dest) ws [] r =
        (Inr fes, foldl (export_step D) r ?xs)"
      and paths: "map fe_path fes = filter (\<lambda>rel. matches_filters rel inc exc) (map (strip_dest (join_slash ss) \<circ> fst) ws)"
    unfolding append_Nil by blast
  show ?thesis
    by (rule exI [of _ fes], rule exI [of _ ?xs], unfold paths P assms(7), intro conjI run X refl)
qed

lemma exported_file:
  assumes "exportable D plain r xs" "(p, d, m) \<in> set xs"
  shows "exported xs old p = replaced d m (old p)"
proof -
  have "y = (d, m)" if "(p, y) \<in> set xs" for y using assms that unfolding exportable_def by fastforce
  moreover have "map_of xs p \<noteq> None" using weak_map_of_SomeI [OF assms(2)] by auto
  ultimately have "map_of xs p = Some (d, m)" using map_of_SomeD by fastforce
  then show ?thesis by (simp add: exported_def)
qed

lemma exportable_entry:
  assumes "exportable D plain r xs" "(p, d, m) \<in> set xs"
  shows "clear D plain r p \<and> (\<forall>y\<in>set xs. \<not> ancestor (fst y) p)"
proof
  from assms have "export_ok D plain r (p, d, m)" unfolding exportable_def by blast
  then show "clear D plain r p" by (simp add: export_ok_def)
  from assms have "\<forall>y\<in>set xs. \<not> ancestor (fst y) (fst (p, d, m))" unfolding exportable_def by blast
  then show "\<forall>y\<in>set xs. \<not> ancestor (fst y) p" by simp
qed

text \<open>The nodes after the loop: the destinations, the directories above them, and the rest.\<close>

definition exported_to :: "'r disk \<Rightarrow> (string \<Rightarrow> bool) \<Rightarrow> 'r \<Rightarrow> 'r \<Rightarrow> string \<Rightarrow> export set \<Rightarrow> bool" where
  "exported_to D plain r r' dest files \<longleftrightarrow>
     (\<forall>(rel, d, m)\<in>files. clear D plain r' (path_join dest rel) \<and>
        local_node D r' (path_join dest rel) = replaced d m (local_node D r (path_join dest rel))) \<and>
     (\<forall>p. clear D plain r p \<and> (\<forall>x\<in>files. \<not> ancestor (path_join dest (fst x)) p) \<longrightarrow> clear D plain r' p \<and>
        ((\<forall>x\<in>files. p \<noteq> path_join dest (fst x)) \<longrightarrow> local_node D r' p =
           (if \<exists>x\<in>files. ancestor p (path_join dest (fst x)) then Directory else local_node D r p)))"

lemma copy_out_done:
  assumes "local_disk G D plain" "fs_typed G r fs" "old = nodes_of G r fs" "tree_oid_hex fs \<noteq> []"
    "\<forall>s\<in>set ss. segment s" "walk_tree G r (tree_oid_hex fs) (join_slash ss) = Inr ws"
    "files = selected_files old ss inc exc" "\<forall>(rel, d, m)\<in>files. file_type_from_mode m \<noteq> None"
    "destinations_ok D plain r dest files"
  shows "\<exists>fes r'. sfold (copy_out_step G D inc exc (tree_oid_hex fs) (join_slash ss) dest) ws [] r = (Inr fes, r') \<and>
    set (map fe_path fes) = fst ` files \<and> git_extends G r r' \<and> exported_to D plain r r' dest files"
proof -
  from copy_out_plan [OF assms] obtain fes xs where
      run: "sfold (copy_out_step G D inc exc (tree_oid_hex fs) (join_slash ss) dest) ws [] r =
        (Inr fes, foldl (export_step D) r xs)"
      and paths: "set (map fe_path fes) = fst ` files" and X: "exportable D plain r xs"
      and xs: "set xs = (\<lambda>(rel, d, m). (path_join dest rel, d, m)) ` files" by blast
  let ?r' = "foldl (export_step D) r xs"
  note E = local_disk.export_steps_effect [OF assms(1) X]
  have fst_xs: "fst ` set xs = (\<lambda>x. path_join dest (fst x)) ` files"
    unfolding xs image_image by (rule image_cong) (auto split: prod.split)
  have written: "clear D plain ?r' (path_join dest rel) \<and>
      local_node D ?r' (path_join dest rel) = replaced d m (local_node D r (path_join dest rel))"
    if f: "(rel, d, m) \<in> files" for rel d m
  proof -
    from f xs have x: "(path_join dest rel, d, m) \<in> set xs" by force
    with E exportable_entry [OF X x] exported_file [OF X x] show ?thesis by simp
  qed
  have apart: "clear D plain ?r' p \<and> ((\<forall>x\<in>files. p \<noteq> path_join dest (fst x)) \<longrightarrow> local_node D ?r' p =
      (if \<exists>x\<in>files. ancestor p (path_join dest (fst x)) then Directory else local_node D r p))"
    if p: "clear D plain r p" "\<forall>x\<in>files. \<not> ancestor (path_join dest (fst x)) p" for p
  proof -
    have "\<forall>y\<in>fst ` set xs. \<not> ancestor y p" using p(2) unfolding fst_xs by blast
    with E p(1) have e: "clear D plain ?r' p" "local_node D ?r' p = exported xs (local_node D r) p" by auto
    have "map_of xs p = None" if "\<forall>x\<in>files. p \<noteq> path_join dest (fst x)"
      using that fst_xs by (auto simp: map_of_eq_None_iff)
    moreover have "(\<exists>x\<in>set xs. ancestor p (fst x)) \<longleftrightarrow> (\<exists>y\<in>fst ` set xs. ancestor p y)" by simp
    then have "(\<exists>x\<in>set xs. ancestor p (fst x)) \<longleftrightarrow> (\<exists>x\<in>files. ancestor p (path_join dest (fst x)))"
      unfolding fst_xs by simp
    ultimately show ?thesis using e by (simp add: exported_def)
  qed
  have "exported_to D plain r ?r' dest files"
    unfolding exported_to_def
  proof (intro conjI)
    show "\<forall>(rel, d, m)\<in>files. clear D plain ?r' (path_join dest rel) \<and>
        local_node D ?r' (path_join dest rel) = replaced d m (local_node D r (path_join dest rel))"
      by (intro ballI, clarify) (rule written)
  qed (intro allI impI, elim conjE, rule apart)
  with run paths E show ?thesis by blast
qed

section \<open>Removing what is not in the repository\<close>

text \<open>What \<^verbatim>\<open>sync_out\<close> also relies on, for directories without links below them: the iterators list
  the files and the directories below a directory, each once, and an empty directory can go.\<close>

definition linkless :: "'r disk \<Rightarrow> (string \<Rightarrow> bool) \<Rightarrow> 'r \<Rightarrow> string \<Rightarrow> bool" where
  "linkless D plain r root \<longleftrightarrow> clear D plain r root \<and> (\<forall>f. local_node D r root \<noteq> Entry f) \<and>
     (\<forall>p d. ancestor root p \<and> clear D plain r p \<longrightarrow> local_node D r p \<noteq> Entry (d, MODE_LINK))"

locale local_tree = local_disk G D plain for G :: "('r, 'b) libgit2" and D :: "'r disk" and plain :: "string \<Rightarrow> bool" +
  assumes exists_iff: "linkless D plain r root \<Longrightarrow> disk_exists D r root \<longleftrightarrow> local_node D r root \<noteq> Absent"
    and files_in_directories: "clear D plain r p \<Longrightarrow> local_node D r p = Entry f \<Longrightarrow> ancestor q p \<Longrightarrow> local_node D r q = Directory"
    and recursive_files: "linkless D plain r root \<Longrightarrow> disk_exists D r root \<Longrightarrow>
      distinct (map fst (disk_recursive D r root)) \<and>
      (\<forall>rel. (rel, False) \<in> set (disk_recursive D r root) \<longleftrightarrow>
         clear D plain r (path_join root rel) \<and> ancestor root (path_join root rel) \<and>
         (\<exists>f. local_node D r (path_join root rel) = Entry f))"
    and directories: "linkless D plain r root \<Longrightarrow> disk_exists D r root \<Longrightarrow>
      distinct (disk_directories D r root) \<and>
      (\<forall>d\<in>set (disk_directories D r root). clear D plain r d \<and> ancestor root d \<and> local_node D r d = Directory)"
    and remove_directory: "clear D plain r d \<Longrightarrow> local_node D r d = Directory \<Longrightarrow> disk_is_empty D r d \<Longrightarrow>
      git_extends G r (disk_remove D r d) \<and>
      (\<forall>q. clear D plain r q \<longrightarrow> local_node D (disk_remove D r d) q = ((local_node D r)(d := Absent)) q)"
begin

text \<open>One removal, of a file or of an empty directory.\<close>

lemma removed:
  assumes "clear D plain r p" "(\<exists>f. local_node D r p = Entry f) \<or> local_node D r p = Directory \<and> disk_is_empty D r p"
    "clear D plain r q"
  shows "local_node D (disk_remove D r p) q = ((local_node D r)(p := Absent)) q" "clear D plain (disk_remove D r p) q"
proof -
  have effect: "local_node D (disk_remove D r p) a = ((local_node D r)(p := Absent)) a" if a: "clear D plain r a" for a
    using assms(2)
  proof
    assume "\<exists>f. local_node D r p = Entry f"
    then obtain f where f: "local_node D r p = Entry f" ..
    then have "\<not> ancestor p a" using a unfolding clear_def by blast
    with remove_entry [OF assms(1) f] a show ?thesis by (simp add: disk_effect_def)
  qed (use remove_directory assms(1) a in blast)
  from effect [OF assms(3)] show "local_node D (disk_remove D r p) q = ((local_node D r)(p := Absent)) q" .
  show "clear D plain (disk_remove D r p) q"
    unfolding clear_def
  proof (intro conjI allI impI)
    fix a f
    assume a: "ancestor a q"
    from a assms(3) have "local_node D r a \<noteq> Entry f" unfolding clear_def by blast
    with effect [OF clear_ancestor [OF assms(3) a]] show "local_node D (disk_remove D r p) a \<noteq> Entry f"
      by (cases "a = p") simp_all
  qed (use assms(3) in \<open>simp add: clear_def\<close>)
qed

lemma removed_repository:
  assumes "clear D plain r p" "(\<exists>f. local_node D r p = Entry f) \<or> local_node D r p = Directory \<and> disk_is_empty D r p"
  shows "git_extends G r (disk_remove D r p)"
  using assms remove_entry [OF assms(1)] remove_directory [OF assms(1)] unfolding disk_effect_def by blast

text \<open>The loop that removes files.\<close>

lemma remove_loop:
  assumes "distinct rels" "inj_on (path_join dest) (set rels)"
    "\<forall>rel\<in>set rels. clear D plain r (path_join dest rel) \<and> (\<exists>f. local_node D r (path_join dest rel) = Entry f)"
  shows "\<exists>r' fes. fold (remove_extra D opts dest kept) rels (r, dels) = (r', dels @ fes) \<and> git_extends G r r' \<and>
    map fe_path fes = filter (\<lambda>rel. matches_filters rel (so_include opts) (so_exclude opts) \<and> rel \<notin> set kept) rels \<and>
    (\<forall>q. clear D plain r q \<longrightarrow> clear D plain r' q \<and>
       local_node D r' q = (if q \<in> path_join dest ` set (map fe_path fes) then Absent else local_node D r q))"
  using assms
proof (induction rels arbitrary: r dels)
  case Nil
  then show ?case by (simp add: git_extends_refl)
next
  case (Cons rel rels)
  let ?p = "path_join dest rel" and ?gone = "matches_filters rel (so_include opts) (so_exclude opts) \<and> rel \<notin> set kept"
  note IH = Cons.IH [where dels = "dels @ fes" for fes]
  have d: "distinct rels" "inj_on (path_join dest) (set rels)" using Cons.prems(1,2) by (auto simp: inj_on_def)
  show ?case
  proof (cases ?gone)
    case False
    then have step: "remove_extra D opts dest kept rel (r, dels) = (r, dels)" by (auto simp: remove_extra_def)
    from Cons.IH [OF d, of r dels] Cons.prems(3) show ?thesis unfolding fold_simps step by (auto simp: False)
  next
    case True
    let ?r1 = "disk_remove D r ?p" and ?fe = "\<lparr>fe_path = rel, fe_file_type = Blob, fe_src = None\<rparr>"
    have step: "remove_extra D opts dest kept rel (r, dels) = (?r1, dels @ [?fe])" using True by (simp add: remove_extra_def)
    from Cons.prems(3) have p: "clear D plain r ?p" "(\<exists>f. local_node D r ?p = Entry f) \<or> local_node D r ?p = Directory \<and> disk_is_empty D r ?p"
      by auto
    note R = removed [OF p]
    have rest: "\<forall>rel'\<in>set rels. clear D plain ?r1 (path_join dest rel') \<and> (\<exists>f. local_node D ?r1 (path_join dest rel') = Entry f)"
    proof
      fix rel'
      assume r': "rel' \<in> set rels"
      with Cons.prems(3) have c: "clear D plain r (path_join dest rel')" "\<exists>f. local_node D r (path_join dest rel') = Entry f" by auto
      have "path_join dest rel' \<noteq> ?p" using Cons.prems(1,2) r' by (auto simp: inj_on_def)
      with R [OF c(1)] c(2) show "clear D plain ?r1 (path_join dest rel') \<and> (\<exists>f. local_node D ?r1 (path_join dest rel') = Entry f)"
        by simp
    qed
    from Cons.IH [OF d rest, of "dels @ [?fe]"] obtain r' fes where I:
      "fold (remove_extra D opts dest kept) rels (?r1, dels @ [?fe]) = (r', (dels @ [?fe]) @ fes)" "git_extends G ?r1 r'"
      "map fe_path fes = filter (\<lambda>rel. matches_filters rel (so_include opts) (so_exclude opts) \<and> rel \<notin> set kept) rels"
      "\<forall>q. clear D plain ?r1 q \<longrightarrow> clear D plain r' q \<and>
         local_node D r' q = (if q \<in> path_join dest ` set (map fe_path fes) then Absent else local_node D ?r1 q)" by blast
    show ?thesis
    proof (intro exI conjI)
      show "fold (remove_extra D opts dest kept) (rel # rels) (r, dels) = (r', dels @ ?fe # fes)"
        unfolding fold_simps step I(1) by simp
      show "git_extends G r r'" using removed_repository [OF p] I(2) by (rule git_extends_trans)
      show "map fe_path (?fe # fes) = filter (\<lambda>rel. matches_filters rel (so_include opts) (so_exclude opts) \<and> rel \<notin> set kept) (rel # rels)"
        using True I(3) by simp
      show "\<forall>q. clear D plain r q \<longrightarrow> clear D plain r' q \<and>
         local_node D r' q = (if q \<in> path_join dest ` set (map fe_path (?fe # fes)) then Absent else local_node D r q)"
      proof (intro allI impI)
        fix q
        assume "clear D plain r q"
        note q = R [OF this]
        from q(2) I(4) have "clear D plain r' q"
          "local_node D r' q = (if q \<in> path_join dest ` set (map fe_path fes) then Absent else local_node D ?r1 q)" by blast+
        with q(1) show "clear D plain r' q \<and>
         local_node D r' q = (if q \<in> path_join dest ` set (map fe_path (?fe # fes)) then Absent else local_node D r q)"
          by (cases "q = ?p") simp_all
      qed
    qed
  qed
qed

text \<open>The loop that removes empty directories touches no file.\<close>

lemma prune_loop:
  assumes "distinct ds" "\<forall>d\<in>set ds. clear D plain r d \<and> local_node D r d = Directory"
    "r' = fold (\<lambda>d r. if disk_is_empty D r d then disk_remove D r d else r) ds r"
  shows "git_extends G r r' \<and> (\<forall>q. clear D plain r q \<longrightarrow>
    local_node D r' q = local_node D r q \<or> q \<in> set ds \<and> local_node D r' q = Absent)"
  using assms
proof (induction ds arbitrary: r)
  case Nil
  then show ?case by (simp add: git_extends_refl)
next
  case (Cons d ds)
  show ?case
  proof (cases "disk_is_empty D r d")
    case False
    with Cons.prems have "r' = fold (\<lambda>d r. if disk_is_empty D r d then disk_remove D r d else r) ds r" by simp
    from Cons.IH [OF _ _ this] Cons.prems(1,2) show ?thesis unfolding distinct.simps list.set by blast
  next
    case True
    let ?r1 = "disk_remove D r d"
    from True Cons.prems(2) have p: "clear D plain r d"
      "(\<exists>f. local_node D r d = Entry f) \<or> local_node D r d = Directory \<and> disk_is_empty D r d" by auto
    note R = removed [OF p]
    have rest: "\<forall>d'\<in>set ds. clear D plain ?r1 d' \<and> local_node D ?r1 d' = Directory"
    proof
      fix d'
      assume d': "d' \<in> set ds"
      with Cons.prems(1,2) have "clear D plain r d'" "local_node D r d' = Directory" "d' \<noteq> d" by auto
      with R [OF this(1)] show "clear D plain ?r1 d' \<and> local_node D ?r1 d' = Directory" by simp
    qed
    from True Cons.prems(3) have run: "r' = fold (\<lambda>d r. if disk_is_empty D r d then disk_remove D r d else r) ds ?r1" by simp
    have "distinct ds" using Cons.prems(1) by simp
    note I = Cons.IH [OF this rest run]
    have "local_node D r' q = local_node D r q \<or> q \<in> set (d # ds) \<and> local_node D r' q = Absent" if q: "clear D plain r q" for q
    proof -
      from I R(2) [OF q] have "local_node D r' q = local_node D ?r1 q \<or> q \<in> set ds \<and> local_node D r' q = Absent" by blast
      with R(1) [OF q] show ?thesis by (cases "q = d") auto
    qed
    moreover have "git_extends G r r'" using git_extends_trans [OF removed_repository [OF p]] I by blast
    ultimately show ?thesis by blast
  qed
qed

end

text \<open>A path is not clear because of a clear one.\<close>

lemma shortest_obstacle:
  assumes "local_disk G D plain" "plain p" "\<not> clear D plain r p"
  shows "\<exists>a f. ancestor a p \<and> clear D plain r a \<and> local_node D r a = Entry f"
proof -
  let ?P = "\<lambda>a. ancestor a p \<and> (\<exists>f. local_node D r a = Entry f)"
  from assms(2,3) obtain a where "?P a" unfolding clear_def by blast
  from ex_has_least_nat [of ?P a length, OF this] obtain a where a: "?P a" "\<And>b. ?P b \<Longrightarrow> length a \<le> length b" by blast
  have "clear D plain r a"
    unfolding clear_def
  proof (intro conjI allI impI)
    from a(1) local_disk.plain_ancestor [OF assms(1,2)] show "plain a" by blast
    fix b f
    assume b: "ancestor b a"
    then have "length b < length a" by (auto simp: ancestor_def prefix_def)
    with a(2) [of b] ancestor_trans [OF b] a(1) show "local_node D r b \<noteq> Entry f" by fastforce
  qed
  with a(1) show ?thesis by blast
qed

lemma not_above: "dest \<noteq> [] \<Longrightarrow> last dest \<noteq> CHR ''/'' \<Longrightarrow> \<not> ancestor (path_join dest rel) dest \<and> path_join dest rel \<noteq> dest \<and>
    ancestor dest (path_join dest rel)"
  by (auto simp: path_join_dest ancestor_def prefix_def)

lemma ancestor_comparable:
  assumes "ancestor p t" "ancestor q t"
  shows "p = q \<or> ancestor p q \<or> ancestor q p"
proof -
  from assms have "prefix (p @ ''/'') (q @ ''/'') \<or> prefix (q @ ''/'') (p @ ''/'')"
    using prefix_same_cases unfolding ancestor_def by blast
  with assms show ?thesis by (auto simp: ancestor_def prefix_snoc)
qed

text \<open>What the export leaves at other paths.\<close>

lemma exported_rest:
  assumes "exported_to D plain r r' dest files" "destinations_ok D plain r dest files" "clear D plain r p"
    "\<forall>x\<in>files. \<not> ancestor (path_join dest (fst x)) p" "\<forall>x\<in>files. p \<noteq> path_join dest (fst x)"
  shows "clear D plain r' p" "local_node D r' p = Entry f \<longleftrightarrow> local_node D r p = Entry f"
proof -
  from assms(1,3,4,5) have e: "clear D plain r' p" "local_node D r' p =
      (if \<exists>x\<in>files. ancestor p (path_join dest (fst x)) then Directory else local_node D r p)"
    unfolding exported_to_def by blast+
  show "clear D plain r' p" by (rule e(1))
  have "local_node D r p \<noteq> Entry f" if "x \<in> files" "ancestor p (path_join dest (fst x))" for x
    using that assms(2) unfolding destinations_ok_def clear_def by fastforce
  with e(2) show "local_node D r' p = Entry f \<longleftrightarrow> local_node D r p = Entry f" by auto
qed

lemma exported_outside:
  assumes "exported_to D plain r r' dest files" "dest \<noteq> []" "last dest \<noteq> CHR ''/''" "clear D plain r p"
    "p \<noteq> dest" "\<not> ancestor p dest" "\<not> ancestor dest p"
  shows "clear D plain r' p \<and> local_node D r' p = local_node D r p"
proof -
  note below = not_above [OF assms(2,3)]
  have "\<not> ancestor (path_join dest rel) p" "p \<noteq> path_join dest rel" "\<not> ancestor p (path_join dest rel)" for rel
    using below [of rel] ancestor_trans [of dest "path_join dest rel" p] ancestor_comparable [of p _ dest] assms(5-7) by blast+
  with assms(1,4) show ?thesis unfolding exported_to_def by simp
qed

context local_tree
begin

lemma exported_clear:
  assumes "exported_to D plain r r' dest files" "destinations_ok D plain r dest files" "clear D plain r' p"
  shows "clear D plain r p \<and> (\<forall>x\<in>files. \<not> ancestor (path_join dest (fst x)) p)"
proof (intro conjI ballI notI)
  have entry: "\<exists>f. local_node D r' (path_join dest (fst x)) = Entry f" if "x \<in> files" for x
    using that assms(1) unfolding exported_to_def replaced_def by fastforce
  show "clear D plain r p"
  proof (rule ccontr)
    assume "\<not> clear D plain r p"
    with shortest_obstacle [OF local_disk_axioms] assms(3) obtain a f where a: "ancestor a p" "clear D plain r a"
        "local_node D r a = Entry f" unfolding clear_def by blast
    have below: "\<not> ancestor (path_join dest (fst x)) a" "a \<noteq> path_join dest (fst x)" if "x \<in> files" for x
      using entry [OF that] a(1) assms(3) ancestor_trans unfolding clear_def by blast+
    have "\<not> ancestor a (path_join dest (fst x))" if "x \<in> files" for x
      using that assms(2) a(3) unfolding destinations_ok_def clear_def by fastforce
    with below assms(1) a(2,3) have "local_node D r' a = Entry f" unfolding exported_to_def by simp
    with assms(3) a(1) show False unfolding clear_def by blast
  qed
  fix x
  assume "x \<in> files" "ancestor (path_join dest (fst x)) p"
  with entry assms(3) show False unfolding clear_def by blast
qed

lemma exported_linkless:
  assumes "exported_to D plain r r' dest files" "destinations_ok D plain r dest files" "linkless D plain r dest"
    "\<forall>(rel, d, m)\<in>files. m \<noteq> MODE_LINK"
  shows "linkless D plain r' dest"
proof -
  from assms(2) have dest: "dest \<noteq> []" "last dest \<noteq> CHR ''/''" by (simp_all add: destinations_ok_def)
  have c: "clear D plain r dest" "\<And>f. local_node D r dest \<noteq> Entry f" using assms(3) unfolding linkless_def by blast+
  have "\<forall>x\<in>files. \<not> ancestor (path_join dest (fst x)) dest" "\<forall>x\<in>files. dest \<noteq> path_join dest (fst x)"
    using not_above [OF dest] by metis+
  with assms(1) c(1) have "clear D plain r' dest" "local_node D r' dest =
      (if \<exists>x\<in>files. ancestor dest (path_join dest (fst x)) then Directory else local_node D r dest)"
    unfolding exported_to_def by blast+
  with c(2) have "clear D plain r' dest" "\<And>f. local_node D r' dest \<noteq> Entry f" by (simp_all split: if_splits)
  moreover have "local_node D r' p \<noteq> Entry (d, MODE_LINK)" if p: "ancestor dest p" "clear D plain r' p" for p d
  proof (cases "\<exists>x\<in>files. p = path_join dest (fst x)")
    case True
    then obtain rel d' m where f: "(rel, d', m) \<in> files" "p = path_join dest rel" by force
    with assms(1,4) have "local_node D r' p = replaced d' m (local_node D r p)" "m \<noteq> MODE_LINK"
      unfolding exported_to_def by fastforce+
    then show ?thesis by (auto simp: replaced_def MODE_BLOB_def MODE_BLOB_EXEC_def MODE_LINK_def split: if_splits)
  next
    case False
    from exported_clear [OF assms(1,2) p(2)] have c: "clear D plain r p" "\<forall>x\<in>files. \<not> ancestor (path_join dest (fst x)) p" by blast+
    with False assms(1) have "local_node D r' p = Directory \<or> local_node D r' p = local_node D r p"
      unfolding exported_to_def by auto
    with assms(3) p(1) c(1) show ?thesis unfolding linkless_def by auto
  qed
  ultimately show ?thesis unfolding linkless_def by blast
qed

lemma walked_disk:
  assumes "linkless D plain r root" "root \<noteq> []" "last root \<noteq> CHR ''/''"
  shows "distinct (disk_walk D r root) \<and> (\<forall>rel. rel \<in> set (disk_walk D r root) \<longleftrightarrow>
    clear D plain r (path_join root rel) \<and> (\<exists>f. local_node D r (path_join root rel) = Entry f))"
proof (cases "disk_exists D r root")
  case True
  note R = recursive_files [OF assms(1) True]
  have "distinct (map fst (filter (\<lambda>(rel, is_directory). \<not> is_directory) (disk_recursive D r root)))"
    using R by (simp add: distinct_map_filter)
  moreover have "rel \<in> set (disk_walk D r root) \<longleftrightarrow> (rel, False) \<in> set (disk_recursive D r root)" for rel
    using True by (force simp: disk_walk_def)
  ultimately show ?thesis using R not_above [OF assms(2,3)] True by (simp add: disk_walk_def)
next
  case False
  with exists_iff [OF assms(1)] have absent: "local_node D r root = Absent" by simp
  have "local_node D r (path_join root rel) \<noteq> Entry f" if "clear D plain r (path_join root rel)" for rel f
    using files_in_directories [OF that] absent not_above [OF assms(2,3)] by fastforce
  with False show ?thesis by (auto simp: disk_walk_def)
qed

lemma removed_linkless:
  assumes "linkless D plain r root"
    "\<And>q. clear D plain r q \<Longrightarrow> clear D plain r' q \<and> (local_node D r' q = local_node D r q \<or> local_node D r' q = Absent)"
  shows "linkless D plain r' root"
proof -
  have "local_node D r' p \<noteq> Entry (d, MODE_LINK)" if p: "ancestor root p" "clear D plain r' p" for p d
  proof
    assume e: "local_node D r' p = Entry (d, MODE_LINK)"
    have "clear D plain r p"
    proof (rule ccontr)
      assume "\<not> clear D plain r p"
      with shortest_obstacle [OF local_disk_axioms] p(2) obtain a f where a: "ancestor a p" "clear D plain r a"
          "local_node D r a = Entry f" unfolding clear_def by blast
      from files_in_directories [OF p(2) e a(1)] assms(2) [OF a(2)] a(3) show False by simp
    qed
    with assms p(1) e show False unfolding linkless_def by fastforce
  qed
  moreover from assms(1) have "clear D plain r root" "\<And>f. local_node D r root \<noteq> Entry f" unfolding linkless_def by blast+
  with assms(2) [of root] have "clear D plain r' root" "\<And>f. local_node D r' root \<noteq> Entry f" by auto
  ultimately show ?thesis unfolding linkless_def by blast
qed

lemma pruned:
  assumes "linkless D plain r dest" "clear D plain r q"
  shows "git_extends G r (prune_dirs D dest r)" "local_node D (prune_dirs D dest r) q = Entry f \<longleftrightarrow> local_node D r q = Entry f"
    "\<not> ancestor dest q \<Longrightarrow> local_node D (prune_dirs D dest r) q = local_node D r q"
proof -
  let ?ds = "if disk_exists D r dest then disk_directories D r dest else []"
  have D: "distinct (rev (sort_key split_slash ?ds))"
    "\<forall>d\<in>set (rev (sort_key split_slash ?ds)). clear D plain r d \<and> local_node D r d = Directory"
    using directories [OF assms(1)] by (cases "disk_exists D r dest"; simp)+
  have below: "\<forall>d\<in>set (rev (sort_key split_slash ?ds)). ancestor dest d"
    using directories [OF assms(1)] by (cases "disk_exists D r dest"; simp)
  have "prune_dirs D dest r = fold (\<lambda>d r. if disk_is_empty D r d then disk_remove D r d else r) (rev (sort_key split_slash ?ds)) r"
    by (simp only: prune_dirs_def Let_def)
  note P = prune_loop [OF D this]
  then show "git_extends G r (prune_dirs D dest r)" by blast
  from P assms(2) have q: "local_node D (prune_dirs D dest r) q = local_node D r q \<or>
      q \<in> set (rev (sort_key split_slash ?ds)) \<and> local_node D (prune_dirs D dest r) q = Absent" by blast
  with D(2) show "local_node D (prune_dirs D dest r) q = Entry f \<longleftrightarrow> local_node D r q = Entry f" by auto
  from q below show "\<not> ancestor dest q \<Longrightarrow> local_node D (prune_dirs D dest r) q = local_node D r q" by blast
qed

text \<open>What the removals leave: the files that are kept or do not pass the filters.\<close>

lemma remove_and_prune:
  assumes "linkless D plain r dest" "dest \<noteq> []" "last dest \<noteq> CHR ''/''"
    "extra = (\<lambda>rel. matches_filters rel (so_include opts) (so_exclude opts) \<and> rel \<notin> set kept)"
  shows "\<exists>r2 gone. fold (remove_extra D opts dest kept) (disk_walk D r dest) (r, []) = (r2, gone) \<and>
    git_extends G r (prune_dirs D dest r2) \<and>
    (\<forall>rel f. clear D plain r (path_join dest rel) \<longrightarrow>
      (rel \<in> set (map fe_path gone) \<longleftrightarrow> extra rel \<and> (\<exists>f. local_node D r (path_join dest rel) = Entry f)) \<and>
      (local_node D (prune_dirs D dest r2) (path_join dest rel) = Entry f \<longleftrightarrow>
         \<not> extra rel \<and> local_node D r (path_join dest rel) = Entry f)) \<and>
    (\<forall>q. clear D plain r q \<and> \<not> ancestor dest q \<longrightarrow> local_node D (prune_dirs D dest r2) q = local_node D r q)"
proof -
  let ?rels = "disk_walk D r dest"
  note walk = walked_disk [OF assms(1-3)]
  have inj: "path_join dest a = path_join dest b \<longleftrightarrow> a = b" for a b using path_join_dest [OF assms(2,3)] by simp
  have io: "inj_on (path_join dest) (set ?rels)" using inj by (simp add: inj_on_def)
  have files: "\<forall>rel\<in>set ?rels. clear D plain r (path_join dest rel) \<and> (\<exists>f. local_node D r (path_join dest rel) = Entry f)"
    using walk by blast
  from walk have "distinct ?rels" by blast
  from remove_loop [OF this io files, of opts kept "[]"] obtain r2 gone where
      rm: "fold (remove_extra D opts dest kept) ?rels (r, []) = (r2, gone)" "git_extends G r r2"
      "map fe_path gone = filter extra ?rels"
      "\<forall>q. clear D plain r q \<longrightarrow> clear D plain r2 q \<and>
         local_node D r2 q = (if q \<in> path_join dest ` set (map fe_path gone) then Absent else local_node D r q)"
    unfolding append_Nil assms(4) [symmetric] by blast
  have L2: "linkless D plain r2 dest" by (rule removed_linkless [OF assms(1)]) (use rm(4) in presburger)
  have del: "rel \<in> set (map fe_path gone) \<longleftrightarrow> extra rel \<and> (\<exists>f. local_node D r (path_join dest rel) = Entry f)"
    if "clear D plain r (path_join dest rel)" for rel
    using walk that unfolding rm(3) set_filter by blast
  have left: "local_node D (prune_dirs D dest r2) (path_join dest rel) = Entry f \<longleftrightarrow>
      \<not> extra rel \<and> local_node D r (path_join dest rel) = Entry f" if c: "clear D plain r (path_join dest rel)" for rel f
  proof -
    have "path_join dest rel \<in> path_join dest ` set (map fe_path gone) \<longleftrightarrow> rel \<in> set (map fe_path gone)"
      using inj by (metis image_iff)
    with rm(4) c have "clear D plain r2 (path_join dest rel)" "local_node D r2 (path_join dest rel) =
        (if rel \<in> set (map fe_path gone) then Absent else local_node D r (path_join dest rel))" by presburger+
    note r2 = this(2) pruned(2) [OF L2 this(1), of f]
    show ?thesis
    proof (cases "rel \<in> set (map fe_path gone)")
      case True
      with r2 del [OF c] show ?thesis by simp
    next
      case False
      with r2 have "local_node D (prune_dirs D dest r2) (path_join dest rel) = Entry f \<longleftrightarrow>
          local_node D r (path_join dest rel) = Entry f" by simp
      with False del [OF c] show ?thesis by blast
    qed
  qed
  have apart: "local_node D (prune_dirs D dest r2) q = local_node D r q" if q: "clear D plain r q" "\<not> ancestor dest q" for q
  proof -
    have "q \<notin> path_join dest ` set (map fe_path gone)" using q(2) not_above [OF assms(2,3)] by blast
    with rm(4) q(1) have "clear D plain r2 q" "local_node D r2 q = local_node D r q" by presburger+
    with pruned(3) [OF L2 this(1) q(2)] show ?thesis by simp
  qed
  have "clear D plain r2 dest" using L2 by (simp add: linkless_def)
  from git_extends_trans [OF rm(2) pruned(1) [OF L2 this]] rm(1) del left apart show ?thesis by blast
qed

end

text \<open>A local directory mirrors \<open>files\<close>: they are there; of the other local files those that pass the
  filters are gone, which \<open>gone\<close> lists, and those that do not are as before; and nothing else changes.\<close>

definition mirrored :: "'r disk \<Rightarrow> (string \<Rightarrow> bool) \<Rightarrow> SyncOptions \<Rightarrow> string \<Rightarrow> export set \<Rightarrow> string set \<Rightarrow> 'r \<Rightarrow> 'r \<Rightarrow> bool" where
  "mirrored D plain opts dest files gone r r' \<longleftrightarrow>
    (\<forall>(rel, d, m)\<in>files. local_node D r' (path_join dest rel) = replaced d m (local_node D r (path_join dest rel))) \<and>
    (\<forall>rel f. clear D plain r (path_join dest rel) \<and> rel \<notin> fst ` files \<and>
         (\<forall>x\<in>files. \<not> ancestor (path_join dest (fst x)) (path_join dest rel)) \<longrightarrow>
       (rel \<in> gone \<longleftrightarrow> matches_filters rel (so_include opts) (so_exclude opts) \<and>
          (\<exists>f. local_node D r (path_join dest rel) = Entry f)) \<and>
       (local_node D r' (path_join dest rel) = Entry f \<longleftrightarrow>
          \<not> matches_filters rel (so_include opts) (so_exclude opts) \<and> local_node D r (path_join dest rel) = Entry f)) \<and>
    (\<forall>p. clear D plain r p \<and> p \<noteq> dest \<and> \<not> ancestor p dest \<and> \<not> ancestor dest p \<longrightarrow>
       local_node D r' p = local_node D r p)"

text \<open>Export and removals together.\<close>

lemma mirror_nodes:
  assumes "local_tree G D plain" "exported_to D plain r r1 dest files" "destinations_ok D plain r dest files"
    "linkless D plain r dest" "\<forall>(rel, d, m)\<in>files. m \<noteq> MODE_LINK" "set kept = fst ` files"
  shows "\<exists>r2 gone r'. fold (remove_extra D opts dest kept) (disk_walk D r1 dest) (r1, []) = (r2, gone) \<and>
    r' = prune_dirs D dest r2 \<and> git_extends G r1 r' \<and>
    mirrored D plain opts dest files (set (map fe_path gone)) r r'"
proof -
  let ?pass = "\<lambda>rel. matches_filters rel (so_include opts) (so_exclude opts)"
  from assms(3) have dest: "dest \<noteq> []" "last dest \<noteq> CHR ''/''" by (simp_all add: destinations_ok_def)
  note L1 = local_tree.exported_linkless [OF assms(1-5)]
  from local_tree.remove_and_prune [OF assms(1) L1 dest refl, of opts kept] obtain r2 gone r' where
      rm: "fold (remove_extra D opts dest kept) (disk_walk D r1 dest) (r1, []) = (r2, gone)"
      "r' = prune_dirs D dest r2" "git_extends G r1 r'"
      "\<And>rel f. clear D plain r1 (path_join dest rel) \<Longrightarrow>
        (rel \<in> set (map fe_path gone) \<longleftrightarrow> (?pass rel \<and> rel \<notin> set kept) \<and> (\<exists>f. local_node D r1 (path_join dest rel) = Entry f)) \<and>
        (local_node D r' (path_join dest rel) = Entry f \<longleftrightarrow>
         \<not> (?pass rel \<and> rel \<notin> set kept) \<and> local_node D r1 (path_join dest rel) = Entry f)"
      "\<And>q. clear D plain r1 q \<Longrightarrow> \<not> ancestor dest q \<Longrightarrow> local_node D r' q = local_node D r1 q"
    by blast
  have written: "local_node D r' (path_join dest rel) = replaced d m (local_node D r (path_join dest rel))"
    if f: "(rel, d, m) \<in> files" for rel d m
  proof -
    from f assms(2) have "clear D plain r1 (path_join dest rel)"
        "local_node D r1 (path_join dest rel) = replaced d m (local_node D r (path_join dest rel))"
      unfolding exported_to_def by fastforce+
    moreover have "rel \<in> set kept" using f assms(6) by force
    ultimately show ?thesis using rm(4) [of rel] unfolding replaced_def by blast
  qed
  have others: "(rel \<in> set (map fe_path gone) \<longleftrightarrow> ?pass rel \<and> (\<exists>f. local_node D r (path_join dest rel) = Entry f)) \<and>
      (local_node D r' (path_join dest rel) = Entry f \<longleftrightarrow> \<not> ?pass rel \<and> local_node D r (path_join dest rel) = Entry f)"
    if c: "clear D plain r (path_join dest rel)" "rel \<notin> fst ` files"
      "\<forall>x\<in>files. \<not> ancestor (path_join dest (fst x)) (path_join dest rel)" for rel f
  proof -
    have "\<forall>x\<in>files. path_join dest rel \<noteq> path_join dest (fst x)" using c(2) path_join_dest [OF dest] by auto
    note R = exported_rest [OF assms(2,3) c(1,3) this]
    from rm(4) [OF R(1), of f] c(2) assms(6) show ?thesis by (simp add: R(2))
  qed
  have outside: "local_node D r' p = local_node D r p"
    if "clear D plain r p" "p \<noteq> dest" "\<not> ancestor p dest" "\<not> ancestor dest p" for p
    using exported_outside [OF assms(2) dest that] rm(5) that(4) by simp
  have "mirrored D plain opts dest files (set (map fe_path gone)) r r'"
    unfolding mirrored_def
  proof (intro conjI)
    show "\<forall>(rel, d, m)\<in>files. local_node D r' (path_join dest rel) = replaced d m (local_node D r (path_join dest rel))"
      by (intro ballI, clarify) (rule written)
  qed (intro allI impI, elim conjE, rule others outside; assumption)+
  with rm(1-3) show ?thesis by blast
qed

section \<open>Properties\<close>

text \<open>C25: \<^verbatim>\<open>copy_out\<close> copies the files below a directory to the local disk. On a well-typed snapshot
  whose tree libgit2 can list, with destinations that are free or hold a file of a kind that can be
  overwritten, it returns; every file below the directory that passes the filters is then at the
  same place below the destination with its contents (a link as a link, an executable file
  executable, and a file that was executable before stays so); the report lists exactly these files;
  the repository and every path not on the way to, at or below one of them are as before.\<close>

theorem copy_out_writes_files:
  assumes "local_disk G D plain" "fs_typed G r fs" "old = nodes_of G r fs" "tree_oid_hex fs \<noteq> []"
    "normalize_dest src = Inr ns" "split_slash ns = ss" "walk_tree G r (tree_oid_hex fs) ns = Inr ws"
    "files = selected_files old ss (co_include opts) (co_exclude opts)"
    "\<forall>(rel, d, m)\<in>files. file_type_from_mode m \<noteq> None" "destinations_ok D plain r dest files"
  shows "\<exists>report r'. copy_out G D fs src dest opts r = (Inr report, r') \<and> git_extends G r r' \<and>
    set (map fe_path (cr_add report)) = fst ` files \<and>
    (\<forall>(rel, d, m)\<in>files. local_node D r' (path_join dest rel) = replaced d m (local_node D r (path_join dest rel))) \<and>
    (\<forall>p. clear D plain r p \<and> (\<forall>(rel, d, m)\<in>files. p \<noteq> path_join dest rel \<and>
         \<not> ancestor p (path_join dest rel) \<and> \<not> ancestor (path_join dest rel) p) \<longrightarrow>
       local_node D r' p = local_node D r p)"
proof -
  from normalize_dest_segs [OF assms(5)] assms(6) have segs: "\<forall>s\<in>set ss. segment s" "ns = join_slash ss" by auto
  from copy_out_done [OF assms(1-4) segs(1) assms(7) [unfolded segs(2)] assms(8-10)] obtain fes r' where
      run: "sfold (copy_out_step G D (co_include opts) (co_exclude opts) (tree_oid_hex fs) ns dest) ws [] r = (Inr fes, r')"
      and out: "set (map fe_path fes) = fst ` files" "git_extends G r r'" "exported_to D plain r r' dest files"
    unfolding segs(2) by blast
  show ?thesis
  proof (intro exI conjI)
    show "copy_out G D fs src dest opts r = (Inr (empty_report\<lparr>cr_add := fes\<rparr>), r')"
      using assms(4,5,7) run by (simp add: copy_out_def require_tree_def sbind_def sread_def sreturn_def)
    show "set (map fe_path (cr_add (empty_report\<lparr>cr_add := fes\<rparr>))) = fst ` files" using out(1) by simp
    show "\<forall>(rel, d, m)\<in>files. local_node D r' (path_join dest rel) = replaced d m (local_node D r (path_join dest rel))"
      using out(3) unfolding exported_to_def by fastforce
    show "\<forall>p. clear D plain r p \<and> (\<forall>(rel, d, m)\<in>files. p \<noteq> path_join dest rel \<and>
        \<not> ancestor p (path_join dest rel) \<and> \<not> ancestor (path_join dest rel) p) \<longrightarrow> local_node D r' p = local_node D r p"
    proof (intro allI impI, elim conjE)
      fix p
      assume p: "clear D plain r p" "\<forall>(rel, d, m)\<in>files. p \<noteq> path_join dest rel \<and>
        \<not> ancestor p (path_join dest rel) \<and> \<not> ancestor (path_join dest rel) p"
      then have "\<forall>x\<in>files. \<not> ancestor (path_join dest (fst x)) p" "\<forall>x\<in>files. p \<noteq> path_join dest (fst x)"
          "\<not> (\<exists>x\<in>files. ancestor p (path_join dest (fst x)))" by fastforce+
      with p(1) out(3) show "local_node D r' p = local_node D r p" unfolding exported_to_def by simp
    qed
  qed (rule out(2))
qed


end
