(* ===== verification/Vost_Disk_Memory.thy ===== *)
theory Vost_Disk_Memory
  imports Vost_Disk_Out
begin

text \<open>
  A local file system in memory next to the repository of \<open>Vost_Git_Memory\<close>: it satisfies the laws
  of \<open>Vost_Disk_Out\<close>, and the witnesses copy a snapshot to it.
\<close>

section \<open>Nodes by path\<close>

type_synonym files = "(string \<times> local_node) list"

definition stored :: "files \<Rightarrow> string \<Rightarrow> local_node" where
  "stored fs p = (case map_of fs p of None \<Rightarrow> Absent | Some n \<Rightarrow> n)"

definition visible :: "files \<Rightarrow> string \<Rightarrow> bool" where
  "visible fs p \<longleftrightarrow> list_all (\<lambda>q. ancestor q p \<longrightarrow> stored fs q = Directory) (prefixes p)"

fun settled_mode :: "local_node \<Rightarrow> local_node" where
  "settled_mode (Entry (d, m)) = Entry (d, if m = MODE_LINK \<or> m = MODE_BLOB_EXEC then m else MODE_BLOB)"
| "settled_mode n = n"

definition node_in :: "files \<Rightarrow> string \<Rightarrow> local_node" where
  "node_in fs p = (if visible fs p then settled_mode (stored fs p) else Absent)"

definition set_node :: "string \<Rightarrow> local_node \<Rightarrow> files \<Rightarrow> files" where
  "set_node p n fs = (p, n) # filter (\<lambda>x. fst x \<noteq> p) fs"

definition tidy :: "files \<Rightarrow> files" where
  "tidy fs = filter (\<lambda>x. node_in fs (fst x) \<noteq> Absent) fs"

lemma visible_iff: "visible fs p \<longleftrightarrow> (\<forall>q. ancestor q p \<longrightarrow> stored fs q = Directory)"
proof -
  have "q \<in> set (prefixes p)" if "ancestor q p" for q
    using that by (auto simp: ancestor_def intro: append_prefixD)
  then show ?thesis by (auto simp: visible_def list_all_iff)
qed

lemma settled_mode_simps [simp]:
  "settled_mode n = Absent \<longleftrightarrow> n = Absent" "settled_mode n = Directory \<longleftrightarrow> n = Directory"
  by (cases n rule: settled_mode.cases; simp)+

lemma node_in_directories: "node_in fs p \<noteq> Absent \<Longrightarrow> ancestor q p \<Longrightarrow> node_in fs q = Directory"
  unfolding node_in_def visible_iff by (auto dest: ancestor_trans split: if_splits)

lemma stored_set [simp]: "stored (set_node p n fs) q = (if q = p then n else stored fs q)"
  by (simp add: stored_def set_node_def map_of_filter_key)

lemma node_in_set:
  "\<not> ancestor p q \<Longrightarrow> node_in (set_node p n fs) q = (if q = p then if visible fs p then settled_mode n else Absent else node_in fs q)"
  using ancestor_neq by (fastforce simp: node_in_def visible_iff)

lemma node_in_set_below: "ancestor p q \<Longrightarrow> n \<noteq> Directory \<Longrightarrow> node_in (set_node p n fs) q = Absent"
  by (auto simp: node_in_def visible_iff)

lemma stored_tidy: "stored (tidy fs) p = (if node_in fs p = Absent then Absent else stored fs p)"
proof -
  have "map_of (filter (\<lambda>x. node_in fs (fst x) \<noteq> Absent) xs) p = (if node_in fs p = Absent then None else map_of xs p)" for xs
    by (induction xs) auto
  note this [of fs]
  then show ?thesis unfolding stored_def tidy_def by simp
qed

lemma node_in_create:
  assumes "stored fs' = (\<lambda>q. if q = d \<or> ancestor q d then Directory else stored (tidy fs) q)"
  shows "node_in fs' q = (if q = d \<or> ancestor q d then Directory else node_in fs q)"
proof (cases "q = d \<or> ancestor q d")
  case True
  then have "visible fs' q" unfolding visible_iff assms using ancestor_trans by auto
  with True show ?thesis by (simp add: node_in_def assms)
next
  case False
  show ?thesis
  proof (cases "node_in fs q = Absent")
    case True
    with False show ?thesis by (simp add: node_in_def [of fs'] assms stored_tidy)
  next
    case present: False
    then have "visible fs q" by (simp add: node_in_def split: if_splits)
    then have "visible fs' q" unfolding visible_iff assms stored_tidy using node_in_directories [OF present] by simp
    with False present show ?thesis by (simp add: node_in_def [of fs'] assms stored_tidy) (simp add: node_in_def split: if_splits)
  qed
qed

section \<open>The operations\<close>

type_synonym desk = "mem \<times> files"

definition present :: "files \<Rightarrow> string \<Rightarrow> string list" where
  "present fs root = filter (\<lambda>p. ancestor root p \<and> node_in fs p \<noteq> Absent) (remdups (map fst fs))"

definition relative_to :: "string \<Rightarrow> string \<Rightarrow> string" where
  "relative_to root p = drop (length root + (if last root = CHR ''/'' then 0 else 1)) p"

definition mem_disk :: "desk disk" where
  "mem_disk =
     \<lparr>disk_exists = (\<lambda>w p. node_in (snd w) p \<noteq> Absent),
      disk_open = (\<lambda>w p. case node_in (snd w) p of Entry (d, m) \<Rightarrow> Some d | _ \<Rightarrow> None),
      disk_is_symlink = (\<lambda>w p. case node_in (snd w) p of Entry (d, m) \<Rightarrow> m = MODE_LINK | _ \<Rightarrow> False),
      disk_user_exec = (\<lambda>w p. case node_in (snd w) p of Entry (d, m) \<Rightarrow> m = MODE_BLOB_EXEC | _ \<Rightarrow> False),
      disk_read_symlink = (\<lambda>w p. case node_in (snd w) p of Entry (d, m) \<Rightarrow> from_bytes d | _ \<Rightarrow> []),
      disk_recursive = (\<lambda>w root. map (\<lambda>p. (relative_to root p, node_in (snd w) p = Directory)) (present (snd w) root)),
      disk_listing = (\<lambda>w p. if node_in (snd w) p = Directory
         then Some (map (\<lambda>q. (basename q, node_in (snd w) q = Directory)) (filter (\<lambda>q. parent_path q = p) (present (snd w) p)))
         else None),
      disk_link_exists = (\<lambda>w p. node_in (snd w) p \<noteq> Absent),
      disk_create_directories = (\<lambda>w p. (fst w,
         fold (\<lambda>q. set_node q Directory) (filter (\<lambda>q. q = p \<or> ancestor q p) (prefixes p)) (tidy (snd w)))),
      disk_write_file = (\<lambda>w p d. (fst w, set_node p (replaced d MODE_BLOB (node_in (snd w) p)) (snd w))),
      disk_create_symlink = (\<lambda>w t p. (fst w, set_node p (Entry (to_bytes t, MODE_LINK)) (snd w))),
      disk_remove = (\<lambda>w p. (fst w, set_node p Absent (snd w))),
      disk_add_exec = (\<lambda>w p. case node_in (snd w) p of
         Entry (d, m) \<Rightarrow> (fst w, set_node p (Entry (d, MODE_BLOB_EXEC)) (snd w)) | _ \<Rightarrow> w),
      disk_directories = (\<lambda>w root. filter (\<lambda>p. node_in (snd w) p = Directory) (present (snd w) root)),
      disk_is_empty = (\<lambda>w p. present (snd w) p = []),
      disk_depth = (\<lambda>w p. Suc (length (snd w)))\<rparr>"

lemma mem_disk_sel [simp]:
  "disk_exists mem_disk w p \<longleftrightarrow> node_in (snd w) p \<noteq> Absent"
  "disk_recursive mem_disk w root = map (\<lambda>p. (relative_to root p, node_in (snd w) p = Directory)) (present (snd w) root)"
  "disk_create_directories mem_disk w p = (fst w,
     fold (\<lambda>q. set_node q Directory) (filter (\<lambda>q. q = p \<or> ancestor q p) (prefixes p)) (tidy (snd w)))"
  "disk_write_file mem_disk w p d = (fst w, set_node p (replaced d MODE_BLOB (node_in (snd w) p)) (snd w))"
  "disk_create_symlink mem_disk w t p = (fst w, set_node p (Entry (to_bytes t, MODE_LINK)) (snd w))"
  "disk_remove mem_disk w p = (fst w, set_node p Absent (snd w))"
  "disk_add_exec mem_disk w p = (case node_in (snd w) p of
     Entry (d, m) \<Rightarrow> (fst w, set_node p (Entry (d, MODE_BLOB_EXEC)) (snd w)) | _ \<Rightarrow> w)"
  "disk_directories mem_disk w root = filter (\<lambda>p. node_in (snd w) p = Directory) (present (snd w) root)"
  "disk_is_empty mem_disk w p \<longleftrightarrow> present (snd w) p = []"
  by (simp_all add: mem_disk_def)

lemma mem_local_node [simp]: "local_node mem_disk w p = node_in (snd w) p"
proof (cases "visible (snd w) p")
  case True
  then show ?thesis
    by (cases "stored (snd w) p" rule: settled_mode.cases)
      (simp_all add: local_node_def mem_disk_def node_in_def disk_file_def mode_from_disk_def
        MODE_BLOB_def MODE_BLOB_EXEC_def MODE_LINK_def)
qed (simp add: local_node_def mem_disk_def node_in_def)

lemma present_set: "set (present fs root) = {p. ancestor root p \<and> node_in fs p \<noteq> Absent}"
proof -
  have "p \<in> fst ` set fs" if "node_in fs p \<noteq> Absent" for p
    using that by (force simp: node_in_def stored_def split: if_splits option.splits dest: map_of_SomeD)
  then show ?thesis by (auto simp: present_def)
qed

lemma present_distinct: "distinct (present fs root)"
  by (simp add: present_def)

lemma path_join_relative: "ancestor root p \<Longrightarrow> path_join root (relative_to root p) = p"
  by (auto simp: ancestor_def prefix_def path_join_def relative_to_def)

lemma mem_disk_effect:
  assumes "snd w' = set_node p n (snd w)" "fst w' = fst w" "visible (snd w) p"
  shows "disk_effect (beside G) mem_disk plain p w w' ((local_node mem_disk w)(p := settled_mode n))"
  using assms by (auto simp: disk_effect_def node_in_set git_extends_refl)

lemma through_visible: "through_directories mem_disk w p \<Longrightarrow> visible (snd w) p"
  unfolding through_directories_def visible_iff by (auto simp: node_in_def split: if_splits)

lemma present_visible: "node_in fs p \<noteq> Absent \<Longrightarrow> visible fs p"
  by (simp add: node_in_def split: if_splits)

lemma settled_replaced [simp]: "settled_mode (replaced d m old) = replaced d m old"
  by (simp add: replaced_def)

lemma replaced_Absent: "replaced d MODE_BLOB Absent = Entry (d, MODE_BLOB)"
  by (simp add: replaced_def MODE_BLOB_def MODE_BLOB_EXEC_def MODE_LINK_def)

lemma stored_directories:
  "stored (fold (\<lambda>q. set_node q Directory) qs fs) = (\<lambda>q. if q \<in> set qs then Directory else stored fs q)"
  by (induction qs arbitrary: fs) (auto simp: fun_eq_iff)

lemma mem_local_disk: "local_disk (beside mem_git) mem_disk (\<lambda>_. True)"
proof (intro local_disk.intro local_disk_axioms.intro memory.odb_beside, goal_cases)
  case (2 r p)
  have S: "q \<in> set (filter (\<lambda>q. q = p \<or> ancestor q p) (prefixes p)) \<longleftrightarrow> q = p \<or> ancestor q p" for q
    by (auto simp: ancestor_def intro: append_prefixD)
  note C = stored_directories [of "filter (\<lambda>q. q = p \<or> ancestor q p) (prefixes p)" "tidy (snd r)", unfolded S]
  from node_in_create [OF C] show ?case by (simp add: git_extends_refl)
next
  case (3 r p d)
  from mem_disk_effect [OF _ _ through_visible [OF 3(2)], of "disk_write_file mem_disk r p d" "replaced d MODE_BLOB (node_in (snd r) p)"] show ?case by simp
next
  case (4 r p d)
  from mem_disk_effect [OF _ _ through_visible [OF 4(2)], of "disk_create_symlink mem_disk r (from_bytes d) p" "Entry (d, MODE_LINK)"]
  show ?case by simp
next
  case (5 r p f)
  then have "visible (snd r) p" using present_visible by simp
  from mem_disk_effect [OF _ _ this, of "disk_remove mem_disk r p" Absent] show ?case by simp
next
  case (6 r p d m)
  then have "visible (snd r) p" using present_visible by simp
  from mem_disk_effect [OF _ _ this, of "disk_add_exec mem_disk r p" "Entry (d, MODE_BLOB_EXEC)"] 6(2) show ?case by simp
qed simp

lemma mem_clear: "node_in (snd r) p \<noteq> Absent \<Longrightarrow> clear mem_disk (\<lambda>_. True) r p"
  using node_in_directories [of "snd r" p] by (simp add: clear_def)

interpretation mem_files: local_tree "beside mem_git" mem_disk "\<lambda>_. True"
proof (intro local_tree.intro mem_local_disk local_tree_axioms.intro, goal_cases)
  case (2 r p f q)
  then show ?case using node_in_directories [of "snd r" p q] by simp
next
  case (3 r root)
  have inj: "inj_on (relative_to root) (set (present (snd r) root))"
    by (rule inj_onI) (metis (mono_tags, lifting) mem_Collect_eq path_join_relative present_set)
  have entry: "(\<exists>f. node_in (snd r) p = Entry f) \<longleftrightarrow> node_in (snd r) p \<noteq> Absent \<and> node_in (snd r) p \<noteq> Directory" for p
    by (cases "node_in (snd r) p") auto
  have rel: "rel = relative_to root (path_join root rel)" if "ancestor root (path_join root rel)" for rel
    using that by (auto simp: relative_to_def path_join_def ancestor_def)
  have "(rel, False) \<in> set (disk_recursive mem_disk r root) \<longleftrightarrow> (\<exists>p. rel = relative_to root p \<and> ancestor root p \<and>
      node_in (snd r) p \<noteq> Absent \<and> node_in (snd r) p \<noteq> Directory)" for rel
    by (auto simp: present_set)
  also have "\<dots> rel \<longleftrightarrow> ancestor root (path_join root rel) \<and> node_in (snd r) (path_join root rel) \<noteq> Absent \<and>
      node_in (snd r) (path_join root rel) \<noteq> Directory" for rel
    using rel [of rel] path_join_relative [of root] by auto
  finally have listed: "(rel, False) \<in> set (disk_recursive mem_disk r root) \<longleftrightarrow> ancestor root (path_join root rel) \<and>
      node_in (snd r) (path_join root rel) \<noteq> Absent \<and> node_in (snd r) (path_join root rel) \<noteq> Directory" for rel .
  have "distinct (map fst (disk_recursive mem_disk r root))"
    using inj by (simp add: comp_def distinct_map present_distinct)
  with listed mem_clear entry show ?case unfolding mem_local_node by blast
next
  case (4 r root)
  show ?case by (auto simp: present_distinct present_set intro: mem_clear)
next
  case (5 r d)
  have "node_in (set_node d Absent (snd r)) q = (if q = d then Absent else node_in (snd r) q)" for q
  proof (cases "ancestor d q")
    case True
    with 5(3) present_set [of "snd r" d] have "node_in (snd r) q = Absent" by auto
    with True show ?thesis by (simp add: node_in_set_below)
  qed (simp add: node_in_set)
  then show ?case by (simp add: git_extends_refl fun_upd_def)
qed simp

section \<open>Witnesses\<close>

text \<open>A directory \<^verbatim>\<open>/out\<close> with a file \<^verbatim>\<open>old\<close>, next to the demonstration repository.\<close>

definition demo_desk :: desk where
  "demo_desk = (demo_mem2, [(''/out'', Directory), (''/out/old'', Entry ([1], MODE_BLOB))])"

definition out_options :: CopyOutOptions where
  "out_options = \<lparr>co_include = None, co_exclude = None\<rparr>"

definition mirror_options :: SyncOptions where
  "mirror_options = \<lparr>so_include = None, so_exclude = None, so_message = None, so_dry_run = False,
     so_checksum = False, so_parents = []\<rparr>"

lemma beside_reads:
  "oid_to_hex (beside G) = oid_to_hex G" "hex_to_oid (beside G) = hex_to_oid G"
  "throw_git_error (beside G) w c = throw_git_error G (fst w) c"
  "require_ok (beside G) w c x = require_ok G (fst w) c x"
  unfolding fun_eq_iff oid_to_hex_def hex_to_oid_def throw_git_error_def require_ok_def beside_sel by simp_all

lemma beside_entry_at: "entry_at_segs (beside G) w oid p = entry_at_segs G (fst w) oid p"
  by (induction p arbitrary: oid) (simp_all only: entry_at_segs.simps beside_reads beside_sel)

lemma beside_nodes [simp]:
  "fs_node (beside G) w fs p = fs_node G (fst w) fs p" "nodes_of (beside G) w fs = nodes_of G (fst w) fs"
  "fs_typed (beside G) w fs = fs_typed G (fst w) fs"
  unfolding fun_eq_iff nodes_of_def fs_typed_def fs_node_def node_at_def view_def beside_reads beside_entry_at beside_sel
  by (rule refl | simp)+

lemma demo_later:
  "git_extends mem_git demo_mem demo_mem2" "fs_typed mem_git demo_mem2 demo_fs"
  "nodes_of mem_git demo_mem2 demo_fs [''a'', ''b''] = Some (File [120] MODE_BLOB)"
proof -
  show later: "git_extends mem_git demo_mem demo_mem2"
    using keepsD [OF git_refdb.keeps_commit_changes [OF memory.git_refdb_axioms] demo_commit] .
  show "fs_typed mem_git demo_mem2 demo_fs" using git_odb.fs_typed_same [OF memory.git_odb_axioms demo_fs_typed later refl] .
  have "fs_node mem_git demo_mem demo_fs [''a'', ''b''] = Inr (Some (File [120] MODE_BLOB))"
    using nodes_of_typed(1) [OF demo_fs_typed, of "[''a'', ''b'']"] demo_nodes by simp
  from git_odb.fs_node_extends [OF memory.git_odb_axioms later this]
  show "nodes_of mem_git demo_mem2 demo_fs [''a'', ''b''] = Some (File [120] MODE_BLOB)" by (simp add: nodes_of_def)
qed

lemma demo_walk: "\<exists>ws. walk_tree (beside mem_git) demo_desk (tree_oid_hex demo_fs) [] = Inr ws"
proof -
  have "\<not> isl (walk_tree (beside mem_git) demo_desk (tree_oid_hex demo_fs) [])" by code_simp
  then show ?thesis by (cases "walk_tree (beside mem_git) demo_desk (tree_oid_hex demo_fs) []") auto
qed

lemma demo_selected: "selected_files (nodes_of (beside mem_git) demo_desk demo_fs) [] None None = {(''a/b'', [120], MODE_BLOB)}"
proof -
  have "nodes_of mem_git demo_mem2 demo_fs q = Some (File d m) \<longleftrightarrow> q = [''a'', ''b''] \<and> d = [120] \<and> m = MODE_BLOB" for q d m
    using demo_only_file [of demo_fs q d m] demo_later(3) by auto
  then show ?thesis by (auto simp: selected_files_def demo_desk_def matches_filters_def)
qed

lemma demo_desk_nodes:
  "node_in (snd demo_desk) ''/out'' = Directory" "node_in (snd demo_desk) ''/out/a/b'' = Absent"
  "node_in (snd demo_desk) ''/out/old'' = Entry ([1], MODE_BLOB)" "path_join ''/out'' ''a/b'' = ''/out/a/b''"
  "path_join ''/out'' ''old'' = ''/out/old''" "list_all (\<lambda>(p, n). n = Absent \<or> n = Directory \<or> p = ''/out/old'') (snd demo_desk)"
  by code_simp+

lemma demo_clear: "clear mem_disk (\<lambda>_. True) demo_desk p" if "\<not> ancestor ''/out/old'' p"
proof -
  have "node_in (snd demo_desk) q \<noteq> Entry f" if "q \<noteq> ''/out/old''" for q f
    using that by (auto simp: node_in_def stored_def demo_desk_def)
  with that show ?thesis unfolding clear_def mem_local_node by metis
qed

lemma demo_destinations: "destinations_ok mem_disk (\<lambda>_. True) demo_desk ''/out'' {(''a/b'', [120], MODE_BLOB)}"
proof -
  have "clear mem_disk (\<lambda>_. True) demo_desk ''/out/a/b''" by (rule demo_clear) code_simp
  then show ?thesis by (simp add: destinations_ok_def demo_desk_nodes MODE_BLOB_def MODE_LINK_def)
qed

lemma demo_export:
  "normalize_dest [] = Inr []" "split_slash [] = []" "tree_oid_hex demo_fs \<noteq> []"
  "\<forall>(rel, d, m)\<in>{(''a/b'', [120::byte], MODE_BLOB)}. file_type_from_mode m \<noteq> None"
  by (simp_all add: normalize_dest_def demo_fs_def make_fs_def file_type_from_mode_def)

theorem copy_out_writes_files_witness:
  "\<exists>report w. copy_out (beside mem_git) mem_disk demo_fs [] ''/out'' out_options demo_desk = (Inr report, w) \<and>
     local_node mem_disk w ''/out/a/b'' = Entry ([120], MODE_BLOB) \<and>
     local_node mem_disk w ''/out/old'' = Entry ([1], MODE_BLOB)"
proof -
  obtain ws where ws: "walk_tree (beside mem_git) demo_desk (tree_oid_hex demo_fs) [] = Inr ws" using demo_walk by blast
  have typed: "fs_typed (beside mem_git) demo_desk demo_fs" using demo_later(2) by (simp add: demo_desk_def)
  have sel: "{(''a/b'', [120], MODE_BLOB)} =
      selected_files (nodes_of (beside mem_git) demo_desk demo_fs) [] (co_include out_options) (co_exclude out_options)"
    by (simp only: out_options_def CopyOutOptions.simps demo_selected)
  have old: "clear mem_disk (\<lambda>_. True) demo_desk ''/out/old''" by (rule demo_clear) code_simp
  have apart: "\<not> ancestor ''/out/old'' ''/out/a/b''" "\<not> ancestor ''/out/a/b'' ''/out/old''" by code_simp+
  from copy_out_writes_files [OF mem_local_disk typed refl demo_export(3,1,2) ws sel demo_export(4) demo_destinations]
  obtain report w where "copy_out (beside mem_git) mem_disk demo_fs [] ''/out'' out_options demo_desk = (Inr report, w)"
    "local_node mem_disk w ''/out/a/b'' = replaced [120] MODE_BLOB (local_node mem_disk demo_desk ''/out/a/b'')"
    "local_node mem_disk w ''/out/old'' = local_node mem_disk demo_desk ''/out/old''"
    using old apart by (auto simp: demo_desk_nodes)
  moreover have "local_node mem_disk demo_desk ''/out/a/b'' = Absent" "local_node mem_disk demo_desk ''/out/old'' = Entry ([1], MODE_BLOB)"
    by (simp_all add: demo_desk_nodes)
  ultimately show ?thesis by (auto simp del: mem_local_node simp: replaced_Absent)
qed


end
