(* ===== verification/Vost_Mirror.thy ===== *)
theory Vost_Mirror
  imports Vost_Disk Vost_GitStore
begin

text \<open>
  \<^verbatim>\<open>cpp/src/mirror.cpp\<close>: backup to and restore from another repository or a bundle file, and
  the lookup of credentials. Remotes, packs and processes are reached through libgit2 and the
  operating system: they are the parameter \<open>mirror_host\<close>, which extends the one of
  \<open>Vost_GitStore\<close>. A \<^verbatim>\<open>RefMap\<close> is a \<open>std_map\<close> from reference names to hashes; a
  \<^verbatim>\<open>std::set<std::string>\<close> is the sorted list of its elements.
\<close>

section \<open>The parameter\<close>

record 'r mirror_host = "'r host" +
  git_reference_iterator :: "'r \<Rightarrow> string \<Rightarrow> (string \<times> git_oid option) list option"
    \<comment> \<open>of the repository at a path: every name with the id git_reference_resolve leads to\<close>
  git_remote_create_anonymous :: "'r \<Rightarrow> string \<Rightarrow> bool"
  git_remote_ls :: "'r \<Rightarrow> string \<Rightarrow> (string \<times> git_oid) list option"  \<comment> \<open>git_remote_connect and git_remote_ls\<close>
  git_remote_push :: "'r \<Rightarrow> string \<Rightarrow> string list \<Rightarrow> 'r option"
  git_remote_fetch :: "'r \<Rightarrow> string \<Rightarrow> string list \<Rightarrow> 'r option"
  git_revwalk_new :: "'r \<Rightarrow> bool"
  git_revwalk_push :: "'r \<Rightarrow> git_oid \<Rightarrow> bool"
  git_packbuilder_insert_walk :: "'r \<Rightarrow> git_oid list \<Rightarrow> bool"
  git_packbuilder_write_buf :: "'r \<Rightarrow> git_oid list \<Rightarrow> byte list option"
  git_repository_path :: "'r \<Rightarrow> string"
  git_indexer_new :: "'r \<Rightarrow> string \<Rightarrow> bool"
  git_indexer_append :: "'r \<Rightarrow> string \<Rightarrow> byte list \<Rightarrow> bool"
  git_indexer_commit :: "'r \<Rightarrow> string \<Rightarrow> byte list \<Rightarrow> 'r option"
  host_create_directories :: "'r \<Rightarrow> string \<Rightarrow> 'r"
  host_read_file :: "'r \<Rightarrow> string \<Rightarrow> byte list option"           \<comment> \<open>std::ifstream; None when it does not open\<close>
  host_open_out :: "'r \<Rightarrow> string \<Rightarrow> bool"                      \<comment> \<open>std::ofstream opens\<close>
  host_write_file :: "'r \<Rightarrow> string \<Rightarrow> byte list \<Rightarrow> bool \<times> 'r"  \<comment> \<open>the stream is good afterwards\<close>
  host_popen :: "'r \<Rightarrow> string \<Rightarrow> string option"                 \<comment> \<open>output of a command that starts and exits with 0\<close>

record BackupOptions =
  bk_dry_run :: bool
  bk_refs :: "string list"
  bk_format :: string
  bk_ref_map :: "string std_map"
  bk_squash :: bool

record RestoreOptions =
  rs_dry_run :: bool
  rs_refs :: "string list"
  rs_format :: string
  rs_ref_map :: "string std_map"

section \<open>URL helpers\<close>

text \<open>\<^verbatim>\<open>s.compare(0, n, lit) == 0\<close> for a literal of length \<open>n\<close>.\<close>

definition starts_with :: "string \<Rightarrow> string \<Rightarrow> bool" where
  "starts_with s lit \<longleftrightarrow> take (length lit) s = lit"

definition is_local_path :: "string \<Rightarrow> bool" where
  "is_local_path url \<longleftrightarrow> \<not> starts_with url ''http://'' \<and> \<not> starts_with url ''https://'' \<and>
     \<not> starts_with url ''git://'' \<and> \<not> starts_with url ''ssh://''"

definition scp_message :: "string \<Rightarrow> string" where
  "scp_message url = ''scp-style URL not supported: '' @ CHR 0x22 # url @ CHR 0x22 # '' '' @
     [CHR 0xE2, CHR 0x80, CHR 0x94] @ '' use ssh:// format instead''"

definition reject_scp_url :: "string \<Rightarrow> unit res" where
  "reject_scp_url url =
     (let after_at = drop 1 (dropWhile (\<lambda>c. c \<noteq> CHR ''@'') url);
          pfx = takeWhile (\<lambda>c. c \<noteq> CHR '':'') url
      in if \<not> is_local_path url \<or> starts_with url ''file://'' then Inr ()
         else if CHR ''@'' \<in> set url \<and> CHR '':'' \<in> set after_at then Inl (InvalidPathError (scp_message url))
         else if CHR '':'' \<in> set url \<and> length pfx > 1 \<and> CHR ''/'' \<notin> set pfx \<and> CHR 0x5C \<notin> set pfx
         then Inl (InvalidPathError (scp_message url))
         else Inr ())"

definition local_path_from_url :: "string \<Rightarrow> string" where
  "local_path_from_url url = (if starts_with url ''file://'' then drop 7 url else url)"

definition auto_create_bare_repo :: "('r, 'b) libgit2 \<Rightarrow> 'r mirror_host \<Rightarrow> string \<Rightarrow> ('r, unit) vop" where
  "auto_create_bare_repo G M url =
     (if \<not> is_local_path url then sreturn ()
      else sbind (sread (\<lambda>r. Inr (host_exists M r (local_path_from_url url)))) (\<lambda>existed.
        if existed then sreturn ()
        else call_effect G ''git_repository_init (auto-create)''
               (\<lambda>r. git_repository_init M r (local_path_from_url url))))"

section \<open>Ref enumeration\<close>

definition get_refs_from_repo :: "('r, 'b) libgit2 \<Rightarrow> 'r mirror_host \<Rightarrow> 'r \<Rightarrow> string \<Rightarrow> string std_map" where
  "get_refs_from_repo G M r path =
     (case git_reference_iterator M r path of
        None \<Rightarrow> []
      | Some refs \<Rightarrow>
          fold (\<lambda>(name, target) m.
              if name = ''HEAD'' then m
              else case target of Some oid \<Rightarrow> smap_set name (git_oid_tostr G oid) m | None \<Rightarrow> m) refs [])"

definition get_local_refs :: "('r, 'b) libgit2 \<Rightarrow> 'r mirror_host \<Rightarrow> 'r \<Rightarrow> Inner \<Rightarrow> string std_map" where
  "get_local_refs G M r i = get_refs_from_repo G M r (in_path i)"

definition ls_refs :: "('r, 'b) libgit2 \<Rightarrow> (string \<times> git_oid) list \<Rightarrow> string std_map" where
  "ls_refs G heads =
     fold (\<lambda>(name, oid) m.
         if name = ''HEAD'' then m
         else if length name \<ge> 3 \<and> drop (length name - 3) name = [CHR ''^'', CHR 0x7B, CHR 0x7D] then m
         else smap_set name (git_oid_tostr G oid) m) heads []"

definition get_remote_refs :: "('r, 'b) libgit2 \<Rightarrow> 'r mirror_host \<Rightarrow> 'r \<Rightarrow> string \<Rightarrow> string std_map" where
  "get_remote_refs G M r url =
     (if is_local_path url \<or> starts_with url ''file://'' then
        let path = local_path_from_url url in
        if \<not> host_exists M r path then []
        else if \<not> git_repository_open_bare M r path then []
        else get_refs_from_repo G M r path
      else if \<not> git_remote_create_anonymous M r url then []
      else case git_remote_ls M r url of None \<Rightarrow> [] | Some heads \<Rightarrow> ls_refs G heads)"

section \<open>Differences\<close>

definition diff_refs :: "string std_map \<Rightarrow> string std_map \<Rightarrow> MirrorDiff" where
  "diff_refs src dest = \<lparr>
     md_add = List.map_filter (\<lambda>(n, sha). case map_of dest n of
         None \<Rightarrow> Some \<lparr>rc_ref_name = n, old_target = None, new_target = Some sha\<rparr> | Some _ \<Rightarrow> None) src,
     md_update = List.map_filter (\<lambda>(n, sha). case map_of dest n of
         Some old \<Rightarrow> if old \<noteq> sha then Some \<lparr>rc_ref_name = n, old_target = Some old, new_target = Some sha\<rparr> else None
       | None \<Rightarrow> None) src,
     md_del = List.map_filter (\<lambda>(n, sha).
         if map_of src n = None then Some \<lparr>rc_ref_name = n, old_target = Some sha, new_target = None\<rparr> else None) dest\<rparr>"

section \<open>Ref names\<close>

definition resolve_one_ref :: "string \<Rightarrow> string std_map \<Rightarrow> string" where
  "resolve_one_ref name available =
     (if starts_with name ''refs/'' then name
      else case find (\<lambda>c. map_of available c \<noteq> None)
                  (map (\<lambda>pfx. pfx @ name) [''refs/heads/'', ''refs/tags/'', ''refs/notes/'']) of
        Some candidate \<Rightarrow> candidate
      | None \<Rightarrow> ''refs/heads/'' @ name)"

text \<open>The loop resolves each name the way \<open>resolve_one_ref\<close> does and collects the results in a set.\<close>

definition resolve_ref_names :: "string list \<Rightarrow> string std_map \<Rightarrow> string list" where
  "resolve_ref_names names available = sort (remdups (map (\<lambda>n. resolve_one_ref n available) names))"

text \<open>\<^verbatim>\<open>full_src.substr(0, full_src.rfind('/') + 1)\<close>.\<close>

definition up_to_last_slash :: "string \<Rightarrow> string" where
  "up_to_last_slash s = rev (dropWhile (\<lambda>c. c \<noteq> CHR ''/'') (rev s))"

definition resolve_ref_map :: "string std_map \<Rightarrow> string std_map \<Rightarrow> string std_map" where
  "resolve_ref_map rmap src_available =
     fold (\<lambda>(src, dst) m.
         let full_src = resolve_one_ref src src_available;
             full_dst = (if starts_with dst ''refs/'' then dst
                         else if CHR ''/'' \<in> set full_src then up_to_last_slash full_src @ dst
                         else ''refs/heads/'' @ dst)
         in smap_set full_src full_dst m) rmap []"

text \<open>\<^verbatim>\<open>refs.empty() ? all : the entries of all whose key was resolved\<close>, and the renaming.\<close>

definition select_refs :: "string list \<Rightarrow> string std_map \<Rightarrow> string std_map" where
  "select_refs refs all =
     (if refs = [] then all else filter (\<lambda>(k, v). k \<in> set (resolve_ref_names refs all)) all)"

definition renamed :: "string std_map \<Rightarrow> string \<Rightarrow> string" where
  "renamed rename name = (case map_of rename name of Some d \<Rightarrow> d | None \<Rightarrow> name)"

section \<open>Bundles\<close>

definition to_lower :: "char \<Rightarrow> char" where
  "to_lower c = (if 65 \<le> (of_char c :: nat) \<and> (of_char c :: nat) \<le> 90 then char_of ((of_char c :: nat) + 32) else c)"

definition is_bundle_path :: "string \<Rightarrow> bool" where
  "is_bundle_path path \<longleftrightarrow> length path \<ge> 7 \<and> map to_lower (drop (length path - 7) path) = ''.bundle''"

definition bundle_sig :: string where
  "bundle_sig = ''# v2 git bundle'' @ [CHR 0x0A]"

definition bundle_header :: "string std_map \<Rightarrow> string std_map \<Rightarrow> string" where
  "bundle_header refs rename =
     bundle_sig @ concat (map (\<lambda>(name, sha). sha @ CHR '' '' # renamed rename name @ [CHR 0x0A]) refs) @ [CHR 0x0A]"

text \<open>
  One parentless commit per reference. The names are those of the map that is exported, in its
  order, so the new map is the list of the results.
\<close>

definition squash_ref :: "('r, 'b) libgit2 \<Rightarrow> git_signature \<Rightarrow> string \<times> string \<Rightarrow> ('r, string \<times> string) vop" where
  "squash_ref G sig = (\<lambda>(name, sha).
     sbind (sread (\<lambda>r. require_ok G r ''git_oid_fromstr'' (git_oid_fromstr G sha))) (\<lambda>orig_oid.
     sbind (sread (\<lambda>r. require_ok G r ''git_commit_lookup'' (git_commit_lookup G r orig_oid))) (\<lambda>commit.
     sbind (sread (\<lambda>r. require_ok G r ''git_commit_tree'' (git_tree_lookup G r (gc_tree commit)))) (\<lambda>tree.
     sbind (call_write G ''git_commit_create (squash)''
             (\<lambda>r. git_commit_create G r sig (''squash'' @ [CHR 0x0A]) (gc_tree commit) [])) (\<lambda>squashed_oid.
       sreturn (name, git_oid_tostr G squashed_oid))))))"

definition push_walk :: "('r, 'b) libgit2 \<Rightarrow> 'r mirror_host \<Rightarrow> string \<times> string \<Rightarrow> ('r, git_oid) vop" where
  "push_walk G M = (\<lambda>(name, sha).
     sbind (sread (\<lambda>r. require_ok G r ''git_oid_fromstr'' (git_oid_fromstr G sha))) (\<lambda>oid.
     sbind (sread (\<lambda>r. if git_revwalk_push M r oid then Inr () else throw_git_error G r ''git_revwalk_push'')) (\<lambda>_.
       sreturn oid)))"

definition build_pack :: "('r, 'b) libgit2 \<Rightarrow> 'r mirror_host \<Rightarrow> string std_map \<Rightarrow> ('r, byte list) vop" where
  "build_pack G M effective =
     sbind (sread (\<lambda>r. if git_packbuilder_new M r then Inr () else throw_git_error G r ''git_packbuilder_new'')) (\<lambda>_.
     sbind (sread (\<lambda>r. if git_revwalk_new M r then Inr () else throw_git_error G r ''git_revwalk_new'')) (\<lambda>_.
     sbind (smap (push_walk G M) effective) (\<lambda>oids.
     sbind (sread (\<lambda>r. if git_packbuilder_insert_walk M r oids then Inr ()
             else throw_git_error G r ''git_packbuilder_insert_walk'')) (\<lambda>_.
       sread (\<lambda>r. require_ok G r ''git_packbuilder_write_buf'' (git_packbuilder_write_buf M r oids))))))"

definition write_bundle :: "'r mirror_host \<Rightarrow> string \<Rightarrow> byte list \<Rightarrow> ('r, unit) vop" where
  "write_bundle M path data r =
     (if \<not> host_open_out M r path then (Inl (GitError (''bundle_export: cannot open '' @ path)), r)
      else case host_write_file M r path data of
        (good, r') \<Rightarrow> (if good then Inr () else Inl (GitError ''bundle_export: write failed''), r'))"

definition bundle_export_impl :: "('r, 'b) libgit2 \<Rightarrow> 'r mirror_host \<Rightarrow> string \<Rightarrow> string list \<Rightarrow> string std_map \<Rightarrow>
    string std_map \<Rightarrow> bool \<Rightarrow> ('r, unit) vop" where
  "bundle_export_impl G M path refs local_refs rename squashed =
     (let to_export = select_refs refs local_refs in
      if to_export = [] then sthrow (GitError ''bundle_export: no refs to export'')
      else
        sbind (if squashed then
                 sbind (sread (\<lambda>r. require_ok G r ''git_signature_now'' (git_signature_now G r ''vost'' ''vost@localhost''))) (\<lambda>sig.
                   smap (squash_ref G sig) to_export)
               else sreturn to_export) (\<lambda>effective.
        sbind (build_pack G M effective) (\<lambda>buf.
          write_bundle M path (to_bytes (bundle_header effective rename) @ buf))))"

text \<open>\<^verbatim>\<open>data.find(pat, pos)\<close> for a pattern that is not empty.\<close>

fun find_in :: "string \<Rightarrow> string \<Rightarrow> nat option" where
  "find_in pat [] = None"
| "find_in pat (c # s) = (if starts_with (c # s) pat then Some 0 else map_option Suc (find_in pat s))"

definition find_from :: "string \<Rightarrow> string \<Rightarrow> nat \<Rightarrow> nat option" where
  "find_from pat data pos = map_option (\<lambda>i. pos + i) (find_in pat (drop pos data))"

definition parse_bundle_line :: "string \<Rightarrow> string std_map \<Rightarrow> string std_map" where
  "parse_bundle_line line refs =
     (if line = [] then refs
      else if hd line = CHR ''-'' then refs
      else case find_in '' '' line of
        None \<Rightarrow> refs
      | Some space \<Rightarrow>
          let sha = take space line; name = drop (space + 1) line in
          if name = ''HEAD'' then refs else smap_set name sha refs)"

lemma find_in_less: "find_in pat s = Some i \<Longrightarrow> i < length s"
  by (induction pat s arbitrary: i rule: find_in.induct) (auto split: if_splits)

function parse_bundle_refs :: "string \<Rightarrow> nat \<Rightarrow> nat \<Rightarrow> string std_map \<Rightarrow> string std_map" where
  "parse_bundle_refs data sep pos refs =
     (if pos < sep then
        case find_from [CHR 0x0A] data pos of
          None \<Rightarrow> refs
        | Some eol \<Rightarrow>
            if eol > sep then refs
            else parse_bundle_refs data sep (eol + 1) (parse_bundle_line (take (eol - pos) (drop pos data)) refs)
      else refs)"
  by pat_completeness auto
termination
  by (relation "measure (\<lambda>(data, sep, pos, refs). sep - pos)") (auto simp: find_from_def)

declare parse_bundle_refs.simps [simp del]

definition parse_bundle_header :: "string \<Rightarrow> (string std_map \<times> nat) res" where
  "parse_bundle_header data =
     (if length data < length bundle_sig \<or> \<not> starts_with data bundle_sig
      then Inl (GitError ''not a valid v2 git bundle'')
      else case find_from [CHR 0x0A, CHR 0x0A] data (length bundle_sig) of
        None \<Rightarrow> Inl (GitError ''bundle header: missing blank-line separator'')
      | Some sep \<Rightarrow> Inr (parse_bundle_refs data sep (length bundle_sig) [], sep + 2))"

definition bundle_list_heads :: "'r mirror_host \<Rightarrow> 'r \<Rightarrow> string \<Rightarrow> string std_map res" where
  "bundle_list_heads M r path =
     (case host_read_file M r path of
        None \<Rightarrow> Inl (GitError (''bundle_list_heads: cannot open '' @ path))
      | Some data \<Rightarrow> ebind (parse_bundle_header (from_bytes data)) (\<lambda>(refs, offset). Inr refs))"

text \<open>A null log message is the empty one.\<close>

definition import_ref :: "('r, 'b) libgit2 \<Rightarrow> string std_map \<Rightarrow> string \<times> string \<Rightarrow> unit \<Rightarrow> ('r, unit) vop" where
  "import_ref G rename = (\<lambda>(name, sha) _.
     sbind (sread (\<lambda>r. require_ok G r ''git_oid_fromstr'' (git_oid_fromstr G sha))) (\<lambda>oid.
       call_effect G ''git_reference_create'' (\<lambda>r. git_reference_create G r (renamed rename name) oid True [])))"

definition index_pack :: "('r, 'b) libgit2 \<Rightarrow> 'r mirror_host \<Rightarrow> byte list \<Rightarrow> ('r, unit) vop" where
  "index_pack G M pack_data =
     sbind (sread (\<lambda>r. Inr (path_join (path_join (git_repository_path M r) ''objects'') ''pack''))) (\<lambda>odb_pack.
     sbind (\<lambda>r. (Inr (), host_create_directories M r odb_pack)) (\<lambda>_.
     sbind (sread (\<lambda>r. if git_indexer_new M r odb_pack then Inr () else throw_git_error G r ''git_indexer_new'')) (\<lambda>_.
     sbind (sread (\<lambda>r. if git_indexer_append M r odb_pack pack_data then Inr ()
             else throw_git_error G r ''git_indexer_append'')) (\<lambda>_.
       call_effect G ''git_indexer_commit'' (\<lambda>r. git_indexer_commit M r odb_pack pack_data)))))"

definition bundle_import_impl :: "('r, 'b) libgit2 \<Rightarrow> 'r mirror_host \<Rightarrow> string \<Rightarrow> string list \<Rightarrow> string std_map \<Rightarrow>
    ('r, unit) vop" where
  "bundle_import_impl G M path refs rename =
     sbind (sread (\<lambda>r. case host_read_file M r path of
         None \<Rightarrow> Inl (GitError (''bundle_import: cannot open '' @ path)) | Some data \<Rightarrow> Inr data)) (\<lambda>data.
     sbind (sread (\<lambda>r. parse_bundle_header (from_bytes data))) (\<lambda>(all_refs, pack_offset).
       let refs_to_import = select_refs refs all_refs in
       if refs_to_import = [] then sreturn ()
       else sbind (index_pack G M (drop pack_offset data)) (\<lambda>_.
         sfold (import_ref G rename) refs_to_import ())))"

definition diff_bundle_export :: "('r, 'b) libgit2 \<Rightarrow> 'r mirror_host \<Rightarrow> 'r \<Rightarrow> Inner \<Rightarrow> string list \<Rightarrow> string std_map \<Rightarrow>
    MirrorDiff" where
  "diff_bundle_export G M r i refs rename =
     \<lparr>md_add = map (\<lambda>(name, sha). \<lparr>rc_ref_name = renamed rename name, old_target = None, new_target = Some sha\<rparr>)
        (select_refs refs (get_local_refs G M r i)), md_update = [], md_del = []\<rparr>"

definition diff_bundle_import :: "('r, 'b) libgit2 \<Rightarrow> 'r mirror_host \<Rightarrow> 'r \<Rightarrow> Inner \<Rightarrow> string \<Rightarrow> string list \<Rightarrow>
    string std_map \<Rightarrow> MirrorDiff res" where
  "diff_bundle_import G M r i path refs rename =
     ebind (bundle_list_heads M r path) (\<lambda>bundle_refs.
       let dest_filtered = fold (\<lambda>(name, sha). smap_set (renamed rename name) sha) (select_refs refs bundle_refs) []
       in Inr ((diff_refs dest_filtered (get_local_refs G M r i))\<lparr>md_del := []\<rparr>))"

section \<open>Transport\<close>

definition force_spec :: "string \<Rightarrow> string \<Rightarrow> string" where
  "force_spec name dest = CHR ''+'' # name @ CHR '':'' # dest"

definition delete_spec :: "string \<Rightarrow> string" where
  "delete_spec name = CHR '':'' # name"

definition remote_push :: "('r, 'b) libgit2 \<Rightarrow> 'r mirror_host \<Rightarrow> string \<Rightarrow> string list \<Rightarrow> ('r, unit) vop" where
  "remote_push G M url refspecs =
     sbind (sread (\<lambda>r. if git_remote_create_anonymous M r url then Inr ()
             else throw_git_error G r ''git_remote_create_anonymous'')) (\<lambda>_.
       call_effect G ''git_remote_push'' (\<lambda>r. git_remote_push M r url refspecs))"

definition mirror_push :: "('r, 'b) libgit2 \<Rightarrow> 'r mirror_host \<Rightarrow> string \<Rightarrow> string std_map \<Rightarrow> string std_map \<Rightarrow> ('r, unit) vop" where
  "mirror_push G M url local_refs remote_refs =
     remote_push G M url
       (map (\<lambda>(name, sha). force_spec name name) local_refs @
        map (\<lambda>(name, sha). delete_spec name) (filter (\<lambda>(name, sha). map_of local_refs name = None) remote_refs))"

definition targeted_push :: "('r, 'b) libgit2 \<Rightarrow> 'r mirror_host \<Rightarrow> string \<Rightarrow> string std_map \<Rightarrow> string list \<Rightarrow>
    string std_map \<Rightarrow> ('r, unit) vop" where
  "targeted_push G M url local_refs ref_filter rename =
     remote_push G M url
       (map (\<lambda>name. force_spec name (renamed rename name)) (filter (\<lambda>name. map_of local_refs name \<noteq> None) ref_filter))"

definition additive_fetch :: "('r, 'b) libgit2 \<Rightarrow> 'r mirror_host \<Rightarrow> string \<Rightarrow> string std_map \<Rightarrow> string list \<Rightarrow>
    string std_map \<Rightarrow> ('r, unit) vop" where
  "additive_fetch G M url remote_refs refs rename =
     (let to_fetch = select_refs refs remote_refs in
      if to_fetch = [] then sreturn ()
      else
        sbind (sread (\<lambda>r. if git_remote_create_anonymous M r url then Inr ()
                else throw_git_error G r ''git_remote_create_anonymous'')) (\<lambda>_.
          call_effect G ''git_remote_fetch''
            (\<lambda>r. git_remote_fetch M r url (map (\<lambda>(name, sha). force_spec name (renamed rename name)) to_fetch))))"

section \<open>backup and restore\<close>

definition keep_refs :: "string list \<Rightarrow> MirrorDiff \<Rightarrow> MirrorDiff" where
  "keep_refs names d =
     d\<lparr>md_add := filter (\<lambda>c. rc_ref_name c \<in> set names) (md_add d),
       md_update := filter (\<lambda>c. rc_ref_name c \<in> set names) (md_update d)\<rparr>"

definition when_changed :: "bool \<Rightarrow> MirrorDiff \<Rightarrow> ('r, unit) vop \<Rightarrow> ('r, MirrorDiff) vop" where
  "when_changed dry_run diff transfer =
     sbind (if \<not> dry_run \<and> \<not> MirrorDiff_in_sync diff then transfer else sreturn ()) (\<lambda>_. sreturn diff)"

definition backup_map :: "('r, 'b) libgit2 \<Rightarrow> 'r mirror_host \<Rightarrow> Inner \<Rightarrow> string \<Rightarrow> BackupOptions \<Rightarrow> bool \<Rightarrow>
    ('r, MirrorDiff) vop" where
  "backup_map G M i dest opts use_bundle =
     sbind (sread (\<lambda>r. Inr (get_local_refs G M r i))) (\<lambda>local_refs.
       let resolved = resolve_ref_map (bk_ref_map opts) local_refs;
           src_refs = map fst resolved
       in if use_bundle then
            sbind (sread (\<lambda>r. Inr (diff_bundle_export G M r i src_refs resolved))) (\<lambda>diff.
            sbind (if bk_dry_run opts then sreturn ()
                   else bundle_export_impl G M dest src_refs local_refs resolved (bk_squash opts)) (\<lambda>_.
              sreturn diff))
          else
            sbind (auto_create_bare_repo G M dest) (\<lambda>_.
            sbind (sread (\<lambda>r. Inr (get_remote_refs G M r dest))) (\<lambda>remote_refs.
              let src_filtered = filter (\<lambda>(k, v). k \<in> set src_refs) local_refs;
                  renamed_local = fold (\<lambda>(src, sha). smap_set (renamed resolved src) sha) src_filtered [];
                  diff = (diff_refs renamed_local remote_refs)\<lparr>md_del := []\<rparr>
              in when_changed (bk_dry_run opts) diff (targeted_push G M dest local_refs src_refs resolved))))"

definition backup_bundle :: "('r, 'b) libgit2 \<Rightarrow> 'r mirror_host \<Rightarrow> Inner \<Rightarrow> string \<Rightarrow> BackupOptions \<Rightarrow> ('r, MirrorDiff) vop" where
  "backup_bundle G M i dest opts =
     sbind (sread (\<lambda>r. Inr (diff_bundle_export G M r i (bk_refs opts) []))) (\<lambda>diff.
     sbind (if bk_dry_run opts then sreturn ()
            else sbind (sread (\<lambda>r. Inr (get_local_refs G M r i))) (\<lambda>local_refs.
              bundle_export_impl G M dest (bk_refs opts) local_refs [] (bk_squash opts))) (\<lambda>_.
       sreturn diff))"

definition backup_refs :: "('r, 'b) libgit2 \<Rightarrow> 'r mirror_host \<Rightarrow> Inner \<Rightarrow> string \<Rightarrow> BackupOptions \<Rightarrow> ('r, MirrorDiff) vop" where
  "backup_refs G M i dest opts =
     sbind (sread (\<lambda>r. Inr (get_local_refs G M r i))) (\<lambda>local_refs.
     sbind (sread (\<lambda>r. Inr (get_remote_refs G M r dest))) (\<lambda>remote_refs.
       if bk_refs opts \<noteq> [] then
         let ref_filter = resolve_ref_names (bk_refs opts) local_refs;
             diff = (keep_refs ref_filter (diff_refs local_refs remote_refs))\<lparr>md_del := []\<rparr>
         in when_changed (bk_dry_run opts) diff (targeted_push G M dest local_refs ref_filter [])
       else when_changed (bk_dry_run opts) (diff_refs local_refs remote_refs) (mirror_push G M dest local_refs remote_refs)))"

definition backup :: "('r, 'b) libgit2 \<Rightarrow> 'r mirror_host \<Rightarrow> Inner \<Rightarrow> string \<Rightarrow> BackupOptions \<Rightarrow> ('r, MirrorDiff) vop" where
  "backup G M i dest opts =
     sbind (sread (\<lambda>r. reject_scp_url dest)) (\<lambda>_.
       let use_bundle = (bk_format opts = ''bundle'' \<or> is_bundle_path dest) in
       if bk_ref_map opts \<noteq> [] then backup_map G M i dest opts use_bundle
       else if use_bundle then backup_bundle G M i dest opts
       else sbind (auto_create_bare_repo G M dest) (\<lambda>_. backup_refs G M i dest opts))"

definition restore_map :: "('r, 'b) libgit2 \<Rightarrow> 'r mirror_host \<Rightarrow> Inner \<Rightarrow> string \<Rightarrow> RestoreOptions \<Rightarrow> bool \<Rightarrow>
    ('r, MirrorDiff) vop" where
  "restore_map G M i src opts use_bundle =
     (if use_bundle then
        sbind (sread (\<lambda>r. bundle_list_heads M r src)) (\<lambda>bundle_refs.
          let resolved = resolve_ref_map (rs_ref_map opts) bundle_refs; src_refs = map fst resolved in
          sbind (sread (\<lambda>r. diff_bundle_import G M r i src src_refs resolved)) (\<lambda>diff.
            when_changed (rs_dry_run opts) diff (bundle_import_impl G M src src_refs resolved)))
      else
        sbind (sread (\<lambda>r. Inr (get_remote_refs G M r src))) (\<lambda>remote_refs.
        sbind (sread (\<lambda>r. Inr (get_local_refs G M r i))) (\<lambda>local_refs.
          let resolved = resolve_ref_map (rs_ref_map opts) remote_refs;
              renamed_remote = fold (\<lambda>(src_ref, dst_ref) m. case map_of remote_refs src_ref of
                  Some sha \<Rightarrow> smap_set dst_ref sha m | None \<Rightarrow> m) resolved [];
              diff = (diff_refs renamed_remote local_refs)\<lparr>md_del := []\<rparr>
          in when_changed (rs_dry_run opts) diff (additive_fetch G M src remote_refs (map fst resolved) resolved))))"

definition restore :: "('r, 'b) libgit2 \<Rightarrow> 'r mirror_host \<Rightarrow> Inner \<Rightarrow> string \<Rightarrow> RestoreOptions \<Rightarrow> ('r, MirrorDiff) vop" where
  "restore G M i src opts =
     sbind (sread (\<lambda>r. reject_scp_url src)) (\<lambda>_.
       let use_bundle = (rs_format opts = ''bundle'' \<or> is_bundle_path src) in
       if rs_ref_map opts \<noteq> [] then restore_map G M i src opts use_bundle
       else if use_bundle then
         sbind (sread (\<lambda>r. diff_bundle_import G M r i src (rs_refs opts) [])) (\<lambda>diff.
           when_changed (rs_dry_run opts) diff (bundle_import_impl G M src (rs_refs opts) []))
       else
         sbind (sread (\<lambda>r. Inr (get_local_refs G M r i))) (\<lambda>local_refs.
         sbind (sread (\<lambda>r. Inr (get_remote_refs G M r src))) (\<lambda>remote_refs.
           let diff0 = diff_refs remote_refs local_refs;
               diff = (if rs_refs opts \<noteq> [] then keep_refs (resolve_ref_names (rs_refs opts) remote_refs) diff0
                       else diff0)\<lparr>md_del := []\<rparr>
           in when_changed (rs_dry_run opts) diff (additive_fetch G M src remote_refs (rs_refs opts) []))))"

definition bundle_export :: "('r, 'b) libgit2 \<Rightarrow> 'r mirror_host \<Rightarrow> Inner \<Rightarrow> string \<Rightarrow> string list \<Rightarrow> string std_map \<Rightarrow> bool \<Rightarrow>
    ('r, unit) vop" where
  "bundle_export G M i path refs ref_map squashed =
     sbind (sread (\<lambda>r. Inr (get_local_refs G M r i))) (\<lambda>local_refs.
       if ref_map \<noteq> [] then
         let resolved = resolve_ref_map ref_map local_refs in
         bundle_export_impl G M path (map fst resolved) local_refs resolved squashed
       else bundle_export_impl G M path refs local_refs [] squashed)"

definition bundle_import :: "('r, 'b) libgit2 \<Rightarrow> 'r mirror_host \<Rightarrow> string \<Rightarrow> string list \<Rightarrow> string std_map \<Rightarrow> ('r, unit) vop" where
  "bundle_import G M path refs ref_map =
     (if ref_map \<noteq> [] then
        sbind (sread (\<lambda>r. case host_read_file M r path of
            None \<Rightarrow> Inl (GitError (''bundle_import: cannot open '' @ path)) | Some data \<Rightarrow> Inr data)) (\<lambda>data.
        sbind (sread (\<lambda>r. parse_bundle_header (from_bytes data))) (\<lambda>(bundle_refs, offset).
          let resolved = resolve_ref_map ref_map bundle_refs in
          bundle_import_impl G M path (map fst resolved) resolved))
      else bundle_import_impl G M path refs [])"

section \<open>Credentials\<close>

text \<open>\<^verbatim>\<open>std::isalnum\<close> in the C locale.\<close>

definition is_alnum :: "char \<Rightarrow> bool" where
  "is_alnum c \<longleftrightarrow> (let n = of_char c :: nat in 48 \<le> n \<and> n \<le> 57 \<or> 65 \<le> n \<and> n \<le> 90 \<or> 97 \<le> n \<and> n \<le> 122)"

definition hex_upper :: "nat \<Rightarrow> char" where
  "hex_upper n = ''0123456789ABCDEF'' ! n"

definition percent_encode :: "string \<Rightarrow> string" where
  "percent_encode s =
     concat (map (\<lambda>c. if is_alnum c \<or> c \<in> {CHR ''-'', CHR ''_'', CHR ''.'', CHR ''~''} then [c]
       else [CHR ''%'', hex_upper ((of_char c :: nat) div 16), hex_upper ((of_char c :: nat) mod 16)]) s)"

definition run_cmd :: "'r mirror_host \<Rightarrow> 'r \<Rightarrow> string \<Rightarrow> string" where
  "run_cmd M r cmd = (case host_popen M r cmd of Some output \<Rightarrow> output | None \<Rightarrow> [])"

definition rtrim :: "string \<Rightarrow> string" where
  "rtrim s = rev (dropWhile (\<lambda>c. c \<in> {CHR 0x0A, CHR 0x0D, CHR '' ''}) (rev s))"

definition hostname_safe :: "string \<Rightarrow> bool" where
  "hostname_safe h \<longleftrightarrow> list_all (\<lambda>c. is_alnum c \<or> c = CHR ''.'' \<or> c = CHR ''-'') h \<and> h \<noteq> []"

definition parse_credentials :: "string \<Rightarrow> string \<times> string" where
  "parse_credentials output =
     fold (\<lambda>line (username, password).
         if CHR ''='' \<in> set line then
           let key = takeWhile (\<lambda>c. c \<noteq> CHR ''='') line;
               val = rtrim (drop 1 (dropWhile (\<lambda>c. c \<noteq> CHR ''='') line))
           in (if key = ''username'' then val else username, if key = ''password'' then val else password)
         else (username, password)) (getlines (CHR 0x0A) output) ([], [])"

definition fill_command :: "string \<Rightarrow> string" where
  "fill_command hostname = ''printf '' @ CHR 0x27 # ''protocol=https'' @ [CHR 0x5C] @ ''nhost='' @ hostname @
     [CHR 0x5C] @ ''n'' @ [CHR 0x5C] @ ''n'' @ CHR 0x27 # '' | git credential fill 2>/dev/null''"

definition token_command :: "string \<Rightarrow> string" where
  "token_command hostname = ''gh auth token --hostname '' @ hostname @ '' 2>/dev/null''"

definition resolve_credentials :: "'r mirror_host \<Rightarrow> 'r \<Rightarrow> string \<Rightarrow> string" where
  "resolve_credentials M r url =
     (if \<not> starts_with url ''https://'' then url
      else
        let after_scheme = drop 8 url;
            authority = takeWhile (\<lambda>c. c \<noteq> CHR ''/'') after_scheme;
            path_and_rest = dropWhile (\<lambda>c. c \<noteq> CHR ''/'') after_scheme;
            hostname = takeWhile (\<lambda>c. c \<noteq> CHR '':'') authority
        in if CHR ''@'' \<in> set authority then url
           else if \<not> hostname_safe hostname then url
           else
             let output = run_cmd M r (fill_command hostname);
                 (username, password) = parse_credentials output
             in if output \<noteq> [] \<and> username \<noteq> [] \<and> password \<noteq> []
                then ''https://'' @ percent_encode username @ CHR '':'' # percent_encode password @ CHR ''@'' # authority @ path_and_rest
                else
                  let token = rtrim (run_cmd M r (token_command hostname)) in
                  if token \<noteq> [] then ''https://x-access-token:'' @ token @ CHR ''@'' # authority @ path_and_rest
                  else url)"

end
