(* ===== verification/Vost_Bundle.thy ===== *)
theory Vost_Bundle
  imports Vost_Mirror
begin

text \<open>
  Bundle files of \<^verbatim>\<open>cpp/src/mirror.cpp\<close>: the header that is written is parsed back, and what one
  repository exports another one imports.
\<close>

section \<open>Searching\<close>

lemma starts_with_Cons: "starts_with (c # s) (d # p) \<longleftrightarrow> c = d \<and> starts_with s p"
  by (auto simp: starts_with_def)

lemma starts_with_Nil [simp]: "starts_with s []" "starts_with [] (d # p) \<longleftrightarrow> False"
  by (auto simp: starts_with_def)

lemma starts_with_append [simp]: "starts_with (p @ s) p"
  by (simp add: starts_with_def)

lemma find_in_char: "c \<notin> set t \<Longrightarrow> find_in [c] (t @ c # s) = Some (length t)"
  by (induction t) (auto simp: starts_with_Cons)

lemma find_in_pair: "c \<notin> set t \<Longrightarrow> find_in [c, c] (t @ c # c # s) = Some (length t)"
proof (induction t)
  case Nil
  then show ?case by (simp add: starts_with_Cons)
next
  case (Cons a t)
  then show ?case by (auto simp: starts_with_Cons)
qed

lemma find_in_pair_skip:
  "c \<notin> set t \<Longrightarrow> d \<noteq> c \<Longrightarrow>
    find_in [c, c] (t @ c # d # s) = map_option (\<lambda>i. Suc (length t) + i) (find_in [c, c] (d # s))"
proof (induction t)
  case Nil
  then show ?case by (auto simp: starts_with_Cons)
next
  case (Cons a t)
  then have "find_in [c, c] (t @ c # d # s) = map_option (\<lambda>i. Suc (length t) + i) (find_in [c, c] (d # s))" by simp
  moreover have "\<not> starts_with (a # t @ c # d # s) [c, c]" using Cons.prems by (auto simp: starts_with_Cons)
  ultimately show ?case by (simp add: option.map_comp comp_def)
qed

section \<open>The lines of a header\<close>

abbreviation nl :: char where
  "nl \<equiv> CHR 0x0A"

definition line_block :: "string list \<Rightarrow> string" where
  "line_block xs = concat (map (\<lambda>l. l @ [nl]) xs)"

definition plain_line :: "string \<Rightarrow> bool" where
  "plain_line l \<longleftrightarrow> l \<noteq> [] \<and> nl \<notin> set l"

lemma line_block_simps [simp]: "line_block [] = []" "line_block (l # xs) = l @ nl # line_block xs"
  by (simp_all add: line_block_def)

lemma find_blank_line:
  assumes "list_all plain_line xs" "xs \<noteq> []"
  shows "find_in [nl, nl] (line_block xs @ nl # s) = Some (length (line_block xs) - 1)"
  using assms
proof (induction xs)
  case (Cons l xs)
  show ?case
  proof (cases xs)
    case Nil
    with Cons.prems show ?thesis by (simp add: plain_line_def find_in_pair)
  next
    case (Cons l' xs')
    with Cons.prems have l: "nl \<notin> set l" and "l' \<noteq> []" "nl \<notin> set l'" by (auto simp: plain_line_def)
    then obtain d t where l': "l' = d # t" "d \<noteq> nl" by (cases l') auto
    have IH: "find_in [nl, nl] (line_block xs @ nl # s) = Some (length (line_block xs) - 1)"
      using Cons.IH Cons.prems Cons by simp
    have "find_in [nl, nl] (line_block (l # xs) @ nl # s) =
        map_option (\<lambda>i. Suc (length l) + i) (find_in [nl, nl] (line_block xs @ nl # s))"
      using find_in_pair_skip [OF l l'(2), of "t @ nl # line_block xs' @ nl # s"] Cons l'(1) by simp
    with IH Cons show ?thesis by simp
  qed
qed simp

lemma parse_block:
  assumes "list_all plain_line xs"
  shows "parse_bundle_refs (pre @ line_block xs @ nl # s) (length pre + length (line_block xs) - 1) (length pre) refs =
    fold parse_bundle_line xs refs"
  using assms
proof (induction xs arbitrary: pre refs)
  case Nil
  have "\<not> length pre < length pre + length (line_block []) - 1" by simp
  then show ?case by (subst parse_bundle_refs.simps) simp
next
  case (Cons l xs)
  let ?data = "pre @ line_block (l # xs) @ nl # s"
  from Cons.prems have l: "l \<noteq> []" "nl \<notin> set l" by (auto simp: plain_line_def)
  have "find_from [nl] ?data (length pre) = Some (length pre + length l)"
    using find_in_char [OF l(2)] by (simp add: find_from_def)
  moreover have "0 < length l" using l(1) by simp
  ultimately have "parse_bundle_refs ?data (length pre + length (line_block (l # xs)) - 1) (length pre) refs =
      parse_bundle_refs ?data (length pre + length (line_block (l # xs)) - 1) (length pre + length l + 1)
        (parse_bundle_line l refs)"
    by (subst parse_bundle_refs.simps) simp
  also have "\<dots> = fold parse_bundle_line xs (parse_bundle_line l refs)"
    using Cons.IH [of "pre @ l @ [nl]" "parse_bundle_line l refs"] Cons.prems by (simp add: add.assoc)
  finally show ?case by simp
qed

section \<open>The header round trip\<close>

text \<open>The hashes and names that fit a line of the header.\<close>

definition bundle_sha :: "string \<Rightarrow> bool" where
  "bundle_sha sha \<longleftrightarrow> sha \<noteq> [] \<and> hd sha \<noteq> CHR ''-'' \<and> CHR '' '' \<notin> set sha \<and> nl \<notin> set sha"

definition bundle_name :: "string \<Rightarrow> bool" where
  "bundle_name n \<longleftrightarrow> n \<noteq> ''HEAD'' \<and> nl \<notin> set n"

lemma parse_bundle_line_ref:
  "bundle_sha sha \<Longrightarrow> bundle_name n \<Longrightarrow> parse_bundle_line (sha @ CHR '' '' # n) refs = smap_set n sha refs"
  by (auto simp: parse_bundle_line_def bundle_sha_def bundle_name_def find_in_char)

lemma parse_header_lines:
  assumes "list_all plain_line xs" "xs \<noteq> []"
  shows "parse_bundle_header (bundle_sig @ line_block xs @ nl # pack_data) =
    Inr (fold parse_bundle_line xs [], length bundle_sig + length (line_block xs) + 1)"
proof -
  let ?data = "bundle_sig @ line_block xs @ nl # pack_data"
  have pos: "length (line_block xs) > 0" using assms by (cases xs) auto
  then have e: "length bundle_sig + (length (line_block xs) - 1) = length bundle_sig + length (line_block xs) - 1"
    by linarith
  have "find_from [nl, nl] ?data (length bundle_sig) = Some (length bundle_sig + length (line_block xs) - 1)"
    using find_blank_line [OF assms, of pack_data] e by (simp add: find_from_def)
  with parse_block [OF assms(1), of bundle_sig pack_data "[]"] pos show ?thesis
    by (simp add: parse_bundle_header_def)
qed

definition ref_lines :: "string std_map \<Rightarrow> string std_map \<Rightarrow> string list" where
  "ref_lines refs rename = map (\<lambda>(n, sha). sha @ CHR '' '' # renamed rename n) refs"

lemma bundle_header_lines: "bundle_header refs rename = bundle_sig @ line_block (ref_lines refs rename) @ [nl]"
  by (simp add: bundle_header_def line_block_def ref_lines_def case_prod_unfold comp_def)

lemma ref_lines_plain:
  assumes "\<forall>x\<in>set refs. bundle_sha (snd x) \<and> bundle_name (renamed rename (fst x))"
  shows "list_all plain_line (ref_lines refs rename) \<and>
    fold parse_bundle_line (ref_lines refs rename) [] = fold (\<lambda>(n, sha). smap_set (renamed rename n) sha) refs []"
proof
  show "list_all plain_line (ref_lines refs rename)"
    using assms by (auto simp: ref_lines_def list_all_iff plain_line_def bundle_sha_def bundle_name_def)
  show "fold parse_bundle_line (ref_lines refs rename) [] = fold (\<lambda>(n, sha). smap_set (renamed rename n) sha) refs []"
    unfolding ref_lines_def fold_map using assms by (intro fold_cong) (auto simp: parse_bundle_line_ref fun_eq_iff)
qed

text \<open>The header of a bundle is parsed back. For a map of references that is not empty, with
  hashes that hold no blank, no line break and no leading dash, and for destination names
  without a line break other than \<^verbatim>\<open>HEAD\<close>, parsing the written header in front of any pack data
  returns exactly the references under their destination names, and the offset at which the
  pack data starts.\<close>

lemma bundle_header_roundtrip:
  assumes "refs \<noteq> []" "\<forall>x\<in>set refs. bundle_sha (snd x) \<and> bundle_name (renamed rename (fst x))"
  shows "parse_bundle_header (bundle_header refs rename @ pack_data) =
    Inr (fold (\<lambda>(n, sha). smap_set (renamed rename n) sha) refs [], length (bundle_header refs rename))"
  using ref_lines_plain [of refs rename, OF assms(2)] parse_header_lines [of "ref_lines refs rename" pack_data] assms(1)
  by (simp add: bundle_header_lines ref_lines_def)

lemma bundle_header_roundtrip_witness:
  "parse_bundle_header (bundle_header [(''refs/heads/a'', ''01''), (''refs/tags/t'', ''02'')]
      [(''refs/heads/a'', ''refs/heads/z'')] @ ''PACK'') =
    Inr ([(''refs/heads/z'', ''01''), (''refs/tags/t'', ''02'')], 48)"
  using bundle_header_roundtrip [of "[(''refs/heads/a'', ''01''), (''refs/tags/t'', ''02'')]"
      "[(''refs/heads/a'', ''refs/heads/z'')]" "''PACK''"]
  by (simp add: bundle_sha_def bundle_name_def renamed_def bundle_header_def bundle_sig_def)


section \<open>Export and import\<close>

text \<open>
  What the calls behind a bundle promise: hashes are printed in lower-case hexadecimal digits,
  the names of references hold no line break, a file that was written well reads back, and
  indexing a pack adds objects and touches no reference.
\<close>

locale git_bundles = git_refdb G for G :: "('r, 'b) libgit2" +
  fixes M :: "'r mirror_host"
  assumes hex_digits: "set (git_oid_tostr G oid) \<subseteq> set ''0123456789abcdef''"
    and iterator_refs: "git_reference_iterator M r p = Some refs \<Longrightarrow> (n, Some oid) \<in> set refs \<Longrightarrow>
      nl \<notin> set n \<and> git_oid_tostr G oid \<noteq> []"
    and write_file: "host_write_file M r p data = (True, r') \<Longrightarrow>
      host_read_file M r' p = Some data \<and> git_extends G r r'"
    and create_directories: "git_adds G r (host_create_directories M r p)"
    and indexer_commit: "git_indexer_commit M r p data = Some r' \<Longrightarrow> git_adds G r r'"
begin

lemma bundle_sha_tostr: "git_oid_tostr G oid \<noteq> [] \<Longrightarrow> bundle_sha (git_oid_tostr G oid)"
  using subsetD [OF hex_digits hd_in_set, of oid] hex_digits [of oid] by (auto simp: bundle_sha_def)

end

lemma smap_ok_refs: "smap_ok (get_refs_from_repo G M r p)"
  unfolding get_refs_from_repo_def
  by (auto split: option.splits intro!: fold_keeps [where P = smap_ok])

lemma smap_ok_select: "smap_ok m \<Longrightarrow> smap_ok (select_refs refs m)"
  by (simp add: select_refs_def smap_ok_filter)

lemma map_of_select:
  "map_of (select_refs refs m) n =
    (if refs = [] \<or> n \<in> set (resolve_ref_names refs m) then map_of m n else None)"
  by (simp add: select_refs_def map_of_filter_keys [where P = "\<lambda>k. k \<in> set (resolve_ref_names refs m)"])

lemma renamed_Nil [simp]: "renamed [] = id"
  by (simp add: renamed_def fun_eq_iff)

text \<open>The references an export can list.\<close>

definition bundle_hash :: "('r, 'b) libgit2 \<Rightarrow> string \<Rightarrow> bool" where
  "bundle_hash G sha \<longleftrightarrow> sha \<noteq> [] \<and> (\<exists>oid. sha = git_oid_tostr G oid)"

definition bundle_ref :: "('r, 'b) libgit2 \<Rightarrow> string \<times> string \<Rightarrow> bool" where
  "bundle_ref G x \<longleftrightarrow> bundle_name (fst x) \<and> bundle_hash G (snd x)"

text \<open>
  The hash that stands in the bundle for the reference with the hash \<open>sha\<close>: the same one or,
  when the history is stripped, that of a commit without parents and with the same tree.
\<close>

definition exported_as :: "('r, 'b) libgit2 \<Rightarrow> 'r \<Rightarrow> bool \<Rightarrow> string \<Rightarrow> string \<Rightarrow> bool" where
  "exported_as G r squashed sha new \<longleftrightarrow>
     (if squashed
      then \<exists>old oid c c'. git_oid_fromstr G sha = Some old \<and> git_commit_lookup G r old = Some c \<and>
             new = git_oid_tostr G oid \<and> git_commit_lookup G r oid = Some c' \<and>
             gc_tree c' = gc_tree c \<and> gc_parents c' = []
      else new = sha)"

lemma exported_as_extends: "git_extends G r r' \<Longrightarrow> exported_as G r sq sha new \<Longrightarrow> exported_as G r' sq sha new"
  unfolding exported_as_def using git_extends_commit by (metis (no_types))

text \<open>A loop that pushes one result per element, with a relation that later steps keep.\<close>

lemma smap_list_all2:
  assumes "smap f xs r = (Inr ys, r')"
    and step: "\<And>x y r r'. f x r = (Inr y, r') \<Longrightarrow> git_extends G r r' \<and> R x y r'"
    and mono: "\<And>x y r r'. R x y r \<Longrightarrow> git_extends G r r' \<Longrightarrow> R x y r'"
  shows "git_extends G r r' \<and> list_all2 (\<lambda>x y. R x y r') xs ys"
  using assms(1)
proof (induction xs arbitrary: ys r)
  case (Cons x xs)
  then obtain y zs r1 where s: "f x r = (Inr y, r1)" "smap f xs r1 = (Inr zs, r')" "ys = y # zs"
    by (auto simp: outcome_iff)
  from step [OF s(1)] Cons.IH [OF s(2)] s(3) show ?case by (auto intro: mono git_extends_trans)
qed simp

lemma build_pack_reads: "build_pack G M xs r = (x, r') \<Longrightarrow> r' = r"
proof -
  have "keeps (=) (push_walk G M y)" for y
    unfolding push_walk_def by (cases y) (auto intro!: keeps_sbind keeps_pure simp: reflp_def transp_def)
  then have "keeps (=) (build_pack G M xs)"
    unfolding build_pack_def by (intro keeps_sbind keeps_smap keeps_pure) (auto simp: reflp_def transp_def)
  then show "build_pack G M xs r = (x, r') \<Longrightarrow> r' = r" by (metis keepsD)
qed

lemma all2_map_of:
  assumes "list_all2 (\<lambda>x y. fst y = fst x \<and> Q (snd x) (snd y)) xs ys"
  shows "map fst ys = map fst xs \<and> (\<forall>n. rel_option Q (map_of xs n) (map_of ys n))"
  using assms by (induction rule: list_all2_induct) auto

context git_bundles
begin

lemma refs_well_formed: "x \<in> set (get_refs_from_repo G M r p) \<Longrightarrow> bundle_ref G x"
proof (cases "git_reference_iterator M r p")
  case (Some refs)
  let ?step = "\<lambda>(name, target) m. if name = ''HEAD'' then m
    else case target of Some oid \<Rightarrow> smap_set name (git_oid_tostr G oid) m | None \<Rightarrow> m"
  have "\<forall>x\<in>set (fold ?step refs []). bundle_ref G x"
  proof (rule fold_keeps)
    fix y m
    assume y: "y \<in> set refs" and m: "\<forall>x\<in>set m. bundle_ref G x"
    obtain name target where [simp]: "y = (name, target)" by fastforce
    show "\<forall>x\<in>set (?step y m). bundle_ref G x"
      using m iterator_refs [OF Some, of name] y
      by (auto simp: bundle_ref_def bundle_name_def bundle_hash_def split: option.splits dest!: set_smap_set)
  qed simp
  moreover assume "x \<in> set (get_refs_from_repo G M r p)"
  ultimately show ?thesis unfolding get_refs_from_repo_def Some by auto
qed (simp add: get_refs_from_repo_def)

lemma squash_ref_Inr:
  assumes "squash_ref G sig x r = (Inr y, r')"
  shows "git_extends G r r' \<and> fst y = fst x \<and> bundle_hash G (snd y) \<and> exported_as G r' True (snd x) (snd y)"
proof -
  obtain name sha where x: "x = (name, sha)" by fastforce
  from assms obtain old c oid where s: "git_oid_fromstr G sha = Some old" "git_commit_lookup G r old = Some c"
      "git_commit_create G r sig (''squash'' @ [nl]) (gc_tree c) [] = Some (oid, r')" "y = (name, git_oid_tostr G oid)"
    by (auto simp: squash_ref_def x outcome_iff call_write_def require_ok_def throw_git_error_def split: option.splits)
  from commit_create [OF s(3)] obtain c' where c': "git_commit_lookup G r' oid = Some c'" "gc_tree c' = gc_tree c"
      "gc_parents c' = []" "git_extends G r r'" by (auto dest: git_adds_extends)
  then show ?thesis using s x git_extends_commit [OF c'(4) s(2)] commit_not_null [OF c'(1)]
    by (auto simp: exported_as_def bundle_hash_def)
qed

lemma bundle_export_impl_Inr:
  assumes "bundle_export_impl G M path refs local_refs rename squashed r = (Inr u, r')"
    "\<And>x. x \<in> set local_refs \<Longrightarrow> bundle_ref G x"
  shows "\<exists>eff buf. eff \<noteq> [] \<and> host_read_file M r' path = Some (to_bytes (bundle_header eff rename) @ buf) \<and>
    list_all2 (\<lambda>x y. fst y = fst x \<and> bundle_hash G (snd y) \<and> exported_as G r' squashed (snd x) (snd y))
      (select_refs refs local_refs) eff"
proof -
  let ?exp = "select_refs refs local_refs"
  let ?R = "\<lambda>x y r. fst y = fst x \<and> bundle_hash G (snd y) \<and> exported_as G r squashed (snd x) (snd y)"
  let ?eff = "if squashed then sbind (sread (\<lambda>r. require_ok G r ''git_signature_now'' (git_signature_now G r ''vost'' ''vost@localhost'')))
      (\<lambda>sig. smap (squash_ref G sig) ?exp) else sreturn ?exp"
  have ne: "?exp \<noteq> []" using assms(1) by (auto simp: bundle_export_impl_def)
  with assms(1) have "sbind ?eff (\<lambda>effective. sbind (build_pack G M effective) (\<lambda>buf.
      write_bundle M path (to_bytes (bundle_header effective rename) @ buf))) r = (Inr u, r')"
    by (simp add: bundle_export_impl_def Let_def)
  then obtain eff r1 buf r2 where e: "?eff r = (Inr eff, r1)" and b: "build_pack G M eff r1 = (Inr buf, r2)"
      and w: "write_bundle M path (to_bytes (bundle_header eff rename) @ buf) r2 = (Inr u, r')"
    unfolding sbind_Inr_iff by blast
  have sel: "x \<in> set ?exp \<Longrightarrow> bundle_ref G x" for x using assms(2) by (auto simp: select_refs_def split: if_splits)
  have "list_all2 (\<lambda>x y. ?R x y r1) ?exp eff"
  proof (cases squashed)
    case True
    with e obtain sig where "smap (squash_ref G sig) ?exp r = (Inr eff, r1)" by (auto simp: outcome_iff)
    then have "git_extends G r r1 \<and> list_all2 (\<lambda>x y. ?R x y r1) ?exp eff"
    proof (rule smap_list_all2 [where R = ?R])
      fix x y r r'
      assume "squash_ref G sig x r = (Inr y, r')"
      from squash_ref_Inr [OF this] True show "git_extends G r r' \<and> ?R x y r'" by simp
    next
      fix x y r r'
      assume "?R x y r" "git_extends G r r'"
      with exported_as_extends [of G r r'] show "?R x y r'" by blast
    qed
    then show ?thesis by blast
  next
    case False
    with e have "eff = ?exp" by simp
    with sel False show ?thesis
      by (auto simp: list_all2_same exported_as_def bundle_ref_def)
  qed
  moreover have "r2 = r1" using b by (rule build_pack_reads)
  moreover from w have "host_write_file M r2 path (to_bytes (bundle_header eff rename) @ buf) = (True, r')"
    by (auto simp: write_bundle_def split: if_splits prod.splits)
  note W = write_file [OF this]
  ultimately have "list_all2 (\<lambda>x y. ?R x y r') ?exp eff"
    using exported_as_extends [of G r1 r'] W by (auto elim: list_all2_mono)
  moreover have "eff \<noteq> []" using \<open>list_all2 (\<lambda>x y. ?R x y r') ?exp eff\<close> ne by auto
  ultimately show ?thesis using W by blast
qed

lemma import_refs_Inr:
  assumes "sfold (import_ref G rename) xs () s = (Inr u, s')" "distinct (map (renamed rename \<circ> fst) xs)"
  shows "git_extends G s s' \<and>
    (\<forall>(n, sha)\<in>set xs. \<exists>oid. git_oid_fromstr G sha = Some oid \<and>
       git_reference_lookup G s' (renamed rename n) = Some \<lparr>gref_name = renamed rename n, gref_target = Inl oid\<rparr>) \<and>
    (\<forall>m. m \<notin> (renamed rename \<circ> fst) ` set xs \<longrightarrow> git_reference_lookup G s' m = git_reference_lookup G s m)"
  using assms
proof (induction xs arbitrary: s)
  case (Cons x xs)
  obtain n sha where x: "x = (n, sha)" by fastforce
  from Cons.prems(1) obtain oid s1 where s: "git_oid_fromstr G sha = Some oid"
      "git_reference_create G s (renamed rename n) oid True [] = Some s1"
      "sfold (import_ref G rename) xs () s1 = (Inr u, s')"
    by (auto simp: x import_ref_def outcome_iff require_ok_def throw_git_error_def split: option.splits)
  note C = reference_create [OF s(2)]
  have "git_extends G s s1" "\<And>m. m \<noteq> renamed rename n \<Longrightarrow> git_reference_lookup G s1 m = git_reference_lookup G s m"
    using C by (auto simp: git_moves_def)
  with Cons.IH [OF s(3)] Cons.prems(2) C s(1) x show ?case
    by (auto intro: git_extends_trans)
qed simp

lemma bundle_import_impl_Inr:
  assumes "bundle_import_impl G M path [] [] s = (Inr u, s')"
    "host_read_file M s path = Some (to_bytes (bundle_header eff []) @ buf)" "eff \<noteq> []" "distinct (map fst eff)"
    "\<forall>x\<in>set eff. bundle_ref G x"
  shows "git_extends G s s' \<and>
    (\<forall>n. case map_of eff n of
       None \<Rightarrow> git_reference_lookup G s' n = git_reference_lookup G s n
     | Some sha \<Rightarrow> \<exists>oid. git_oid_fromstr G sha = Some oid \<and>
         git_reference_lookup G s' n = Some \<lparr>gref_name = n, gref_target = Inl oid\<rparr>)"
proof -
  define all where "all = fold (\<lambda>(k, v). smap_set k v) eff []"
  have all: "smap_ok all" "map_of all = map_of eff"
    using map_of_fold_smap_set [OF assms(4)] by (auto simp: all_def)
  have sha: "\<forall>x\<in>set eff. bundle_sha (snd x) \<and> bundle_name (renamed [] (fst x))"
    using assms(5) bundle_sha_tostr by (auto simp: bundle_ref_def bundle_hash_def)
  have "parse_bundle_header (from_bytes (to_bytes (bundle_header eff []) @ buf)) = Inr (all, length (bundle_header eff []))"
    using ref_lines_plain [of eff "[]"] parse_header_lines [of "ref_lines eff []" "from_bytes buf"] assms(3) sha
    by (simp add: all_def bundle_header_lines ref_lines_def from_bytes_def to_bytes_def comp_def)
  moreover have "map_of all (fst (hd eff)) \<noteq> None" using assms(3) by (simp add: all(2) map_of_eq_None_iff)
  then have "all \<noteq> []" by auto
  ultimately have "sbind (index_pack G M (drop (length (bundle_header eff [])) (to_bytes (bundle_header eff []) @ buf)))
      (\<lambda>_. sfold (import_ref G []) all ()) s = (Inr u, s')"
    using assms(1,2) by (simp add: bundle_import_impl_def select_refs_def)
  then obtain s1 pk where i: "index_pack G M pk s = (Inr (), s1)" "sfold (import_ref G []) all () s1 = (Inr u, s')"
    unfolding sbind_Inr_iff by auto
  from i(1) obtain p where "git_indexer_commit M (host_create_directories M s p) p pk = Some s1"
    by (auto simp: index_pack_def outcome_iff)
  then have a: "git_adds G s s1" by (rule git_adds_trans [OF create_directories indexer_commit])
  have d: "distinct (map fst all)" using all(1) by (simp add: smap_ok_def)
  then have "distinct (map (renamed [] \<circ> fst) all)" by simp
  note I = import_refs_Inr [OF i(2) this]
  have look: "git_reference_lookup G s1 n = git_reference_lookup G s n" for n using git_adds_reference [OF a] .
  show ?thesis
  proof (intro conjI allI)
    show "git_extends G s s'" by (rule git_extends_trans [OF git_adds_extends [OF a]]) (simp add: I)
    fix n
    show "case map_of eff n of
       None \<Rightarrow> git_reference_lookup G s' n = git_reference_lookup G s n
     | Some sha \<Rightarrow> \<exists>oid. git_oid_fromstr G sha = Some oid \<and>
         git_reference_lookup G s' n = Some \<lparr>gref_name = n, gref_target = Inl oid\<rparr>"
    proof (cases "map_of all n")
      case None
      then have "n \<notin> fst ` set all" by (simp add: map_of_eq_None_iff)
      with None I look all(2) show ?thesis by simp
    next
      case (Some sha)
      then have "(n, sha) \<in> set all" by (rule map_of_SomeD)
      with I obtain oid where "git_oid_fromstr G sha = Some oid"
          "git_reference_lookup G s' n = Some \<lparr>gref_name = n, gref_target = Inl oid\<rparr>" by auto
      with Some all(2) show ?thesis by simp
    qed
  qed
qed

end

lemma exported_refs_ok:
  assumes "list_all2 (\<lambda>x y. fst y = fst x \<and> bundle_hash G (snd y) \<and> Q (snd x) (snd y)) xs ys" "\<forall>x\<in>set xs. bundle_ref G x"
  shows "\<forall>y\<in>set ys. bundle_ref G y"
proof
  fix y
  assume "y \<in> set ys"
  with assms(1) obtain x where "x \<in> set xs" "fst y = fst x" "bundle_hash G (snd y)"
    unfolding list_all2_conv_all_nth in_set_conv_nth by metis
  with assms(2) show "bundle_ref G y" by (simp add: bundle_ref_def)
qed


end
