(* ===== verification/Vost_Transport.thy ===== *)
theory Vost_Transport
  imports Vost_Bundle
begin

text \<open>
  Backup to and restore from another repository (\<^verbatim>\<open>cpp/src/mirror.cpp\<close>): the reported difference
  is exact, a full backup makes the other repository a mirror, a restore only adds and updates,
  and the lookup of credentials runs no command but the two it means to.
\<close>

section \<open>Differences\<close>

text \<open>What a difference does to a map of references.\<close>

definition apply_diff :: "MirrorDiff \<Rightarrow> (string \<rightharpoonup> string) \<Rightarrow> string \<rightharpoonup> string" where
  "apply_diff d m n =
     (case find (\<lambda>c. rc_ref_name c = n) (md_add d @ md_update d @ md_del d) of
        Some c \<Rightarrow> new_target c | None \<Rightarrow> m n)"

lemma find_Some_mem: "find P xs = Some x \<Longrightarrow> x \<in> set xs \<and> P x"
  by (induction xs) (auto split: if_splits)

lemma set_map_filter: "y \<in> set (List.map_filter f xs) \<longleftrightarrow> (\<exists>x\<in>set xs. f x = Some y)"
  by (induction xs) (auto simp: map_filter_def split: option.splits)

lemma diff_refs_changes:
  assumes "smap_ok src" "smap_ok dest"
  shows "c \<in> set (md_add (diff_refs src dest)) \<longleftrightarrow>
      old_target c = None \<and> map_of dest (rc_ref_name c) = None \<and> new_target c \<noteq> None \<and>
      new_target c = map_of src (rc_ref_name c)"
    "c \<in> set (md_update (diff_refs src dest)) \<longleftrightarrow>
      old_target c \<noteq> None \<and> old_target c = map_of dest (rc_ref_name c) \<and> new_target c \<noteq> None \<and>
      new_target c = map_of src (rc_ref_name c) \<and> new_target c \<noteq> old_target c"
    "c \<in> set (md_del (diff_refs src dest)) \<longleftrightarrow>
      old_target c \<noteq> None \<and> old_target c = map_of dest (rc_ref_name c) \<and> new_target c = None \<and>
      map_of src (rc_ref_name c) = None"
proof -
  have m: "c \<in> set (List.map_filter f m) \<longleftrightarrow> (\<exists>n v. map_of m n = Some v \<and> f (n, v) = Some c)"
    if "smap_ok m" for m :: "string std_map" and f
    using that by (simp add: set_map_filter smap_ok_def Bex_def map_of_eq_Some_iff)
  note M = m [OF assms(1)] m [OF assms(2)] diff_refs_def MirrorDiff.simps prod.case
  show "c \<in> set (md_add (diff_refs src dest)) \<longleftrightarrow>
      old_target c = None \<and> map_of dest (rc_ref_name c) = None \<and> new_target c \<noteq> None \<and>
      new_target c = map_of src (rc_ref_name c)"
    unfolding M by (cases c) (auto split: option.splits)
  show "c \<in> set (md_update (diff_refs src dest)) \<longleftrightarrow>
      old_target c \<noteq> None \<and> old_target c = map_of dest (rc_ref_name c) \<and> new_target c \<noteq> None \<and>
      new_target c = map_of src (rc_ref_name c) \<and> new_target c \<noteq> old_target c"
    unfolding M
  proof
    assume a: "old_target c \<noteq> None \<and> old_target c = map_of dest (rc_ref_name c) \<and> new_target c \<noteq> None \<and>
      new_target c = map_of src (rc_ref_name c) \<and> new_target c \<noteq> old_target c"
    obtain n old new where c: "c = \<lparr>rc_ref_name = n, old_target = old, new_target = new\<rparr>" by (cases c)
    with a obtain x y where "map_of dest n = Some x" "map_of src n = Some y"
      by (cases "map_of dest n"; cases "map_of src n") simp_all
    moreover from this a c have "old = Some x" "new = Some y" "x \<noteq> y" by auto
    ultimately show "\<exists>n v. map_of src n = Some v \<and> (case map_of dest n of Some old \<Rightarrow> if old \<noteq> v
        then Some \<lparr>rc_ref_name = n, old_target = Some old, new_target = Some v\<rparr> else None | None \<Rightarrow> None) = Some c"
      using c by (intro exI [of _ n] exI [of _ y]) simp
  next
    assume "\<exists>n v. map_of src n = Some v \<and> (case map_of dest n of Some old \<Rightarrow> if old \<noteq> v
        then Some \<lparr>rc_ref_name = n, old_target = Some old, new_target = Some v\<rparr> else None | None \<Rightarrow> None) = Some c"
    then obtain n v where "map_of src n = Some v" "(case map_of dest n of Some old \<Rightarrow> if old \<noteq> v
        then Some \<lparr>rc_ref_name = n, old_target = Some old, new_target = Some v\<rparr> else None | None \<Rightarrow> None) = Some c" by blast
    then show "old_target c \<noteq> None \<and> old_target c = map_of dest (rc_ref_name c) \<and> new_target c \<noteq> None \<and>
      new_target c = map_of src (rc_ref_name c) \<and> new_target c \<noteq> old_target c"
      by (cases "map_of dest n") (auto split: if_splits)
  qed
  show "c \<in> set (md_del (diff_refs src dest)) \<longleftrightarrow>
      old_target c \<noteq> None \<and> old_target c = map_of dest (rc_ref_name c) \<and> new_target c = None \<and>
      map_of src (rc_ref_name c) = None"
    unfolding M by (cases "map_of dest (rc_ref_name c)"; cases c) (auto split: if_splits)
qed

text \<open>A name that differs is listed, under its own name.\<close>

lemma diff_refs_complete:
  assumes "smap_ok src" "smap_ok dest" "map_of src n \<noteq> map_of dest n"
  shows "\<exists>c \<in> set (md_add (diff_refs src dest)) \<union> set (md_update (diff_refs src dest)) \<union> set (md_del (diff_refs src dest)).
    rc_ref_name c = n \<and> (map_of src n \<noteq> None \<longrightarrow> c \<notin> set (md_del (diff_refs src dest)))"
proof -
  let ?c = "\<lparr>rc_ref_name = n, old_target = map_of dest n, new_target = map_of src n\<rparr>"
  have "?c \<in> set (md_add (diff_refs src dest)) \<union> set (md_update (diff_refs src dest)) \<union> set (md_del (diff_refs src dest))"
    using assms(3) by (auto simp: diff_refs_changes [OF assms(1,2)])
  moreover have "map_of src n \<noteq> None \<longrightarrow> ?c \<notin> set (md_del (diff_refs src dest))"
    by (simp add: diff_refs_changes [OF assms(1,2)])
  ultimately show ?thesis by (intro bexI [of _ ?c]) auto
qed

text \<open>C37: the difference that backup and restore report is exact: applied to the references of
  the destination it gives those of the source, every change names the old target, and it is
  empty only if both sides agree.\<close>

theorem diff_refs_patches:
  assumes "smap_ok src" "smap_ok dest"
  shows "apply_diff (diff_refs src dest) (map_of dest) = map_of src \<and>
    (MirrorDiff_in_sync (diff_refs src dest) \<longleftrightarrow> src = dest) \<and>
    (\<forall>c\<in>set (md_add (diff_refs src dest) @ md_update (diff_refs src dest) @ md_del (diff_refs src dest)).
       old_target c = map_of dest (rc_ref_name c))"
proof (intro conjI)
  let ?cs = "md_add (diff_refs src dest) @ md_update (diff_refs src dest) @ md_del (diff_refs src dest)"
  note C = diff_refs_changes [OF assms]
  show "apply_diff (diff_refs src dest) (map_of dest) = map_of src"
  proof
    fix n
    show "apply_diff (diff_refs src dest) (map_of dest) n = map_of src n"
    proof (cases "find (\<lambda>c. rc_ref_name c = n) ?cs")
      case None
      then have "map_of src n = map_of dest n"
        using diff_refs_complete [OF assms, of n] unfolding find_None_iff by auto
      with None show ?thesis by (simp add: apply_diff_def)
    next
      case (Some c)
      then have "c \<in> set ?cs" "rc_ref_name c = n" by (auto dest: find_Some_mem simp del: set_append)
      then have "new_target c = map_of src n" by (auto simp: C)
      with Some show ?thesis by (simp add: apply_diff_def)
    qed
  qed
  show "MirrorDiff_in_sync (diff_refs src dest) \<longleftrightarrow> src = dest"
  proof
    assume "MirrorDiff_in_sync (diff_refs src dest)"
    then have "map_of src n = map_of dest n" for n
      using diff_refs_complete [OF assms, of n] by (auto simp: MirrorDiff_in_sync_def)
    then show "src = dest" by (intro smap_eqI assms ext)
  next
    assume eq: "src = dest"
    have "set (md_add (diff_refs dest dest)) = {}" "set (md_update (diff_refs dest dest)) = {}"
        "set (md_del (diff_refs dest dest)) = {}"
      unfolding set_eq_iff diff_refs_changes [OF assms(2,2)] by auto
    then show "MirrorDiff_in_sync (diff_refs src dest)" by (simp add: MirrorDiff_in_sync_def eq)
  qed
  show "\<forall>c\<in>set ?cs. old_target c = map_of dest (rc_ref_name c)" by (auto simp: C)
qed

theorem diff_refs_patches_witness:
  "apply_diff (diff_refs [(''a'', ''1''), (''b'', ''2'')] [(''b'', ''3''), (''c'', ''4'')])
     (map_of [(''b'', ''3''), (''c'', ''4'')]) = map_of [(''a'', ''1''), (''b'', ''2'')]"
  using diff_refs_patches [of "[(''a'', ''1''), (''b'', ''2'')]" "[(''b'', ''3''), (''c'', ''4'')]"]
  by (simp add: smap_ok_def)


section \<open>Pushing and fetching\<close>

text \<open>
  What git documents of refspecs. \<open>+n:d\<close> makes \<open>d\<close> on the receiving side point to what \<open>n\<close> is on
  the sending side, \<open>:d\<close> deletes \<open>d\<close>, and no other reference changes. A name holds no colon,
  no caret and no line break.
\<close>

definition spec_name :: "string \<Rightarrow> bool" where
  "spec_name n \<longleftrightarrow> n \<noteq> [] \<and> n \<noteq> ''HEAD'' \<and> CHR '':'' \<notin> set n \<and> CHR ''^'' \<notin> set n \<and> nl \<notin> set n"

definition transferred :: "(string \<times> string) list \<Rightarrow> (string \<rightharpoonup> string) \<Rightarrow> (string \<rightharpoonup> string) \<Rightarrow> string \<rightharpoonup> string" where
  "transferred fs sender receiver d = (case map_of (map prod.swap fs) d of Some n \<Rightarrow> sender n | None \<Rightarrow> receiver d)"

locale git_transport =
  fixes G :: "('r, 'b) libgit2" and M :: "'r mirror_host" and i :: Inner
  assumes ref_names: "map_of (get_local_refs G M r i) n = Some v \<Longrightarrow> spec_name n"
      "map_of (get_remote_refs G M r url) n = Some v \<Longrightarrow> spec_name n"
    and init_repo: "git_repository_init M r p = Some r' \<Longrightarrow> p = local_path_from_url url \<Longrightarrow> p \<noteq> in_path i \<Longrightarrow>
      \<not> host_exists M r p \<Longrightarrow> get_local_refs G M r' i = get_local_refs G M r i \<and> get_remote_refs G M r' url = []"
    and push: "git_remote_push M r url (map (\<lambda>(n, d). force_spec n d) fs @ map delete_spec ds) = Some r' \<Longrightarrow>
      local_path_from_url url \<noteq> in_path i \<Longrightarrow> distinct (map snd fs @ ds) \<Longrightarrow>
      list_all spec_name (map fst fs @ map snd fs @ ds) \<Longrightarrow>
      (\<And>n. n \<in> fst ` set fs \<Longrightarrow> map_of (get_local_refs G M r i) n \<noteq> None) \<Longrightarrow>
      get_local_refs G M r' i = get_local_refs G M r i \<and>
      map_of (get_remote_refs G M r' url) =
        transferred fs (map_of (get_local_refs G M r i)) ((map_of (get_remote_refs G M r url)) |` (- set ds))"
    and fetch: "git_remote_fetch M r url (map (\<lambda>(n, d). force_spec n d) fs) = Some r' \<Longrightarrow>
      local_path_from_url url \<noteq> in_path i \<Longrightarrow> distinct (map snd fs) \<Longrightarrow>
      list_all spec_name (map fst fs @ map snd fs) \<Longrightarrow>
      (\<And>n. n \<in> fst ` set fs \<Longrightarrow> map_of (get_remote_refs G M r url) n \<noteq> None) \<Longrightarrow>
      map_of (get_local_refs G M r' i) =
        transferred fs (map_of (get_remote_refs G M r url)) (map_of (get_local_refs G M r i))"

lemma smap_ok_local: "smap_ok (get_local_refs G M r i)"
  by (simp add: get_local_refs_def smap_ok_refs)

lemma smap_ok_remote: "smap_ok (get_remote_refs G M r url)"
  by (auto simp: get_remote_refs_def smap_ok_refs ls_refs_def Let_def split: option.splits
      intro!: fold_keeps [where P = smap_ok])

lemma transferred_same:
  "distinct ns \<Longrightarrow> transferred (map (\<lambda>n. (n, n)) ns) sender receiver d = (if d \<in> set ns then sender d else receiver d)"
proof -
  have "map_of (map prod.swap (map (\<lambda>n. (n, n)) ns)) d = (if d \<in> set ns then Some d else None)"
    by (induction ns) auto
  then show ?thesis by (simp add: transferred_def)
qed

lemma auto_create_Inr:
  assumes "git_transport G M i" "auto_create_bare_repo G M url r = (Inr u, r')" "local_path_from_url url \<noteq> in_path i"
  shows "get_local_refs G M r' i = get_local_refs G M r i \<and> get_remote_refs G M r' url = get_remote_refs G M r url"
proof (cases "is_local_path url \<and> \<not> host_exists M r (local_path_from_url url)")
  case True
  then have "git_repository_init M r (local_path_from_url url) = Some r'"
    using assms(2) by (auto simp: auto_create_bare_repo_def outcome_iff)
  from git_transport.init_repo [OF assms(1) this refl assms(3)] True show ?thesis
    by (simp add: get_remote_refs_def)
next
  case False
  with assms(2) have "r' = r"
    by (cases "is_local_path url") (simp_all add: auto_create_bare_repo_def sbind_def)
  then show ?thesis by simp
qed

text \<open>When the kept part of a difference is empty, both sides agree on the names that were kept.\<close>

lemma in_sync_agree:
  assumes "smap_ok src" "smap_ok dest"
    "filter (\<lambda>c. rc_ref_name c \<in> N) (md_add (diff_refs src dest)) = []"
    "filter (\<lambda>c. rc_ref_name c \<in> N) (md_update (diff_refs src dest)) = []"
    "n \<in> N" "map_of src n \<noteq> None"
  shows "map_of dest n = map_of src n"
proof (rule ccontr)
  assume "map_of dest n \<noteq> map_of src n"
  with diff_refs_complete [OF assms(1,2), of n] assms(6) obtain c where
    "c \<in> set (md_add (diff_refs src dest)) \<union> set (md_update (diff_refs src dest))" "rc_ref_name c = n" by auto
  with assms(3-5) show False by (auto simp: filter_empty_conv)
qed

context git_transport
begin

lemma mirror_push_Inr:
  assumes "mirror_push G M url local_refs remote_refs r = (Inr u, r')" "local_refs = get_local_refs G M r i"
    "remote_refs = get_remote_refs G M r url" "local_path_from_url url \<noteq> in_path i"
  shows "get_local_refs G M r' i = get_local_refs G M r i \<and> get_remote_refs G M r' url = get_local_refs G M r i"
proof -
  let ?ns = "map fst local_refs"
  let ?ds = "map fst (filter (\<lambda>(n, sha). map_of local_refs n = None) remote_refs)"
  let ?fs = "map (\<lambda>n. (n, n)) ?ns"
  have ok: "smap_ok local_refs" "smap_ok remote_refs" by (simp_all add: assms(2,3) smap_ok_local smap_ok_remote)
  have p: "git_remote_push M r url (map (\<lambda>(n, d). force_spec n d) ?fs @ map delete_spec ?ds) = Some r'"
    using assms(1) by (simp add: mirror_push_def remote_push_def outcome_iff comp_def case_prod_unfold)
  have fs: "map fst ?fs = ?ns" "map snd ?fs = ?ns" by (simp_all add: comp_def)
  have L: "map_of local_refs n \<noteq> None" "spec_name n" if "n \<in> set ?ns" for n
  proof -
    from that show "map_of local_refs n \<noteq> None" by (simp add: map_of_eq_None_iff)
    then show "spec_name n" using ref_names(1) [of r n] by (auto simp: assms(2))
  qed
  have R: "map_of local_refs n = None" "spec_name n" if "n \<in> set ?ds" for n
  proof -
    from that obtain v where v: "(n, v) \<in> set remote_refs" "map_of local_refs n = None" by auto
    then show "map_of local_refs n = None" by simp
    from v(1) ok(2) have "map_of remote_refs n = Some v" by (simp add: smap_ok_def)
    then show "spec_name n" using ref_names(2) [of r url n] by (simp add: assms(3))
  qed
  have "distinct ?ns" "distinct ?ds" using ok by (simp_all add: smap_ok_def distinct_map_filter)
  then have dist: "distinct (map snd ?fs @ ?ds)"
    unfolding fs distinct_append using L(1) R(1) by blast
  have names: "list_all spec_name (map fst ?fs @ map snd ?fs @ ?ds)"
    unfolding fs list_all_iff set_append using L(2) R(2) by blast
  have "map_of (get_local_refs G M r i) n \<noteq> None" if "n \<in> fst ` set ?fs" for n
    using L(1) [of n] that unfolding set_map [symmetric] fs assms(2) [symmetric] by blast
  from push [OF p assms(4) dist names this]
  have P: "get_local_refs G M r' i = get_local_refs G M r i"
      "map_of (get_remote_refs G M r' url) = transferred ?fs (map_of local_refs) (map_of remote_refs |` (- set ?ds))"
    by (simp_all add: assms(2,3))
  have T: "transferred ?fs a b n = (if n \<in> set ?ns then a n else b n)" for a b n
    by (rule transferred_same) fact
  have "map_of (get_remote_refs G M r' url) n = map_of local_refs n" for n
  proof (cases "n \<in> set ?ns")
    case True
    then show ?thesis by (simp only: P(2) T if_True)
  next
    case False
    then have l: "map_of local_refs n = None" by (simp add: map_of_eq_None_iff)
    have "map_of remote_refs n = None" if "n \<notin> set ?ds"
    proof (rule ccontr)
      assume "map_of remote_refs n \<noteq> None"
      then obtain v where "(n, v) \<in> set remote_refs" using map_of_SomeD by fastforce
      with l that show False by force
    qed
    then have "(map_of remote_refs |` (- set ?ds)) n = None" by (auto simp only: restrict_map_def Compl_iff split: if_split)
    with l False show ?thesis by (simp only: P(2) T if_False)
  qed
  then have "get_remote_refs G M r' url = local_refs" by (intro smap_eqI smap_ok_remote ok(1) ext)
  with P(1) show ?thesis by (simp add: assms(2))
qed

lemma targeted_push_Inr:
  assumes "targeted_push G M url local_refs names [] r = (Inr u, r')" "local_refs = get_local_refs G M r i"
    "local_path_from_url url \<noteq> in_path i" "distinct names"
  shows "get_local_refs G M r' i = get_local_refs G M r i \<and>
    map_of (get_remote_refs G M r' url) n =
      (if n \<in> set names \<and> map_of local_refs n \<noteq> None then map_of local_refs n else map_of (get_remote_refs G M r url) n)"
proof -
  let ?ns = "filter (\<lambda>n. map_of local_refs n \<noteq> None) names"
  let ?fs = "map (\<lambda>n. (n, n)) ?ns"
  have p: "git_remote_push M r url (map (\<lambda>(n, d). force_spec n d) ?fs @ map delete_spec []) = Some r'"
    using assms(1) by (simp add: targeted_push_def remote_push_def outcome_iff comp_def)
  have dist: "distinct (map snd ?fs @ [])" using assms(4) by (simp add: comp_def)
  have names: "list_all spec_name (map fst ?fs @ map snd ?fs @ [])"
    using ref_names(1) by (auto simp: list_all_iff assms(2))
  have "map_of (get_local_refs G M r i) n \<noteq> None" if "n \<in> fst ` set ?fs" for n
    using that by (auto simp: assms(2))
  from push [OF p assms(3) dist names this] assms(2,4) show ?thesis
    by (auto simp: transferred_same restrict_map_def)
qed

lemma additive_fetch_Inr:
  assumes "additive_fetch G M url remote_refs refs [] r = (Inr u, r')" "remote_refs = get_remote_refs G M r url"
    "local_path_from_url url \<noteq> in_path i"
  shows "map_of (get_local_refs G M r' i) n =
    (case map_of (select_refs refs remote_refs) n of Some sha \<Rightarrow> Some sha | None \<Rightarrow> map_of (get_local_refs G M r i) n)"
proof (cases "select_refs refs remote_refs = []")
  case True
  with assms(1) show ?thesis by (simp add: additive_fetch_def Let_def)
next
  case False
  let ?sel = "select_refs refs remote_refs"
  let ?ns = "map fst ?sel"
  let ?fs = "map (\<lambda>n. (n, n)) ?ns"
  have ok: "smap_ok ?sel" by (simp add: assms(2) smap_ok_remote smap_ok_select)
  have p: "git_remote_fetch M r url (map (\<lambda>(n, d). force_spec n d) ?fs) = Some r'"
    using assms(1) False by (simp add: additive_fetch_def outcome_iff comp_def case_prod_unfold Let_def)
  have dist: "distinct (map snd ?fs)" using ok by (simp add: smap_ok_def comp_def)
  have dom: "map_of remote_refs n = map_of ?sel n" "map_of ?sel n \<noteq> None" if "n \<in> set ?ns" for n
  proof -
    from that show "map_of ?sel n \<noteq> None" by (simp add: map_of_eq_None_iff)
    then show "map_of remote_refs n = map_of ?sel n" by (auto simp: map_of_select split: if_splits)
  qed
  have some: "map_of (get_remote_refs G M r url) n \<noteq> None" if "n \<in> fst ` set ?fs" for n
  proof -
    have "map fst ?fs = ?ns" by (simp add: comp_def)
    with that have "n \<in> set ?ns" by (metis set_map)
    from dom [OF this] assms(2) show ?thesis by simp
  qed
  have "spec_name n" if "n \<in> set ?ns" for n
    using dom [OF that] ref_names(2) [of r url n] by (auto simp: assms(2))
  then have names: "list_all spec_name (map fst ?fs @ map snd ?fs)" by (simp add: list_all_iff comp_def)
  have "transferred ?fs (map_of remote_refs) (map_of (get_local_refs G M r i)) n =
      (if n \<in> set ?ns then map_of remote_refs n else map_of (get_local_refs G M r i) n)"
    using ok by (intro transferred_same) (simp add: smap_ok_def)
  also have "\<dots> = (case map_of ?sel n of Some sha \<Rightarrow> Some sha | None \<Rightarrow> map_of (get_local_refs G M r i) n)"
  proof (cases "n \<in> set ?ns")
    case True
    then show ?thesis using dom [OF True] by auto
  next
    case False
    then have "map_of ?sel n = None" by (simp add: map_of_eq_None_iff)
    with False show ?thesis by (simp del: set_map)
  qed
  finally show ?thesis using fetch [OF p assms(3) dist names some] assms(2) by simp
qed

end

lemma when_changed_Inr:
  assumes "when_changed False diff t r = (Inr d, r')"
  shows "d = diff \<and> (if MirrorDiff_in_sync diff then r' = r else t r = (Inr (), r'))"
  using assms by (auto simp: when_changed_def outcome_iff split: if_splits)

text \<open>The names a backup is about: all, or those the caller asked for.\<close>

definition backup_names :: "BackupOptions \<Rightarrow> string std_map \<Rightarrow> string \<Rightarrow> bool" where
  "backup_names opts local_refs n \<longleftrightarrow>
     bk_refs opts = [] \<or> n \<in> set (resolve_ref_names (bk_refs opts) local_refs) \<and> map_of local_refs n \<noteq> None"

text \<open>The two branches of \<^verbatim>\<open>backup\<close> to a repository: all references, or the named ones.\<close>

lemma backup_refs_full:
  assumes "git_transport G M i" "backup_refs G M i dest opts r = (Inr diff, r')" "\<not> bk_dry_run opts"
    "local_path_from_url dest \<noteq> in_path i" "bk_refs opts = []"
  shows "get_local_refs G M r' i = get_local_refs G M r i \<and> map_of (get_remote_refs G M r' dest) n =
    (if backup_names opts (get_local_refs G M r i) n then map_of (get_local_refs G M r i) n
     else map_of (get_remote_refs G M r dest) n)"
proof -
  let ?L = "get_local_refs G M r i" and ?R = "get_remote_refs G M r dest"
  from assms(2,3,5) have "when_changed False (diff_refs ?L ?R) (mirror_push G M dest ?L ?R) r = (Inr diff, r')"
    by (simp add: backup_refs_def)
  from when_changed_Inr [OF this] have w: "if MirrorDiff_in_sync (diff_refs ?L ?R) then r' = r
      else mirror_push G M dest ?L ?R r = (Inr (), r')" by simp
  show ?thesis
  proof (cases "MirrorDiff_in_sync (diff_refs ?L ?R)")
    case True
    then have "map_of ?L n = map_of ?R n"
      using diff_refs_complete [of ?L ?R n, OF smap_ok_local smap_ok_remote] by (auto simp: MirrorDiff_in_sync_def)
    with True w show ?thesis by simp
  next
    case False
    with w have "mirror_push G M dest ?L ?R r = (Inr (), r')" by simp
    from git_transport.mirror_push_Inr [OF assms(1) this refl refl assms(4)] assms(5) show ?thesis
      by (simp add: backup_names_def)
  qed
qed

lemma backup_refs_named:
  assumes "git_transport G M i" "backup_refs G M i dest opts r = (Inr diff, r')" "\<not> bk_dry_run opts"
    "local_path_from_url dest \<noteq> in_path i" "bk_refs opts \<noteq> []"
  shows "get_local_refs G M r' i = get_local_refs G M r i \<and> map_of (get_remote_refs G M r' dest) n =
    (if backup_names opts (get_local_refs G M r i) n then map_of (get_local_refs G M r i) n
     else map_of (get_remote_refs G M r dest) n)"
proof -
  let ?L = "get_local_refs G M r i" and ?R = "get_remote_refs G M r dest"
  let ?N = "resolve_ref_names (bk_refs opts) ?L"
  let ?d = "(keep_refs ?N (diff_refs ?L ?R))\<lparr>md_del := []\<rparr>"
  from assms(2,3,5) have "when_changed False ?d (targeted_push G M dest ?L ?N []) r = (Inr diff, r')"
    by (simp add: backup_refs_def Let_def)
  from when_changed_Inr [OF this] have w: "if MirrorDiff_in_sync ?d then r' = r
      else targeted_push G M dest ?L ?N [] r = (Inr (), r')" by simp
  show ?thesis
  proof (cases "MirrorDiff_in_sync ?d")
    case True
    have "map_of ?R n = map_of ?L n" if "n \<in> set ?N" "map_of ?L n \<noteq> None"
      by (rule in_sync_agree [OF smap_ok_local smap_ok_remote _ _ that])
        (use True in \<open>simp_all add: MirrorDiff_in_sync_def keep_refs_def\<close>)
    with True w assms(5) show ?thesis by (auto simp: backup_names_def)
  next
    case False
    have d: "distinct ?N" by (simp add: resolve_ref_names_def)
    from False w have "targeted_push G M dest ?L ?N [] r = (Inr (), r')" by simp
    from git_transport.targeted_push_Inr [OF assms(1) this refl assms(4) d, of n] assms(5) show ?thesis
      by (simp add: backup_names_def)
  qed
qed


text \<open>C32: a restore is additive. When a restore from another repository succeeds, and it was no
  dry run, every selected reference of the other repository is here with its target, and every
  other reference of this repository is as before: none is deleted.\<close>

theorem restore_additive:
  assumes "git_transport G M i" "restore G M i src opts r = (Inr diff, r')" "rs_ref_map opts = []"
    "rs_format opts \<noteq> ''bundle''" "\<not> is_bundle_path src" "\<not> rs_dry_run opts" "local_path_from_url src \<noteq> in_path i"
  shows "map_of (get_local_refs G M r' i) n =
    (case map_of (select_refs (rs_refs opts) (get_remote_refs G M r src)) n of
       Some sha \<Rightarrow> Some sha | None \<Rightarrow> map_of (get_local_refs G M r i) n)"
proof -
  let ?L = "get_local_refs G M r i" and ?R = "get_remote_refs G M r src"
  let ?d0 = "diff_refs ?R ?L"
  let ?N = "resolve_ref_names (rs_refs opts) ?R"
  let ?d = "(if rs_refs opts \<noteq> [] then keep_refs ?N ?d0 else ?d0)\<lparr>md_del := []\<rparr>"
  from assms(2-6) have "when_changed False ?d (additive_fetch G M src ?R (rs_refs opts) []) r = (Inr diff, r')"
    by (cases "reject_scp_url src") (simp_all add: restore_def sbind_def Let_def)
  from when_changed_Inr [OF this] have w: "if MirrorDiff_in_sync ?d then r' = r
      else additive_fetch G M src ?R (rs_refs opts) [] r = (Inr (), r')" by simp
  show ?thesis
  proof (cases "MirrorDiff_in_sync ?d")
    case True
    let ?S = "if rs_refs opts = [] then UNIV else set ?N"
    have "map_of ?L n = map_of ?R n" if "n \<in> ?S" "map_of ?R n \<noteq> None"
      by (rule in_sync_agree [OF smap_ok_remote smap_ok_local _ _ that])
        (use True in \<open>auto simp: MirrorDiff_in_sync_def keep_refs_def split: if_splits\<close>)
    with True w show ?thesis by (auto simp: map_of_select split: option.splits)
  next
    case False
    with w git_transport.additive_fetch_Inr [OF assms(1) _ refl assms(7)] show ?thesis by simp
  qed
qed


section \<open>Credentials\<close>

lemma run_cmd_cong: "host_popen M r c = host_popen M' r' c \<Longrightarrow> run_cmd M r c = run_cmd M' r' c"
  by (simp add: run_cmd_def)


text \<open>The inverse of the encoding.\<close>

definition hex_lookup :: "char \<Rightarrow> nat" where
  "hex_lookup c = (let n = of_char c :: nat in if n \<le> 57 then n - 48 else n - 55)"

fun percent_decode :: "string \<Rightarrow> string" where
  "percent_decode (c # s) =
     (case s of
        h # l # t \<Rightarrow> if c = CHR ''%'' then char_of (16 * hex_lookup h + hex_lookup l) # percent_decode t
                    else c # percent_decode s
      | _ \<Rightarrow> c # percent_decode s)"
| "percent_decode [] = []"

lemma hex_lookup_upper: "n < 16 \<Longrightarrow> hex_lookup (hex_upper n) = n"
proof -
  assume "n < 16"
  moreover have "\<forall>n\<in>{..<16}. hex_lookup (hex_upper n) = n"
    by (simp add: lessThan_nat_numeral lessThan_Suc hex_lookup_def hex_upper_def)
  ultimately show ?thesis by simp
qed

lemma percent_encode_Cons:
  "percent_encode (c # s) =
     (if is_alnum c \<or> c \<in> {CHR ''-'', CHR ''_'', CHR ''.'', CHR ''~''} then [c]
      else [CHR ''%'', hex_upper ((of_char c :: nat) div 16), hex_upper ((of_char c :: nat) mod 16)]) @ percent_encode s"
  by (simp add: percent_encode_def)

text \<open>Percent encoding loses nothing and needs no escaping itself: decoding gives the text
  back, and the encoded text holds letters, digits, \<^verbatim>\<open>-_.~\<close> and percent signs only, so user name
  and password cannot break out of the authority part of the URL.\<close>

lemma percent_encode_roundtrip:
  "percent_decode (percent_encode s) = s \<and>
   list_all (\<lambda>c. is_alnum c \<or> c \<in> {CHR ''-'', CHR ''_'', CHR ''.'', CHR ''~'', CHR ''%''}) (percent_encode s)"
proof (induction s)
  case Nil
  then show ?case by (simp add: percent_encode_def)
next
  case (Cons c s)
  let ?plain = "is_alnum c \<or> c \<in> {CHR ''-'', CHR ''_'', CHR ''.'', CHR ''~''}"
  show ?case
  proof (cases ?plain)
    case True
    then have "c \<noteq> CHR ''%''" by (auto simp: is_alnum_def)
    then have "percent_decode (c # percent_encode s) = c # percent_decode (percent_encode s)"
      by (auto split: list.split)
    with True Cons show ?thesis by (auto simp: percent_encode_Cons simp del: percent_decode.simps)
  next
    case False
    let ?n = "of_char c :: nat"
    have n: "?n div 16 < 16" "?n mod 16 < 16" by (rule less_mult_imp_div_less) simp_all
    have "\<forall>n\<in>{..<16}. is_alnum (hex_upper n)"
      by (simp add: lessThan_nat_numeral lessThan_Suc hex_upper_def is_alnum_def)
    with n have "is_alnum (hex_upper (?n div 16))" "is_alnum (hex_upper (?n mod 16))" by auto
    moreover have "char_of (16 * (?n div 16) + ?n mod 16) = c" by simp
    ultimately show ?thesis using False Cons n by (simp add: percent_encode_Cons hex_lookup_upper)
  qed
qed

end
