(* ===== verification/Vost_Mirror_Memory.thy ===== *)
theory Vost_Mirror_Memory
  imports Vost_Transport Vost_Git_Beside
begin

text \<open>
  A world in memory with files and other repositories next to the repository of \<open>Vost_Git_Memory\<close>.
  It satisfies the laws of bundles and of transport, and the witnesses run on it.
\<close>

section \<open>The world\<close>

record side =
  sd_files :: "(string \<times> byte list) list"
  sd_remotes :: "(string \<times> (string \<times> git_oid) list) list"

type_synonym world = "mem \<times> side"

definition mem_inner :: Inner where
  "mem_inner = \<lparr>in_path = ''/repo'', in_signature = default_signature\<rparr>"

definition own_refs :: "mem \<Rightarrow> (string \<times> git_oid) list" where
  "own_refs r = List.map_filter (\<lambda>(n, t). case t of Inl oid \<Rightarrow> Some (n, oid) | Inr _ \<Rightarrow> None) (m_refs r)"

definition refs_at :: "world \<Rightarrow> string \<Rightarrow> (string \<times> git_oid) list option" where
  "refs_at w p = (if p = ''/repo'' then Some (own_refs (fst w)) else map_of (sd_remotes (snd w)) p)"

text \<open>The entries a repository can hold: a well-formed name and an id that is not empty.\<close>

definition good_refs :: "(string \<times> git_oid) list \<Rightarrow> string \<Rightarrow> git_oid option" where
  "good_refs m n =
     (if spec_name n then case map_of m n of Some oid \<Rightarrow> if oid = [] then None else Some oid | None \<Rightarrow> None
      else None)"

definition set_assoc :: "string \<Rightarrow> 'v \<Rightarrow> (string \<times> 'v) list \<Rightarrow> (string \<times> 'v) list" where
  "set_assoc n v m = (n, v) # filter (\<lambda>x. fst x \<noteq> n) m"

text \<open>One refspec, with the references of the sender.\<close>

definition spec_source :: "string \<Rightarrow> string" where
  "spec_source s = takeWhile (\<lambda>c. c \<noteq> CHR '':'') (if s \<noteq> [] \<and> hd s = CHR ''+'' then tl s else s)"

definition spec_dest :: "string \<Rightarrow> string" where
  "spec_dest s = drop 1 (dropWhile (\<lambda>c. c \<noteq> CHR '':'') s)"

definition apply_spec :: "(string \<Rightarrow> git_oid option) \<Rightarrow> string \<Rightarrow> (string \<times> git_oid) list \<Rightarrow> (string \<times> git_oid) list" where
  "apply_spec sender s m =
     (if spec_source s = [] then filter (\<lambda>x. fst x \<noteq> spec_dest s) m
      else case sender (spec_source s) of Some oid \<Rightarrow> set_assoc (spec_dest s) oid m | None \<Rightarrow> m)"

definition mem_push :: "world \<Rightarrow> string \<Rightarrow> string list \<Rightarrow> world option" where
  "mem_push w url specs =
     (let p = local_path_from_url url in
      if \<not> is_local_path url \<or> p = ''/repo'' then None
      else case refs_at w p of
        None \<Rightarrow> None
      | Some m \<Rightarrow> Some (fst w, (snd w)\<lparr>sd_remotes :=
          set_assoc p (fold (apply_spec (good_refs (own_refs (fst w)))) specs m) (sd_remotes (snd w))\<rparr>))"

definition mem_fetch :: "world \<Rightarrow> string \<Rightarrow> string list \<Rightarrow> world option" where
  "mem_fetch w url specs =
     (let p = local_path_from_url url in
      if \<not> is_local_path url \<or> p = ''/repo'' then None
      else case refs_at w p of
        None \<Rightarrow> None
      | Some m \<Rightarrow> Some ((fst w)\<lparr>m_refs :=
          map (apsnd Inl) (fold (apply_spec (good_refs m)) specs (own_refs (fst w)))\<rparr>, snd w))"

definition mem_mirror :: "world mirror_host" where
  "mem_mirror = \<lparr>
     host_exists = (\<lambda>w p. refs_at w p \<noteq> None),
     git_repository_open_bare = (\<lambda>_ _. True),
     git_repository_init = (\<lambda>w p. if refs_at w p \<noteq> None then Some w
       else Some (fst w, (snd w)\<lparr>sd_remotes := set_assoc p [] (sd_remotes (snd w))\<rparr>)),
     git_repository_config = (\<lambda>_. True),
     git_config_set = (\<lambda>w _ _. w),
     git_commit_create_on = (\<lambda>_ _ _ _ _ _. None),
     weakly_canonical = (\<lambda>p. p),
     git_reference_is_branch = (\<lambda>ref. prefix ''refs/heads/'' (gref_name ref)),
     git_reference_shorthand = (\<lambda>ref. drop 11 (gref_name ref)),
     git_repository_odb = (\<lambda>_. True),
     git_odb_foreach = (\<lambda>_. Some []),
     git_packbuilder_new = (\<lambda>_. True),
     git_packbuilder_insert = (\<lambda>_ _. True),
     git_packbuilder_write = (\<lambda>w _ _. Some w),
     host_remove = (\<lambda>w _. w),
     git_reference_iterator = (\<lambda>w p. map_option (\<lambda>m. map (\<lambda>(n, oid). (n, good_refs m n)) m) (refs_at w p)),
     git_remote_create_anonymous = (\<lambda>_. is_local_path),
     git_remote_ls = (\<lambda>_ _. None),
     git_remote_push = mem_push,
     git_remote_fetch = mem_fetch,
     git_revwalk_new = (\<lambda>_. True),
     git_revwalk_push = (\<lambda>_ _. True),
     git_packbuilder_insert_walk = (\<lambda>_ _. True),
     git_packbuilder_write_buf = (\<lambda>_ _. Some (to_bytes ''PACK'')),
     git_repository_path = (\<lambda>_. ''/repo/''),
     git_indexer_new = (\<lambda>_ _. True),
     git_indexer_append = (\<lambda>_ _ _. True),
     git_indexer_commit = (\<lambda>w _ _. Some w),
     host_create_directories = (\<lambda>w _. w),
     host_read_file = (\<lambda>w p. map_of (sd_files (snd w)) p),
     host_open_out = (\<lambda>_ _. True),
     host_write_file = (\<lambda>w p d. (True, (fst w, (snd w)\<lparr>sd_files := set_assoc p d (sd_files (snd w))\<rparr>))),
     host_popen = (\<lambda>_ cmd. if prefix ''gh '' cmd then Some ''secret'' else None)\<rparr>"

lemma mem_mirror_sel [simp]:
  "host_exists mem_mirror w p \<longleftrightarrow> refs_at w p \<noteq> None"
  "git_repository_open_bare mem_mirror w p"
  "git_repository_init mem_mirror w p = (if refs_at w p \<noteq> None then Some w
       else Some (fst w, (snd w)\<lparr>sd_remotes := set_assoc p [] (sd_remotes (snd w))\<rparr>))"
  "git_reference_iterator mem_mirror w p = map_option (\<lambda>m. map (\<lambda>(n, oid). (n, good_refs m n)) m) (refs_at w p)"
  "git_remote_create_anonymous mem_mirror w url \<longleftrightarrow> is_local_path url"
  "git_remote_ls mem_mirror w url = None"
  "git_remote_push mem_mirror = mem_push"
  "git_remote_fetch mem_mirror = mem_fetch"
  "git_indexer_commit mem_mirror w p d = Some w"
  "host_create_directories mem_mirror w p = w"
  "host_read_file mem_mirror w p = map_of (sd_files (snd w)) p"
  "host_write_file mem_mirror w p d = (True, (fst w, (snd w)\<lparr>sd_files := set_assoc p d (sd_files (snd w))\<rparr>))"
  by (simp_all add: mem_mirror_def)


section \<open>The references it lists\<close>

lemma map_of_set_assoc [simp]: "map_of (set_assoc n v m) k = (if k = n then Some v else map_of m k)"
  by (simp add: set_assoc_def map_of_filter_keys [where P = "\<lambda>k. k \<noteq> n", unfolded case_prod_unfold])

lemma fold_refs:
  assumes "smap_ok acc" "\<And>n. L n \<noteq> None \<Longrightarrow> n \<noteq> ''HEAD''"
  shows "smap_ok (fold (\<lambda>(name, target) m. if name = ''HEAD'' then m
        else case target of Some oid \<Rightarrow> smap_set name (tostr oid) m | None \<Rightarrow> m) (map (\<lambda>(n, oid). (n, L n)) xs) acc) \<and>
    map_of (fold (\<lambda>(name, target) m. if name = ''HEAD'' then m
        else case target of Some oid \<Rightarrow> smap_set name (tostr oid) m | None \<Rightarrow> m) (map (\<lambda>(n, oid). (n, L n)) xs) acc) k =
      (if k \<in> fst ` set xs \<and> L k \<noteq> None then map_option tostr (L k) else map_of acc k)"
  using assms(1)
proof (induction xs arbitrary: acc)
  case (Cons x xs)
  obtain n v where x: "x = (n, v)" by fastforce
  let ?acc = "if n = ''HEAD'' then acc else case L n of Some oid \<Rightarrow> smap_set n (tostr oid) acc | None \<Rightarrow> acc"
  have ok: "smap_ok ?acc" using Cons.prems by (simp split: option.split)
  have "map_of ?acc k = (if k = n \<and> L k \<noteq> None then map_option tostr (L k) else map_of acc k)"
    using Cons.prems assms(2) [of n] by (auto simp: map_of_smap_set split: option.splits)
  with Cons.IH [OF ok] x show ?case by auto
qed simp

lemma good_refs_name: "good_refs m n \<noteq> None \<Longrightarrow> spec_name n \<and> n \<in> fst ` set m"
  using map_of_eq_None_iff [of m n] by (auto simp: good_refs_def split: if_splits option.splits)

lemma mem_refs:
  "map_of (get_refs_from_repo (beside mem_git) mem_mirror w p) n =
    (case refs_at w p of None \<Rightarrow> None | Some m \<Rightarrow> map_option hex_of_bytes (good_refs m n))"
proof (cases "refs_at w p")
  case (Some m)
  have "L \<noteq> None \<Longrightarrow> good_refs m n = L \<Longrightarrow> n \<noteq> ''HEAD''" for n L
    using good_refs_name [of m n] by (auto simp: spec_name_def)
  moreover have hex: "git_oid_tostr (beside mem_git) = hex_of_bytes" by (simp add: mem_git_sel)
  ultimately show ?thesis
    unfolding get_refs_from_repo_def hex
    using fold_refs [of "[]" "good_refs m" hex_of_bytes m n] good_refs_name [of m n] Some
    by (cases "good_refs m n") auto
qed (simp add: get_refs_from_repo_def)

lemma mem_local: "map_of (get_local_refs (beside mem_git) mem_mirror w mem_inner) n =
    map_option hex_of_bytes (good_refs (own_refs (fst w)) n)"
  by (simp add: get_local_refs_def mem_refs mem_inner_def refs_at_def)

lemma mem_remote: "map_of (get_remote_refs (beside mem_git) mem_mirror w url) n =
    (if is_local_path url
     then case refs_at w (local_path_from_url url) of None \<Rightarrow> None | Some m \<Rightarrow> map_option hex_of_bytes (good_refs m n)
     else None)"
proof -
  have "starts_with url ''file://'' \<Longrightarrow> is_local_path url"
    by (cases url) (auto simp: is_local_path_def starts_with_def)
  then show ?thesis by (auto simp: get_remote_refs_def mem_refs Let_def split: option.splits)
qed

section \<open>Refspecs\<close>

lemma spec_parts:
  assumes "CHR '':'' \<notin> set n"
  shows "spec_source (force_spec n d) = n" "spec_dest (force_spec n d) = d"
    "spec_source (delete_spec d) = []" "spec_dest (delete_spec d) = d"
  using assms by (simp_all add: spec_source_def spec_dest_def force_spec_def delete_spec_def
      takeWhile_append dropWhile_append takeWhile_absent dropWhile_absent)

lemma fold_force:
  assumes "list_all spec_name (map fst fs)" "distinct (map snd fs)" "\<And>n. n \<in> fst ` set fs \<Longrightarrow> S n \<noteq> None"
  shows "map_of (fold (apply_spec S) (map (\<lambda>(n, d). force_spec n d) fs) m) d =
    (case map_of (map prod.swap fs) d of Some n \<Rightarrow> S n | None \<Rightarrow> map_of m d)"
  using assms
proof (induction fs arbitrary: m)
  case (Cons x fs)
  obtain n e where x: "x = (n, e)" by fastforce
  from Cons.prems(3) [of n] x obtain oid where oid: "S n = Some oid" by auto
  have "n \<noteq> []" "CHR '':'' \<notin> set n" using Cons.prems(1) x by (auto simp: spec_name_def)
  then have step: "apply_spec S (force_spec n e) m = set_assoc e oid m"
    by (simp add: apply_spec_def spec_parts oid)
  have "map_of (map prod.swap fs) e = None" using Cons.prems(2) x by (force simp: map_of_eq_None_iff)
  with Cons.IH [of "set_assoc e oid m"] Cons.prems x oid step show ?case
    by (auto split: option.splits)
qed simp

lemma fold_delete:
  "map_of (fold (apply_spec S) (map delete_spec ds) m) d = (if d \<in> set ds then None else map_of m d)"
proof (induction ds arbitrary: m)
  case (Cons e ds)
  have "apply_spec S (delete_spec e) m = filter (\<lambda>x. fst x \<noteq> e) m"
    using spec_parts(3,4) [of "[]" e] by (simp add: apply_spec_def)
  with Cons [of "filter (\<lambda>x. fst x \<noteq> e) m"] show ?case
    by (auto simp: map_of_filter_keys [where P = "\<lambda>k. k \<noteq> e", unfolded case_prod_unfold])
qed simp

text \<open>The references of the receiver after the specs of a transfer.\<close>

lemma good_transferred:
  assumes "list_all spec_name (map fst fs @ map snd fs @ ds)" "distinct (map snd fs @ ds)"
    "\<And>n. n \<in> fst ` set fs \<Longrightarrow> good_refs s n \<noteq> None"
  shows "map_option hex_of_bytes (good_refs (fold (apply_spec (good_refs s))
      (map (\<lambda>(n, d). force_spec n d) fs @ map delete_spec ds) m) d) =
    transferred fs (\<lambda>n. map_option hex_of_bytes (good_refs s n))
      ((\<lambda>n. map_option hex_of_bytes (good_refs m n)) |` (- set ds)) d"
proof -
  have "map_of (fold (apply_spec (good_refs s)) (map (\<lambda>(n, d). force_spec n d) fs @ map delete_spec ds) m) d =
      (if d \<in> set ds then None else case map_of (map prod.swap fs) d of Some n \<Rightarrow> good_refs s n | None \<Rightarrow> map_of m d)"
    using fold_force [of fs "good_refs s" m d] assms by (simp add: fold_delete)
  note M = this
  show ?thesis
  proof (cases "map_of (map prod.swap fs) d")
    case None
    with M show ?thesis by (auto simp: good_refs_def transferred_def restrict_map_def)
  next
    case (Some n)
    then have "(n, d) \<in> set fs" by (auto dest: map_of_SomeD)
    then have "n \<in> fst ` set fs" "d \<in> set (map snd fs)" by force+
    with assms have "good_refs s n \<noteq> None" "spec_name d" "d \<notin> set ds" by (auto simp: list_all_iff)
    moreover from this(1) have "good_refs s n \<noteq> Some []" by (auto simp: good_refs_def split: if_splits option.splits)
    ultimately show ?thesis using M Some by (auto simp: good_refs_def [of "fold _ _ _"] transferred_def split: option.splits)
  qed
qed


section \<open>The laws hold\<close>

lemma hex_digit_set: "n < 16 \<Longrightarrow> hex_digit n \<in> set ''0123456789abcdef''"
proof -
  assume "n < 16"
  moreover have "list_all (\<lambda>n. hex_digit n \<in> set ''0123456789abcdef'') [0..<16]" by code_simp
  ultimately show ?thesis by (simp add: list_all_iff)
qed

lemma hex_of_bytes_set: "set (hex_of_bytes bs) \<subseteq> set ''0123456789abcdef''"
proof (induction bs)
  case (Cons b bs)
  have "unat b div 16 < 16" using unat_byte_less [of b] by simp
  then have "hex_digit (unat b div 16) \<in> set ''0123456789abcdef''" by (rule hex_digit_set)
  moreover have "hex_digit (unat b mod 16) \<in> set ''0123456789abcdef''" by (rule hex_digit_set) simp
  ultimately show ?case using Cons by (simp only: hex_of_bytes.simps list.set insert_subset)
qed simp

lemma good_refs_id: "good_refs m n = Some oid \<Longrightarrow> spec_name n \<and> oid \<noteq> []"
  by (auto simp: good_refs_def split: if_splits option.splits)

interpretation mem_bundles: git_bundles "beside mem_git" mem_mirror
proof (rule git_bundles.intro [OF memory.refdb_beside], unfold_locales, goal_cases)
  case (1 oid)
  then show ?case using hex_of_bytes_set by (simp only: beside_sel mem_git_sel)
next
  case (2 w p refs n oid)
  then obtain m where m: "refs = map (\<lambda>(n, oid). (n, good_refs m n)) m" by auto
  from 2(2) have "good_refs m n = Some oid" unfolding m by auto
  from good_refs_id [OF this] have "spec_name n" "oid \<noteq> []" by auto
  then show ?case by (cases oid) (auto simp: spec_name_def mem_git_sel)
qed auto

interpretation mem_transport: git_transport "beside mem_git" mem_mirror mem_inner
proof (unfold_locales, goal_cases)
  case (1 w n v)
  then show ?case by (auto simp: mem_local dest: good_refs_id)
next
  case (2 w url n v)
  then show ?case by (auto simp: mem_remote dest: good_refs_id split: if_splits option.splits)
next
  case (3 w p w' url)
  then have w': "w' = (fst w, (snd w)\<lparr>sd_remotes := set_assoc p [] (sd_remotes (snd w))\<rparr>)" and p: "p \<noteq> ''/repo''"
    by (auto simp: mem_inner_def)
  have "map_of (get_remote_refs (beside mem_git) mem_mirror w' url) n = None" for n
    using p 3(2) by (simp add: mem_remote w' refs_at_def good_refs_def)
  moreover have "get_local_refs (beside mem_git) mem_mirror w' mem_inner = get_local_refs (beside mem_git) mem_mirror w mem_inner"
    by (intro smap_eqI smap_ok_local ext) (simp add: mem_local w')
  ultimately show ?case by (metis list.exhaust map_of.simps(2) fun_upd_same option.distinct(1) surj_pair)
next
  case (4 w url fs ds w')
  let ?p = "local_path_from_url url" and ?s = "own_refs (fst w)"
  from 4(1,2) obtain m where u: "is_local_path url" "refs_at w ?p = Some m"
      and w': "w' = (fst w, (snd w)\<lparr>sd_remotes := set_assoc ?p
        (fold (apply_spec (good_refs ?s)) (map (\<lambda>(n, d). force_spec n d) fs @ map delete_spec ds) m) (sd_remotes (snd w))\<rparr>)"
    by (auto simp: mem_push_def Let_def split: if_splits option.splits)
  have s: "\<And>n. n \<in> fst ` set fs \<Longrightarrow> good_refs ?s n \<noteq> None" using 4(5) by (simp add: mem_local)
  have "get_local_refs (beside mem_git) mem_mirror w' mem_inner = get_local_refs (beside mem_git) mem_mirror w mem_inner"
    by (intro smap_eqI smap_ok_local ext) (simp add: mem_local w')
  moreover have "map_of (get_remote_refs (beside mem_git) mem_mirror w' url) = transferred fs
      (map_of (get_local_refs (beside mem_git) mem_mirror w mem_inner))
      (map_of (get_remote_refs (beside mem_git) mem_mirror w url) |` (- set ds))" (is "?l = ?r")
  proof
    fix d
    have "?p \<noteq> ''/repo''" using 4(2) by (simp add: mem_inner_def)
    then have "refs_at w' ?p = Some (fold (apply_spec (good_refs ?s)) (map (\<lambda>(n, d). force_spec n d) fs @ map delete_spec ds) m)"
      by (simp add: refs_at_def w')
    with good_transferred [OF 4(4,3) s, of m d] u show "?l d = ?r d"
      by (simp add: mem_remote mem_local [abs_def] restrict_map_def transferred_def split: option.split)
  qed
  ultimately show ?case ..
next
  case (5 w url fs w')
  let ?p = "local_path_from_url url" and ?m = "own_refs (fst w)"
  from 5(1,2) obtain s where u: "is_local_path url" "refs_at w ?p = Some s"
      and w': "w' = ((fst w)\<lparr>m_refs := map (apsnd Inl) (fold (apply_spec (good_refs s)) (map (\<lambda>(n, d). force_spec n d) fs) ?m)\<rparr>, snd w)"
    by (auto simp: mem_fetch_def Let_def split: if_splits option.splits)
  have s: "\<And>n. n \<in> fst ` set fs \<Longrightarrow> good_refs s n \<noteq> None" using 5(5) u by (simp add: mem_remote)
  have own: "own_refs (r\<lparr>m_refs := map (apsnd Inl) xs\<rparr>) = xs" for r xs
    by (induction xs) (auto simp: own_refs_def map_filter_def)
  show ?case
  proof
    fix d
    show "map_of (get_local_refs (beside mem_git) mem_mirror w' mem_inner) d = transferred fs
      (map_of (get_remote_refs (beside mem_git) mem_mirror w url))
      (map_of (get_local_refs (beside mem_git) mem_mirror w mem_inner)) d"
      using good_transferred [of fs "[]" s ?m d, OF _ _ s] 5(3,4) u
      by (simp add: mem_remote mem_local w' own restrict_map_def transferred_def split: option.split)
  qed
qed


section \<open>The properties on a concrete world\<close>

definition demo_side :: side where
  "demo_side = \<lparr>sd_files = [], sd_remotes = [(''/mirror'', [(''refs/heads/old'', mem_oid 0)])]\<rparr>"

definition demo_world :: world where
  "demo_world = (\<lparr>m_objs = [], m_refs = [(''refs/heads/main'', Inl (mem_oid 1))], m_logs = [], m_head = ''refs/heads/main''\<rparr>, demo_side)"

definition demo_backup :: BackupOptions where
  "demo_backup = \<lparr>bk_dry_run = False, bk_refs = [], bk_format = [], bk_ref_map = [], bk_squash = False\<rparr>"

definition demo_restore :: RestoreOptions where
  "demo_restore = \<lparr>rs_dry_run = False, rs_refs = [], rs_format = [], rs_ref_map = []\<rparr>"

lemma demo_backup_runs: "returned (backup (beside mem_git) mem_mirror mem_inner ''/mirror'' demo_backup demo_world)"
  by code_simp


lemma demo_restore_runs: "returned (restore (beside mem_git) mem_mirror mem_inner ''/mirror'' demo_restore demo_world)"
  by code_simp

theorem restore_additive_witness:
  "let w = snd (restore (beside mem_git) mem_mirror mem_inner ''/mirror'' demo_restore demo_world) in
   map_of (get_local_refs (beside mem_git) mem_mirror w mem_inner) ''refs/heads/old'' = Some ''01'' \<and>
   map_of (get_local_refs (beside mem_git) mem_mirror w mem_inner) ''refs/heads/main'' = Some ''0101''"
proof -
  from demo_restore_runs obtain d w where
      b: "restore (beside mem_git) mem_mirror mem_inner ''/mirror'' demo_restore demo_world = (Inr d, w)"
    by (rule returnedE)
  have p: "\<not> is_bundle_path ''/mirror''" "local_path_from_url ''/mirror'' \<noteq> in_path mem_inner" by code_simp+
  have l: "map_of (select_refs [] (get_remote_refs (beside mem_git) mem_mirror demo_world ''/mirror'')) ''refs/heads/old'' = Some ''01''"
    "map_of (select_refs [] (get_remote_refs (beside mem_git) mem_mirror demo_world ''/mirror'')) ''refs/heads/main'' = None"
    "map_of (get_local_refs (beside mem_git) mem_mirror demo_world mem_inner) ''refs/heads/main'' = Some ''0101''" by code_simp+
  have o: "rs_ref_map demo_restore = []" "rs_format demo_restore \<noteq> ''bundle''" "\<not> rs_dry_run demo_restore" "rs_refs demo_restore = []"
    by (simp_all add: demo_restore_def)
  note R = restore_additive [OF mem_transport.git_transport_axioms b o(1,2) p(1) o(3) p(2)]
  show ?thesis using R [of "''refs/heads/old''"] R [of "''refs/heads/main''"] l o(4) by (simp add: b)
qed

lemma demo_export_runs:
  "returned (bundle_export (beside mem_git) mem_mirror mem_inner ''/b'' [] [] False demo_world)"
  "returned (bundle_import (beside mem_git) mem_mirror ''/b'' [] []
     (snd (bundle_export (beside mem_git) mem_mirror mem_inner ''/b'' [] [] False demo_world)))"
  by code_simp+



end
