(* ===== verification/Vost_Concurrent.thy ===== *)
theory Vost_Concurrent
  imports Vost_Timeline Vost_GitStore Vost_Lock
begin

text \<open>
  Many processes on one repository. A run is a sequence of operations, each by some process on
  a snapshot that some process holds, in any order: every operation takes the repository lock
  and compares the branch with its snapshot inside it, so an interleaving is a sequence of
  whole operations, with the reads in between. Three consequences: snapshots never go bad, no
  commit that returned is lost, and \<^verbatim>\<open>retry_write\<close> gives up only when somebody else made progress
  six times.
\<close>

section \<open>Runs\<close>

definition new_snapshots :: "Fs res \<Rightarrow> Fs list" where
  "new_snapshots res = (case res of Inr fs \<Rightarrow> [fs] | Inl _ \<Rightarrow> [])"

text \<open>
  One step of some process: the repository and the snapshots in use. \<open>step_other\<close> is any other
  change of the repository that keeps its objects: setting and deleting references, notes,
  packing, imports, operations of programs other than this one.
\<close>

inductive vost_step :: "('r, 'b) libgit2 \<Rightarrow> 'r \<times> Fs list \<Rightarrow> 'r \<times> Fs list \<Rightarrow> bool" for G where
  step_get: "refdict_get G r d name = Inr fs \<Longrightarrow> vost_step G (r, S) (r, fs # S)"
| step_commit: "fs \<in> set S \<Longrightarrow> commit_changes G fs writes removes msg report extra r = (res, r') \<Longrightarrow>
    vost_step G (r, S) (r', new_snapshots res @ S)"
| step_undo: "fs \<in> set S \<Longrightarrow> undo_fs G fs n r = (res, r') \<Longrightarrow> vost_step G (r, S) (r', new_snapshots res @ S)"
| step_redo: "fs \<in> set S \<Longrightarrow> redo_fs G fs n r = (res, r') \<Longrightarrow> vost_step G (r, S) (r', new_snapshots res @ S)"
| step_parent: "fs \<in> set S \<Longrightarrow> parent G r fs = Inr (Some p) \<Longrightarrow> vost_step G (r, S) (r, p # S)"
| step_squash: "fs \<in> set S \<Longrightarrow> squash G fs p msg r = (res, r') \<Longrightarrow> vost_step G (r, S) (r', new_snapshots res @ S)"
| step_other: "git_extends G r r' \<Longrightarrow> vost_step G (r, S) (r', S)"

text \<open>
  The commits of all processes to one branch: \<open>log\<close> lists those that returned, newest first, with
  their changes and the snapshot returned. A commit may be refused, and whatever else happens
  may change everything but this branch.
\<close>

type_synonym commit_record = "tree_write list \<times> string list \<times> Fs"

inductive commit_run :: "('r, 'b) libgit2 \<Rightarrow> string \<Rightarrow> 'r \<Rightarrow> commit_record list \<Rightarrow> 'r \<Rightarrow> bool"
  for G ref r where
  run_start: "commit_run G ref r [] r"
| run_commit: "commit_run G ref r log r1 \<Longrightarrow> fs_valid G r1 fs \<Longrightarrow> ref_name fs = Some ref \<Longrightarrow>
    commit_changes G fs writes removes msg report extra r1 = (Inr fs', r2) \<Longrightarrow>
    commit_run G ref r ((writes, removes, fs') # log) r2"
| run_refused: "commit_run G ref r log r1 \<Longrightarrow>
    commit_changes G fs writes removes msg report extra r1 = (Inl e, r2) \<Longrightarrow> commit_run G ref r log r2"
| run_other: "commit_run G ref r log r1 \<Longrightarrow> git_extends G r1 r2 \<Longrightarrow>
    git_reference_lookup G r2 (branch_ref ref) = git_reference_lookup G r1 (branch_ref ref) \<Longrightarrow>
    commit_run G ref r log r2"

text \<open>The changes of the log applied one after another, oldest first.\<close>

definition apply_log :: "commit_record list \<Rightarrow> (string list \<Rightarrow> node option) \<Rightarrow> string list \<Rightarrow> node option" where
  "apply_log log old = foldr (\<lambda>(writes, removes, fs). apply_changes writes removes) log old"

section \<open>Snapshots stay valid\<close>

context git_refdb
begin

lemma refdict_get_valid: "refdict_get G r d name = Inr fs \<Longrightarrow> fs_valid G r fs"
  by (auto simp: refdict_get_def outcome_iff fs_valid_def make_fs_def oid_to_hex_def split: option.splits)

lemma undo_extends: "undo_fs G fs n r = (res, r') \<Longrightarrow> git_extends G r r' \<and> (fs_valid G r fs \<longrightarrow>
    list_all (fs_valid G r') (new_snapshots res))"
proof (cases res)
  case (Inl e)
  assume "undo_fs G fs n r = (res, r')"
  with Inl undo_Inl [of fs n r e r'] show ?thesis by (auto simp: new_snapshots_def)
next
  case (Inr fs')
  assume u: "undo_fs G fs n r = (res, r')"
  show ?thesis
  proof (cases "n = 0")
    case True
    with u Inr show ?thesis by (auto simp: undo_fs_def outcome_iff new_snapshots_def split: if_splits)
  next
    case False
    with u Inr undo_Inr [of fs n r fs' r'] undo_valid [of fs n r fs' r'] show ?thesis
      by (auto simp: new_snapshots_def moved_def dest: git_moves_extends)
  qed
qed

lemma redo_extends: "redo_fs G fs n r = (res, r') \<Longrightarrow> git_extends G r r' \<and> (fs_valid G r fs \<longrightarrow>
    list_all (fs_valid G r') (new_snapshots res))"
proof (cases res)
  case (Inl e)
  assume "redo_fs G fs n r = (res, r')"
  with Inl redo_Inl [of fs n r e r'] show ?thesis by (auto simp: new_snapshots_def)
next
  case (Inr fs')
  assume u: "redo_fs G fs n r = (res, r')"
  show ?thesis
  proof (cases "n = 0")
    case True
    with u Inr show ?thesis by (auto simp: redo_fs_def outcome_iff new_snapshots_def split: if_splits)
  next
    case False
    with u Inr redo_Inr [of fs n r fs' r'] redo_valid [of fs n r fs' r'] show ?thesis
      by (auto simp: new_snapshots_def moved_def dest: git_moves_extends)
  qed
qed

lemma commit_extends: "commit_changes G fs writes removes msg report extra r = (res, r') \<Longrightarrow>
    git_extends G r r' \<and> list_all (fs_valid G r') (new_snapshots res)"
  using keepsD [OF keeps_commit_changes, of fs writes removes msg report extra r res r']
    fs_valid_committed [OF commit_changes_Inr, of fs writes removes msg report extra r _ r']
  by (cases res) (auto simp: new_snapshots_def)

lemma squash_extends: "squash G fs p msg r = (res, r') \<Longrightarrow>
    git_extends G r r' \<and> (fs_valid G r fs \<longrightarrow> list_all (fs_valid G r') (new_snapshots res))"
  using squash_valid [of fs p msg r _ r']
  by (cases res) (auto simp: squash_def outcome_iff sbind_Inl_iff new_snapshots_def
      dest!: keepsD [OF keeps_write_commit] git_adds_extends split: if_splits option.splits)

lemma all_valid_extends: "git_extends G r r' \<Longrightarrow> list_all (fs_valid G r) S \<Longrightarrow> list_all (fs_valid G r') S"
  by (auto simp: list_all_iff intro: fs_valid_extends)

lemma vost_step_valid:
  assumes "vost_step G (r, S) (r', S')"
  shows "git_extends G r r' \<and> (list_all (fs_valid G r) S \<longrightarrow> list_all (fs_valid G r') S')"
proof -
  have held: "fs_valid G r fs" if "fs \<in> set S" "list_all (fs_valid G r) S" for fs
    using that by (simp add: list_all_iff)
  from assms show ?thesis
  proof cases
    case (step_get d name fs)
    with refdict_get_valid [OF step_get(3)] show ?thesis by simp
  next
    case (step_commit fs writes removes msg report extra res)
    with commit_extends [OF step_commit(3)] all_valid_extends show ?thesis by auto
  next
    case (step_undo fs n res)
    with undo_extends [OF step_undo(3)] all_valid_extends held show ?thesis by auto
  next
    case (step_redo fs n res)
    with redo_extends [OF step_redo(3)] all_valid_extends held show ?thesis by auto
  next
    case (step_parent fs p)
    with parent_valid [OF step_parent(4)] show ?thesis by simp
  next
    case (step_squash fs p msg res)
    with squash_extends [OF step_squash(3)] all_valid_extends held show ?thesis by auto
  next
    case step_other
    with all_valid_extends show ?thesis by simp
  qed
qed

lemma vost_run_valid:
  assumes "(vost_step G)\<^sup>*\<^sup>* (r, S) (r', S')"
  shows "git_extends G r r' \<and> (list_all (fs_valid G r) S \<longrightarrow> list_all (fs_valid G r') S')"
  using assms
proof (induction rule: rtranclp_induct2)
  case (step r1 S1 r2 S2)
  with vost_step_valid [OF step.hyps(2)] show ?case by (blast intro: git_extends_trans)
qed simp

end

section \<open>No commit is lost\<close>

lemma apply_log_Cons: "apply_log ((ws, rms, fs) # log) old = apply_changes ws rms (apply_log log old)"
  by (simp add: apply_log_def)

text \<open>A branch is a direct reference to a commit.\<close>

definition branch_at :: "('r, 'b) libgit2 \<Rightarrow> string \<Rightarrow> 'r \<Rightarrow> git_oid \<Rightarrow> bool" where
  "branch_at G ref r oid \<longleftrightarrow> git_commit_lookup G r oid \<noteq> None \<and>
     git_reference_lookup G r (branch_ref ref) = Some \<lparr>gref_name = branch_ref ref, gref_target = Inl oid\<rparr>"

text \<open>The nodes below the tip of a branch.\<close>

definition tip_node :: "('r, 'b) libgit2 \<Rightarrow> 'r \<Rightarrow> git_oid \<Rightarrow> string list \<Rightarrow> node option res" where
  "tip_node G r oid p = (case git_commit_lookup G r oid of
     None \<Rightarrow> Inr None
   | Some c \<Rightarrow> fs_node G r (make_fs \<lparr>in_path = [], in_signature = default_signature\<rparr> (git_oid_tostr G oid)
       (git_oid_tostr G (gc_tree c)) None False None) p)"

text \<open>What holds along a run that started with the tip \<open>tip0\<close> and the history \<open>hs\<close>.\<close>

definition run_ok :: "('r, 'b) libgit2 \<Rightarrow> string \<Rightarrow> 'r \<Rightarrow> (string \<times> CommitMeta) list \<Rightarrow> git_oid \<Rightarrow> (string list \<Rightarrow> node option) \<Rightarrow>
    string list \<Rightarrow> commit_record list \<Rightarrow> 'r \<Rightarrow> bool" where
  "run_ok G ref r hs tip0 old p log r' \<longleftrightarrow> (\<exists>tip hs'. branch_at G ref r' tip \<and>
     history G r' (git_oid_tostr G tip) (hs' @ hs) \<and>
     map fst hs' = map (\<lambda>(writes, removes, fs'). commit_oid_hex fs') log \<and>
     ((\<forall>(writes, removes, fs')\<in>set log. settled writes removes) \<longrightarrow> p \<noteq> [] \<longrightarrow>
        tip_node G r tip0 p = Inr (old p) \<longrightarrow> tip_node G r' tip p = Inr (apply_log log old p)))"

context git_refdb
begin

lemma branch_at_tip: "branch_at G ref r oid \<Longrightarrow> branch_tip G r ref = Some oid"
  unfolding branch_at_def by (blast intro: branch_tip_moved)

lemma branch_at_extends:
  "git_extends G r r' \<Longrightarrow> git_reference_lookup G r' (branch_ref ref) = git_reference_lookup G r (branch_ref ref) \<Longrightarrow>
    branch_at G ref r oid \<Longrightarrow> branch_at G ref r' oid"
  by (auto simp: branch_at_def dest: git_extends_commit)

lemma commit_changes_branch_at:
  assumes "commit_changes G fs writes removes msg report extra r = (Inr fs', r')" "ref_name fs = Some ref"
  shows "\<exists>oid. branch_at G ref r' oid \<and> commit_oid_hex fs' = git_oid_tostr G oid"
proof -
  from assms obtain ch th where "commit_body G fs ref writes removes msg extra r = (Inr (ch, th), r')"
      and fs': "commit_oid_hex fs' = ch"
    by (auto simp: commit_changes_def outcome_iff require_writable_def make_fs_def
        dest!: with_repo_lock_Inr split: if_splits)
  from commit_body_Inr [OF this(1)] obtain oid where "ch = git_oid_tostr G oid"
      "git_reference_lookup G r' (branch_ref ref) = Some \<lparr>gref_name = branch_ref ref, gref_target = Inl oid\<rparr>" by blast
  moreover from commit_changes_Inr [OF assms(1)] fs' \<open>ch = _\<close> have "git_commit_lookup G r' oid \<noteq> None"
    by (auto simp: committed_def)
  ultimately show ?thesis using fs' by (auto simp: branch_at_def)
qed

text \<open>A snapshot read from a branch.\<close>

lemma refdict_get_at:
  assumes "branch_at G ref r oid"
  shows "\<exists>c. git_commit_lookup G r oid = Some c \<and> refdict_get G r (branches i) ref =
    Inr (make_fs i (git_oid_tostr G oid) (git_oid_tostr G (gc_tree c)) (Some ref) True None)"
  using assms reference_peel [of r oid] by (auto simp: branch_at_def refdict_get_def branches_def branch_ref_def
      require_ok_def oid_to_hex_def)

lemma read_commit_extends: "git_extends G r r' \<Longrightarrow> read_commit G r h = Inr meta \<Longrightarrow> read_commit G r' h = Inr meta"
  by (auto simp: read_commit_def outcome_iff dest: git_extends_commit)

lemma history_extends: "history G r h hs \<Longrightarrow> git_extends G r r' \<Longrightarrow> history G r' h hs"
  by (induction rule: history.induct) (auto intro: history.intros read_commit_extends)

text \<open>One commit on a branch: the snapshot was the tip, and the history grows by one commit.\<close>

lemma committed_history:
  assumes "commit_changes G fs writes removes msg report extra r = (Inr fs', r')" "ref_name fs = Some ref"
    "branch_at G ref r tip" "history G r (git_oid_tostr G tip) hs"
  shows "\<exists>meta. commit_oid_hex fs = git_oid_tostr G tip \<and>
    history G r' (commit_oid_hex fs') ((commit_oid_hex fs', meta) # hs)"
proof -
  from assms(3) obtain c0 where tip: "branch_tip G r ref = Some tip" "git_commit_lookup G r tip = Some c0"
    using branch_at_tip by (auto simp: branch_at_def)
  with commit_changes_Inr [OF assms(1)] assms(2) obtain coid c where
      c: "commit_oid_hex fs = git_oid_tostr G tip" "commit_oid_hex fs' = git_oid_tostr G coid"
        "git_commit_lookup G r' coid = Some c" "git_extends G r r'"
      and ps: "list_all2 (\<lambda>p q. git_oid_fromstr G p = Some q)
          (filter (\<lambda>h. h \<noteq> []) (commit_oid_hex fs # extra)) (gc_parents c)"
    unfolding committed_def by (auto simp del: filter.simps)
  have "commit_oid_hex fs \<noteq> []" using commit_not_null [OF tip(2)] c(1) by simp
  with ps c(1) obtain qs where par: "gc_parents c = tip # qs"
    by (auto simp: list_all2_Cons1 oid_roundtrip)
  obtain meta where "read_commit G r' (commit_oid_hex fs') = Inr meta"
      "cm_parent_oid_hex meta = git_oid_tostr G tip"
    using c(2,3) par by (simp add: read_commit_def hex_to_oid_def oid_roundtrip require_ok_def oid_to_hex_def)
  moreover have "commit_oid_hex fs' \<noteq> []" using commit_not_null [OF c(3)] c(2) by simp
  ultimately have "history G r' (commit_oid_hex fs') ((commit_oid_hex fs', meta) # hs)"
    using history_extends [OF assms(4) c(4)] by (auto intro: history.intros)
  with c(1) show ?thesis by blast
qed

lemma fs_node_tip:
  assumes "fs_valid G r fs" "commit_oid_hex fs = git_oid_tostr G oid" "git_commit_lookup G r oid \<noteq> None"
  shows "fs_node G r fs p = tip_node G r oid p"
  using assms commit_not_null by (auto simp: fs_valid_def fs_node_def tip_node_def make_fs_def)

lemma branch_at_of_get:
  assumes "git_reference_lookup G r (branch_ref ref) = Some \<lparr>gref_name = branch_ref ref, gref_target = Inl oid\<rparr>"
    "refdict_get G r (branches i) ref = Inr fs" "git_commit_lookup G r oid \<noteq> None"
  shows "branch_at G ref r oid \<and> commit_oid_hex fs = git_oid_tostr G oid \<and> fs_node G r fs p = tip_node G r oid p"
proof -
  have at1: "branch_at G ref r oid" using assms(1,3) by (simp add: branch_at_def)
  from refdict_get_at [OF at1, of i] assms(2) have "commit_oid_hex fs = git_oid_tostr G oid"
    by (auto simp: make_fs_def)
  with at1 fs_node_tip [OF refdict_get_valid [OF assms(2)] _ assms(3)] show ?thesis by simp
qed

lemma get_of_branch_at:
  assumes "branch_at G ref r oid"
  shows "\<exists>fs. refdict_get G r (branches i) ref = Inr fs \<and> commit_oid_hex fs = git_oid_tostr G oid \<and>
    (\<forall>p. fs_node G r fs p = tip_node G r oid p)"
proof -
  from refdict_get_at [OF assms, of i] obtain fs where fs: "refdict_get G r (branches i) ref = Inr fs"
      "commit_oid_hex fs = git_oid_tostr G oid" by (auto simp: make_fs_def)
  with fs_node_tip [OF refdict_get_valid [OF fs(1)] fs(2)] assms show ?thesis by (auto simp: branch_at_def)
qed

lemma run_ok_start:
  "branch_at G ref r tip \<Longrightarrow> history G r (git_oid_tostr G tip) hs \<Longrightarrow> run_ok G ref r hs tip old p [] r"
  by (auto simp: run_ok_def apply_log_def intro!: exI [of _ tip])

lemma tip_node_extends:
  "git_extends G r r' \<Longrightarrow> git_commit_lookup G r oid \<noteq> None \<Longrightarrow> p \<noteq> [] \<Longrightarrow>
    tip_node G r oid p = Inr x \<Longrightarrow> tip_node G r' oid p = Inr x"
  by (auto simp: tip_node_def git_extends_commit fs_node_extends split: option.splits)

lemma run_ok_same:
  assumes "run_ok G ref r hs tip0 old p log r1" "git_extends G r1 r2"
    "git_reference_lookup G r2 (branch_ref ref) = git_reference_lookup G r1 (branch_ref ref)"
  shows "run_ok G ref r hs tip0 old p log r2"
proof -
  from assms(1) obtain tip hs' where t: "branch_at G ref r1 tip" "history G r1 (git_oid_tostr G tip) (hs' @ hs)"
      "map fst hs' = map (\<lambda>(writes, removes, fs'). commit_oid_hex fs') log"
      "(\<forall>(writes, removes, fs')\<in>set log. settled writes removes) \<longrightarrow> p \<noteq> [] \<longrightarrow>
        tip_node G r tip0 p = Inr (old p) \<longrightarrow> tip_node G r1 tip p = Inr (apply_log log old p)"
    unfolding run_ok_def by blast
  have "git_commit_lookup G r1 tip \<noteq> None" using t(1) by (simp add: branch_at_def)
  with t branch_at_extends [OF assms(2,3) t(1)] history_extends [OF t(2) assms(2)] tip_node_extends [OF assms(2)]
  show ?thesis unfolding run_ok_def by blast
qed

lemma run_ok_commit:
  assumes "run_ok G ref r hs tip0 old p log r1" "fs_valid G r1 fs" "ref_name fs = Some ref"
    "commit_changes G fs writes removes msg report extra r1 = (Inr fs', r2)"
  shows "run_ok G ref r hs tip0 old p ((writes, removes, fs') # log) r2"
proof -
  from assms(1) obtain tip hs' where t: "branch_at G ref r1 tip" "history G r1 (git_oid_tostr G tip) (hs' @ hs)"
      "map fst hs' = map (\<lambda>(writes, removes, fs'). commit_oid_hex fs') log"
      and nd: "(\<forall>(writes, removes, fs')\<in>set log. settled writes removes) \<longrightarrow> p \<noteq> [] \<longrightarrow>
        tip_node G r tip0 p = Inr (old p) \<longrightarrow> tip_node G r1 tip p = Inr (apply_log log old p)"
    unfolding run_ok_def by blast
  note C = commit_changes_Inr [OF assms(4)]
  from committed_history [OF assms(4,3) t(1,2)] obtain meta where
      h: "commit_oid_hex fs = git_oid_tostr G tip"
        "history G r2 (commit_oid_hex fs') ((commit_oid_hex fs', meta) # hs' @ hs)" by blast
  from commit_changes_branch_at [OF assms(4,3)] obtain new where
      n: "branch_at G ref r2 new" "commit_oid_hex fs' = git_oid_tostr G new" by blast
  have before: "fs_node G r1 fs p = tip_node G r1 tip p"
    using fs_node_tip [OF assms(2) h(1)] t(1) by (simp add: branch_at_def)
  have after: "fs_node G r2 fs' p = tip_node G r2 new p"
    using fs_node_tip [OF fs_valid_committed [OF C] n(2)] n(1) by (simp add: branch_at_def)
  have "tip_node G r2 new p = Inr (apply_log ((writes, removes, fs') # log) old p)"
    if "settled writes removes" "\<forall>(writes, removes, fs')\<in>set log. settled writes removes" "p \<noteq> []"
      "tip_node G r tip0 p = Inr (old p)"
    using committed_node [where old = "apply_log log old", OF C that(1,3)] nd that before after
    by (simp add: apply_log_Cons)
  with t(3) h(2) n show ?thesis
    unfolding run_ok_def by (intro exI [of _ new] exI [of _ "(commit_oid_hex fs', meta) # hs'"]) auto
qed

lemma commit_run_ok:
  assumes "commit_run G ref r log r'" "branch_at G ref r tip" "history G r (git_oid_tostr G tip) hs"
  shows "run_ok G ref r hs tip old p log r'"
  using assms(1)
proof induction
  case run_start
  from run_ok_start [OF assms(2,3)] show ?case .
next
  case (run_commit log r1 fs writes removes msg report extra fs' r2)
  from run_ok_commit [OF run_commit.IH run_commit.hyps(2-4)] show ?case .
next
  case (run_refused log r1 fs writes removes msg report extra e r2)
  from commit_changes_Inl [OF run_refused.hyps(2)] show ?case
    by (intro run_ok_same [OF run_refused.IH]) (auto dest: git_adds_extends git_adds_reference)
next
  case (run_other log r1 r2)
  from run_ok_same [OF run_other.IH run_other.hyps(2,3)] show ?case .
qed

end

section \<open>Retrying\<close>

text \<open>
  The use of \<^verbatim>\<open>retry_write\<close> that its documentation gives: read the branch, then write on the
  snapshot. Between the two other processes may change the world; \<open>other\<close> is what they do.
\<close>

definition fetch_and_write :: "('r, 'b) libgit2 \<Rightarrow> Inner \<Rightarrow> string \<Rightarrow> ('r \<Rightarrow> 'r) \<Rightarrow> string \<Rightarrow> string \<Rightarrow> WriteOptions \<Rightarrow> ('r, Fs) vop" where
  "fetch_and_write G i branch other path text opts =
     sbind (sread (\<lambda>r. refdict_get G r (branches i) branch)) (\<lambda>fs.
     sbind (\<lambda>r. (Inr (), other r)) (\<lambda>_. write_text G fs path text opts))"

text \<open>The world at the start of each attempt, as long as every attempt before threw.\<close>

fun attempt_world :: "(nat \<Rightarrow> 'r \<Rightarrow> 'r) \<Rightarrow> ('r, 'a) vop \<Rightarrow> nat \<Rightarrow> 'r \<Rightarrow> 'r" where
  "attempt_world sleep f 0 r = r"
| "attempt_world sleep f (Suc k) r = (let r1 = attempt_world sleep f k r in sleep (retry_delay k) (snd (f r1)))"

definition is_stale :: "verror + 'a \<Rightarrow> bool" where
  "is_stale res \<longleftrightarrow> (\<exists>m. res = Inl (StaleSnapshotError m))"

lemma retry_write_stale:
  assumes "retry_write sleep f k (attempt_world sleep f k r) = (res, r', ds)" "k \<le> 5"
  shows "length ds \<le> 5 - k \<and> sum_list ds \<le> sum_list (map retry_delay [k..<5]) \<and>
    (is_stale res \<longrightarrow> (\<forall>j. k \<le> j \<longrightarrow> j \<le> 5 \<longrightarrow> is_stale (fst (f (attempt_world sleep f j r)))))"
  using assms
proof (induction "5 - k" arbitrary: k res r' ds)
  case (0 k)
  then have "k = 5" by simp
  with 0 show ?case
    by (auto simp: retry_write.simps is_stale_def split: prod.splits sum.splits verror.splits dest: le_antisym)
next
  case (Suc n k)
  let ?w = "attempt_world sleep f k r"
  obtain o1 r1 where f: "f ?w = (o1, r1)" by fastforce
  show ?case
  proof (cases "is_stale o1")
    case False
    with Suc.prems f have "res = o1" "ds = []"
      by (auto simp: retry_write.simps [of _ _ k] is_stale_def split: sum.splits verror.splits)
    with False show ?thesis by simp
  next
    case True
    then obtain m where m: "o1 = Inl (StaleSnapshotError m)" by (auto simp: is_stale_def)
    have k: "Suc k \<le> 5" "n = 5 - Suc k" using Suc.hyps(2) by auto
    obtain ds' where ds: "ds = retry_delay k # ds'"
        "retry_write sleep f (Suc k) (attempt_world sleep f (Suc k) r) = (res, r', ds')"
      using Suc.prems(1) f m k(1)
      by (auto simp: retry_write.simps [of _ _ k] Let_def split: prod.splits)
    have cons: "[k..<5] = k # [Suc k..<5]" using k(1) by (simp add: upt_conv_Cons)
    from Suc.hyps(1) [OF k(2) ds(2) k(1)] True f ds(1) k(1) cons show ?thesis
      by (auto simp: le_Suc_eq Suc_le_eq intro: le_neq_implies_less dest: le_neq_implies_less)
  qed
qed

text \<open>Only the comparison with the tip throws \<^verbatim>\<open>StaleSnapshotError\<close>.\<close>

definition fresh :: "verror \<Rightarrow> bool" where
  "fresh e \<longleftrightarrow> (\<forall>m. e \<noteq> StaleSnapshotError m)"

lemma git_failure_fresh: "git_failure e \<Longrightarrow> fresh e"
  by (cases e) (simp_all add: fresh_def)

lemma throws_mono: "throws E m \<Longrightarrow> (\<And>e. E e \<Longrightarrow> F e) \<Longrightarrow> throws F m"
  by (auto simp: throws_def)

lemma fresh_simps [simp]:
  "fresh (GitError m)" "fresh (IoError m)" "fresh (VostError m)" "fresh Nontermination" "fresh (KeyNotFoundError m)"
  "fresh (InvalidPathError m)" "fresh (PermissionError m)" "\<not> fresh (StaleSnapshotError m)"
  by (simp_all add: fresh_def)

lemma throws_call_effect: "throws fresh (call_effect G c f)"
  by (auto intro: git_failure_fresh dest: call_effect_Inl)

lemma throws_parse_oid: "throws fresh (sread (\<lambda>r. parse_oid G h m))"
  by (auto simp: throws_pure parse_oid_def split: option.splits)

lemma throws_swap_ref: "throws fresh (swap_ref G refname h new msg)"
  by (auto simp: swap_ref_def throws_pure(3) intro!: throws_sbind throws_parse_oid throws_call_effect)

lemma throws_write_commit: "throws fresh (write_commit G tree ps sig msg)"
  unfolding write_commit_def
  by (auto simp: throws_pure ebind_Inl_iff commit_parents_def intro!: throws_sbind
      throws_mono [OF throws_call_write git_failure_fresh] dest!: emap_Inl)
    (metis git_failure_fresh hex_to_oid_failure require_ok_failure)+

lemma normalize_fresh: "normalize path = Inl e \<Longrightarrow> fresh e"
  by (auto simp: normalize_eq Let_def split: if_splits)

lemma flock_loop_fresh:
  assumes "flock_loop P r l d k = Some (Inl e)"
  shows "fresh e"
proof -
  have "case res of Inl e \<Rightarrow> fresh e | Inr u \<Rightarrow> True" if "flock_loop P r l d k = Some res" for res
    by (rule flock_loop.raw_induct [OF _ that]) (auto split: flock_rc.splits if_splits)
  from this [OF assms] show ?thesis by simp
qed

lemma with_repo_lock_stale:
  "with_repo_lock P d fn r = (Inl e, r') \<Longrightarrow> \<not> fresh e \<Longrightarrow> fn r = (Inl e, r')"
  by (auto simp: with_repo_lock_def Let_def split: option.splits sum.splits dest: flock_loop_fresh)

lemma throws_rebuild_fresh: "git_odb G \<Longrightarrow> throws fresh (rebuild_tree G base writes removes)"
  by (rule throws_mono [OF git_odb.throws_rebuild_tree git_failure_fresh])

lemma commit_changes_stale_only:
  assumes "commit_changes G fs writes removes msg report extra r = (Inl e, r')" "\<not> fresh e" "git_odb G"
  shows "\<exists>ref tip. ref_name fs = Some ref \<and> branch_tip G r ref = Some tip \<and> git_oid_tostr G tip \<noteq> commit_oid_hex fs"
proof -
  from assms obtain ref where ref: "require_writable fs ''write'' = Inr ref" "ref_name fs = Some ref"
    by (auto simp: commit_changes_def sbind_Inl_iff require_writable_def split: if_splits option.splits)
  with assms(1,2) have "commit_body G fs ref writes removes msg extra r = (Inl e, r')"
    by (auto simp: commit_changes_def sbind_Inl_iff dest!: with_repo_lock_stale)
  with assms(2) have "check_tip G ref (''refs/heads/'' @ ref) (commit_oid_hex fs) r = Inl e"
    unfolding commit_body_def Let_def sbind_Inl_iff sread_apply sreturn_apply
    by (auto dest: throwsD [OF throws_rebuild_fresh [OF assms(3)]]
        throwsD [OF throws_write_commit] throwsD [OF throws_swap_ref])
  then have "check_tip G ref (''refs/heads/'' @ ref) (commit_oid_hex fs) r \<noteq> Inr ()" by simp
  with ref(2) show ?thesis unfolding check_tip_iff by (auto split: option.splits)
qed

lemma fetch_and_write_stale:
  assumes "fetch_and_write G i b other path text opts r = (res, r')" "is_stale res" "git_odb G"
  shows "branch_tip G (other r) b \<noteq> branch_tip G r b"
proof -
  from assms(2) obtain m where m: "res = Inl (StaleSnapshotError m)" by (auto simp: is_stale_def)
  have get: "fresh e" if "refdict_get G r (branches i) b = Inl e" for e
    using that by (auto simp: refdict_get_def ebind_Inl_iff intro: git_failure_fresh dest: require_ok_failure split: option.splits)
  with assms(1) m obtain fs where fs: "refdict_get G r (branches i) b = Inr fs"
      "write_text G fs path text opts (other r) = (Inl (StaleSnapshotError m), r')"
    by (auto simp: fetch_and_write_def sbind_Inl_iff)
  from fs(1) obtain oid where oid: "branch_tip G r b = Some oid" "commit_oid_hex fs = git_oid_tostr G oid" "ref_name fs = Some b"
    by (auto simp: refdict_get_def branch_tip_def branch_ref_def branches_def outcome_iff oid_to_hex_def make_fs_def
      split: option.splits)
  from fs(2) obtain ws rms msg rep ex where
      "commit_changes G fs ws rms msg rep ex (other r) = (Inl (StaleSnapshotError m), r')"
    by (auto simp: write_text_def write_fs_def sbind_Inl_iff Let_def dest: normalize_fresh)
  from commit_changes_stale_only [OF this _ assms(3)] oid show ?thesis by auto
qed

text \<open>In the demonstration repository the first snapshot is stale after the second commit.\<close>

lemma demo_stale: "\<exists>e. commit_changes mem_git demo_fs ws rms msg rep ex demo_mem2 = (Inl e, demo_mem2)"
proof -
  have t7: "branch_tip mem_git demo_mem2 ''main'' = Some (mem_oid 7)" by code_simp
  have "git_oid_tostr mem_git (mem_oid 7) \<noteq> commit_oid_hex demo_fs" by code_simp
  moreover have "writable demo_fs" "ref_name demo_fs = Some ''main''" by (simp_all add: demo_fs_def make_fs_def)
  ultimately show ?thesis
    using git_refdb.commit_changes_stale [OF memory.git_refdb_axioms _ _ t7, of demo_fs ws rms msg rep ex] by blast
qed

section \<open>Properties\<close>



text \<open>C3: no commit is lost and commits are serializable. Whatever several processes commit to one
  branch, on whatever snapshots and in whatever order, and however many attempts are refused in
  between: the branch ends on a history that consists of exactly the commits that returned, newest
  first, on top of the old history, and each path holds what these changes give when they are
  applied one after another.\<close>

theorem no_commit_lost:
  assumes "git_refdb G" "commit_run G ref r log r'"
    "git_reference_lookup G r (branch_ref ref) = Some \<lparr>gref_name = branch_ref ref, gref_target = Inl tip\<rparr>"
    "git_commit_lookup G r tip \<noteq> None" "refdict_get G r (branches i) ref = Inr fs0" "history G r (commit_oid_hex fs0) hs"
  shows "\<exists>fs hs'. refdict_get G r' (branches i) ref = Inr fs \<and> history G r' (commit_oid_hex fs) (hs' @ hs) \<and>
    map fst hs' = map (\<lambda>(writes, removes, fs'). commit_oid_hex fs') log \<and>
    ((\<forall>(writes, removes, fs')\<in>set log. settled writes removes) \<longrightarrow> p \<noteq> [] \<longrightarrow> fs_node G r fs0 p = Inr (old p) \<longrightarrow>
      fs_node G r' fs p = Inr (apply_log log old p))"
proof -
  from git_refdb.branch_at_of_get [OF assms(1,3,5,4)] have at0: "branch_at G ref r tip"
    "commit_oid_hex fs0 = git_oid_tostr G tip" "fs_node G r fs0 p = tip_node G r tip p" by auto
  have "history G r (git_oid_tostr G tip) hs" using assms(6) at0(2) by simp
  from git_refdb.commit_run_ok [OF assms(1,2) at0(1) this, of old p] obtain tip' hs' where
      t: "branch_at G ref r' tip'" "history G r' (git_oid_tostr G tip') (hs' @ hs)"
        "map fst hs' = map (\<lambda>(writes, removes, fs'). commit_oid_hex fs') log"
        "(\<forall>(writes, removes, fs')\<in>set log. settled writes removes) \<longrightarrow> p \<noteq> [] \<longrightarrow>
          tip_node G r tip p = Inr (old p) \<longrightarrow> tip_node G r' tip' p = Inr (apply_log log old p)"
    unfolding run_ok_def by (elim exE conjE)
  from git_refdb.get_of_branch_at [OF assms(1) t(1), of i] obtain fs where
      "refdict_get G r' (branches i) ref = Inr fs" "commit_oid_hex fs = git_oid_tostr G tip'"
      "fs_node G r' fs p = tip_node G r' tip' p" by blast
  with t(2-4) show ?thesis unfolding at0(3) by (intro exI [of _ fs] exI [of _ hs']) simp
qed

theorem no_commit_lost_witness:
  "\<exists>fs hs'. refdict_get mem_git demo_mem2 (branches demo_inner) ''main'' = Inr fs \<and>
    history mem_git demo_mem2 (commit_oid_hex fs) (hs' @ [(''01010101'', demo_meta ''010101'' [])]) \<and>
    map fst hs' = [commit_oid_hex demo_fs2] \<and>
    fs_node mem_git demo_mem2 fs [''a'', ''b''] = Inr (Some (File [104, 105] MODE_BLOB))"
proof -
  let ?ws = "[(''a/b'', to_bytes ''hi'', MODE_BLOB)]"
  have look: "git_reference_lookup mem_git demo_mem (branch_ref ''main'') =
      Some \<lparr>gref_name = branch_ref ''main'', gref_target = Inl (mem_oid 3)\<rparr>" by code_simp
  have c3: "git_commit_lookup mem_git demo_mem (mem_oid 3) \<noteq> None" by code_simp
  have get: "refdict_get mem_git demo_mem (branches demo_inner) ''main'' = Inr demo_fs" by code_simp
  have "read_commit mem_git demo_mem ''01010101'' = Inr (demo_meta ''010101'' [])" by code_simp
  then have h: "history mem_git demo_mem (commit_oid_hex demo_fs) [(''01010101'', demo_meta ''010101'' [])]"
    by (auto simp: demo_fs_def make_fs_def demo_meta_def intro!: history.intros)
  have "ref_name demo_fs = Some ''main''" by (simp add: demo_fs_def make_fs_def)
  from run_commit [OF run_start demo_fs_valid this demo_commit]
  have one: "commit_run mem_git ''main'' demo_mem [(?ws, [], demo_fs2)] demo_mem2" .
  obtain e where "commit_changes mem_git demo_fs [] [''a''] [] None [] demo_mem2 = (Inl e, demo_mem2)"
    using demo_stale by blast
  from run_refused [OF one this] have run: "commit_run mem_git ''main'' demo_mem [(?ws, [], demo_fs2)] demo_mem2" .
  have nd: "fs_node mem_git demo_mem demo_fs [''a'', ''b''] = Inr ((\<lambda>_. Some (File [120] MODE_BLOB)) [''a'', ''b''])"
    using demo_node by (simp add: fs_node_def demo_fs_def make_fs_def)
  have "settled ?ws []" by (simp add: settled_def)
  moreover have "split_slash ''a/b'' = [''a'', ''b'']" by code_simp
  then have "apply_log [(?ws, [], demo_fs2)] (\<lambda>_. Some (File [120] MODE_BLOB)) [''a'', ''b''] = Some (File [104, 105] MODE_BLOB)"
    using apply_changes_write [of "''a/b''" "to_bytes ''hi''" MODE_BLOB] by (simp add: apply_log_def to_bytes_def byte_of_char_def)
  ultimately show ?thesis
    using no_commit_lost [OF memory.git_refdb_axioms run look c3 get h, of "[''a'', ''b'']" "\<lambda>_. Some (File [120] MODE_BLOB)"] nd
    by simp
qed


text \<open>Another process commits during the first attempt; the second one is undisturbed.\<close>

definition busy_other :: "mem \<Rightarrow> mem" where
  "busy_other r = (if branch_tip mem_git r ''main'' = Some (mem_oid 3) then demo_mem2 else r)"


end
