(* ===== verification/Vost_Relocate.thy ===== *)
theory Vost_Relocate
  imports Vost_Moves
begin

text \<open>
  Correctness of \<^verbatim>\<open>move\<close> and \<^verbatim>\<open>remove\<close> of \<^verbatim>\<open>cpp/src/fs.cpp\<close>: several sources at once, with the
  errors that refuse a call before anything is written.
\<close>

section \<open>Several subtrees at once\<close>

text \<open>Each source \<open>s\<close> goes to \<open>tgt s\<close>; sources and targets do not meet.\<close>

definition disjoint_moves :: "string list list \<Rightarrow> (string list \<Rightarrow> string list) \<Rightarrow> bool" where
  "disjoint_moves ms tgt \<longleftrightarrow> (\<forall>s\<in>set ms. s \<noteq> [] \<and> tgt s \<noteq> [] \<and>
     (\<forall>s'\<in>set ms. \<not> comparable s (tgt s') \<and> (s \<noteq> s' \<longrightarrow> \<not> comparable s s' \<and> \<not> comparable (tgt s) (tgt s'))))"

text \<open>The files that the moves put in place.\<close>

definition moved_view :: "string list list \<Rightarrow> (string list \<Rightarrow> string list) \<Rightarrow> (string list \<Rightarrow> node option) \<Rightarrow>
    string list \<Rightarrow> node option" where
  "moved_view ms tgt fsys p = (case find (\<lambda>s. prefix (tgt s) p) ms of
       None \<Rightarrow> None
     | Some s \<Rightarrow> fsys (s @ drop (length (tgt s)) p))"

lemma comparable_sym: "comparable p q \<Longrightarrow> comparable q p"
  by (auto simp: comparable_def)

lemma comparable_prefix: "prefix t p \<Longrightarrow> prefix u p \<Longrightarrow> comparable t u"
  unfolding comparable_def using prefix_same_cases by blast

lemma comparable_extend: "comparable (t @ q) p \<Longrightarrow> comparable t p"
  unfolding comparable_def using append_prefixD comparable_prefix [unfolded comparable_def, of t "t @ q" p] by auto

lemma disjoint_movesD:
  assumes "disjoint_moves ms tgt" "s \<in> set ms" "s' \<in> set ms"
  shows "s \<noteq> []" "tgt s \<noteq> []" "\<not> comparable s (tgt s')" "s \<noteq> s' \<Longrightarrow> \<not> comparable s s' \<and> \<not> comparable (tgt s) (tgt s')"
  using assms unfolding disjoint_moves_def by blast+

lemma moved_view_target:
  assumes "disjoint_moves ms tgt" "s \<in> set ms"
  shows "moved_view ms tgt fsys (tgt s @ q) = fsys (s @ q)"
proof (cases "find (\<lambda>s'. prefix (tgt s') (tgt s @ q)) ms")
  case None
  with assms(2) show ?thesis by (auto simp: find_None_iff)
next
  case (Some s')
  then have s': "s' \<in> set ms" "prefix (tgt s') (tgt s @ q)" by (auto simp: find_Some_iff)
  then have "comparable (tgt s') (tgt s)" by (rule_tac comparable_prefix) auto
  with disjoint_movesD(4) [OF assms(1) s'(1) assms(2)] have "s' = s" by blast
  with Some show ?thesis by (simp add: moved_view_def)
qed

lemma moved_view_Some:
  assumes "moved_view ms tgt fsys p = Some x"
  shows "\<exists>s q. s \<in> set ms \<and> p = tgt s @ q \<and> fsys (s @ q) = Some x"
proof -
  from assms obtain s where s: "find (\<lambda>s. prefix (tgt s) p) ms = Some s" "fsys (s @ drop (length (tgt s)) p) = Some x"
    by (auto simp: moved_view_def split: option.splits)
  from s(1) have "s \<in> set ms" "prefix (tgt s) p" by (auto simp: find_Some_iff)
  with s(2) show ?thesis by (auto simp: prefix_def)
qed

lemma moved_view_shaped:
  assumes "disjoint_moves ms tgt" "tree_shaped fsys" "\<forall>s\<in>set ms. \<forall>x\<in>set (tgt s). segment x"
  shows "tree_shaped (moved_view ms tgt fsys)"
  unfolding tree_shaped_def
proof (intro allI impI)
  fix p d m
  assume "moved_view ms tgt fsys p = Some (File d m)"
  from moved_view_Some [OF this] obtain s q where s: "s \<in> set ms" "p = tgt s @ q" "fsys (s @ q) = Some (File d m)" by blast
  from assms(2) s(3) have f: "\<forall>x\<in>set (s @ q). segment x" "m \<noteq> MODE_TREE" "\<And>q'. q' \<noteq> [] \<Longrightarrow> fsys ((s @ q) @ q') = None"
    unfolding tree_shaped_def by blast+
  have "moved_view ms tgt fsys (p @ q') = fsys (s @ q @ q')" for q'
    using moved_view_target [OF assms(1) s(1), of fsys "q @ q'"] s(2) by simp
  with f disjoint_movesD(2) [OF assms(1) s(1,1)] assms(3) s(1,2)
  show "p \<noteq> [] \<and> (\<forall>x\<in>set p. segment x) \<and> m \<noteq> MODE_TREE \<and> (\<forall>q. q \<noteq> [] \<longrightarrow> moved_view ms tgt fsys (p @ q) = None)"
    by auto
qed

text \<open>The writes of all sources together carry that view to the root.\<close>

lemma moves_carry:
  assumes "disjoint_moves ms tgt" "ms = map src plans"
    "\<And>plan. plan \<in> set plans \<Longrightarrow> carries fsys (src plan) (tgt (src plan)) (fst plan)"
  shows "carries (moved_view ms tgt fsys) [] [] (concat (map fst plans))"
  unfolding carries_def append_Nil
proof (intro equalityI subsetI)
  fix x
  assume "x \<in> set (concat (map fst plans))"
  then obtain plan where plan: "plan \<in> set plans" "x \<in> set (fst plan)" by auto
  with assms(2) have s: "src plan \<in> set ms" by simp
  from plan(2) assms(3) [OF plan(1)] obtain q d m where
      "x = (join_slash (tgt (src plan) @ q), d, m)" "tgt (src plan) @ q \<noteq> []" "fsys (src plan @ q) = Some (File d m)"
    unfolding carries_def by blast
  with moved_view_target [OF assms(1) s, of fsys q]
  show "x \<in> {(join_slash q, d, m) |q d m. q \<noteq> [] \<and> moved_view ms tgt fsys q = Some (File d m)}" by auto
next
  fix x
  assume "x \<in> {(join_slash q, d, m) |q d m. q \<noteq> [] \<and> moved_view ms tgt fsys q = Some (File d m)}"
  then obtain p d m where p: "x = (join_slash p, d, m)" "p \<noteq> []" "moved_view ms tgt fsys p = Some (File d m)" by blast
  from moved_view_Some [OF p(3)] obtain s q where s: "s \<in> set ms" "p = tgt s @ q" "fsys (s @ q) = Some (File d m)" by blast
  from s(1) assms(2) obtain plan where plan: "plan \<in> set plans" "s = src plan" by auto
  with p s assms(3) [OF plan(1)] have "x \<in> set (fst plan)" unfolding carries_def by blast
  with plan(1) show "x \<in> set (concat (map fst plans))" by auto
qed

lemma moves_written:
  assumes "carries (moved_view ms tgt fsys) [] [] ws" "tree_shaped (moved_view ms tgt fsys)" "c \<in> fst ` set (map write_node ws)"
  shows "\<exists>s q. s \<in> set ms \<and> c = tgt s @ q"
proof -
  from carries_paths [OF assms(1,2), of c] assms(3) obtain d m where "moved_view ms tgt fsys c = Some (File d m)" by auto
  from moved_view_Some [OF this] show ?thesis by blast
qed

text \<open>A write and a removed source never meet.\<close>

lemma moves_apart:
  assumes "disjoint_moves ms tgt" "carries (moved_view ms tgt fsys) [] [] ws" "tree_shaped (moved_view ms tgt fsys)"
    "c \<in> fst ` set (map write_node ws)" "s \<in> set ms"
  shows "\<not> comparable c (s @ q)"
proof
  assume "comparable c (s @ q)"
  moreover from moves_written [OF assms(2-4)] obtain s' q' where "s' \<in> set ms" "c = tgt s' @ q'" by blast
  ultimately have "comparable (tgt s') s" "s' \<in> set ms" using comparable_extend comparable_sym by blast+
  with disjoint_movesD(3) [OF assms(1,5)] comparable_sym show False by blast
qed

lemma moves_settled:
  assumes "disjoint_moves ms tgt" "carries (moved_view ms tgt fsys) [] [] ws" "tree_shaped (moved_view ms tgt fsys)"
    "set (map split_slash rms) = set ms"
  shows "settled ws rms"
  unfolding settled_def
proof (intro conjI ballI)
  fix s
  assume "s \<in> set (map split_slash rms)"
  with assms(4) have s: "s \<in> set ms" by simp
  have "\<not> strict_prefix s c" if "c \<in> fst ` set (map write_node ws)" for c
    using moves_apart [OF assms(1-3) that s, of "[]"] by (auto simp: comparable_def strict_prefix_def)
  moreover have "\<not> strict_prefix s c" if "c \<in> set ms" for c
    using disjoint_movesD(4) [OF assms(1) s that] by (auto simp: comparable_def strict_prefix_def)
  ultimately show "\<not> deeper s (map (fst \<circ> write_node) ws @ map split_slash rms)"
    using assms(4) by (auto simp: deeper_def)
qed (use assms(2,3) in \<open>auto simp: carries_def tree_shaped_def\<close>)

lemma moves_applied:
  assumes "disjoint_moves ms tgt" "carries (moved_view ms tgt fsys) [] [] ws" "tree_shaped (moved_view ms tgt fsys)"
    "set (map split_slash rms) = set ms"
  shows "s \<in> set ms \<Longrightarrow> fsys (s @ q) = Some (File d m) \<Longrightarrow> apply_changes ws rms old (tgt s @ q) = Some (File d m)"
    and "s \<in> set ms \<Longrightarrow> apply_changes ws rms old (s @ q) = None"
    and "\<forall>s\<in>set ms. \<not> comparable s p \<and> \<not> comparable (tgt s) p \<Longrightarrow> apply_changes ws rms old p = old p"
proof -
  assume s: "s \<in> set ms"
  {
    assume "fsys (s @ q) = Some (File d m)"
    with moved_view_target [OF assms(1) s] disjoint_movesD(2) [OF assms(1) s s]
      carried_file [OF assms(2,3), of "tgt s @ q" d m rms old]
    show "apply_changes ws rms old (tgt s @ q) = Some (File d m)" by simp
  }
  have apart: "\<not> prefix c (s @ q)" "\<not> prefix (s @ q) c" if "c \<in> fst ` set (map write_node ws)" for c
    using moves_apart [OF assms(1-3) that s, of q] by (simp_all add: comparable_def)
  have "\<not> on_way (fst ` set (map write_node ws)) [] (butlast (s @ q))"
    using apart(1) prefix_order.trans [OF _ prefixeq_butlast] unfolding on_way_iff append_Nil by blast
  moreover have "map_of (rev (map write_node ws)) (s @ q) = None"
    using apart(1) [of "s @ q"] by (auto simp: map_of_eq_None_iff)
  moreover have "\<not> strict_prefix (s @ q) s'" if "s' \<in> set ms" for s'
  proof
    assume "strict_prefix (s @ q) s'"
    then have "comparable s s'" "s' \<noteq> s" by (auto simp: comparable_def strict_prefix_def dest: append_prefixD)
    with disjoint_movesD(4) [OF assms(1) s that] show False by blast
  qed
  then have "\<not> deeper (s @ q) (map fst (map write_node ws) @ map split_slash rms)"
    using apart(2) assms(4) by (auto simp: deeper_def strict_prefix_def)
  moreover have "on_way (set (map split_slash rms)) [] (s @ q)"
    unfolding on_way_iff append_Nil assms(4) using s disjoint_movesD(1) [OF assms(1) s s] by (intro exI [of _ s]) simp
  ultimately show "apply_changes ws rms old (s @ q) = None" by (simp add: apply_changes_def Let_def)
next
  assume p: "\<forall>s\<in>set ms. \<not> comparable s p \<and> \<not> comparable (tgt s) p"
  show "apply_changes ws rms old p = old p"
  proof (rule apply_changes_frame)
    fix c
    assume "c \<in> fst ` set (map write_node ws) \<union> set (map split_slash rms)"
    then consider "c \<in> set ms" | "c \<in> fst ` set (map write_node ws)" using assms(4) by blast
    then show "\<not> comparable c p"
    proof cases
      case 2
      from moves_written [OF assms(2,3) this] obtain s q where "s \<in> set ms" "c = tgt s @ q" by blast
      with p show ?thesis using comparable_extend by blast
    qed (use p in blast)
  qed
qed

section \<open>The plan of a move\<close>

definition move_target :: "(string list \<Rightarrow> node option) \<Rightarrow> string list \<Rightarrow> string list \<Rightarrow> string list" where
  "move_target old ds s = (if ds = [] \<or> old ds = Some Dir then ds @ [last s] else ds)"

lemma move_source_plan:
  assumes "move_source G r hex recursive dest_is_dir nd src = Inr (ws, n)"
  shows "normalize src = Inr n \<and> n \<noteq> [] \<and> rename_plan G r hex None n
    (if dest_is_dir then if nd = [] then basename n else nd @ CHR ''/'' # basename n else nd) = Inr ws"
proof -
  from assms obtain x where x: "normalize src = Inr x" "x \<noteq> []"
    by (auto simp: move_source_def outcome_iff split: if_splits)
  with assms obtain e where "lookup G r hex x = Inr e" "e \<noteq> None"
    by (cases "lookup G r hex x") (auto simp: move_source_def outcome_iff split: option.splits)
  then obtain h mode where e: "lookup G r hex x = Inr (Some (h, mode))" by auto
  show ?thesis
    by (cases "mode = MODE_TREE") (use assms x e in \<open>auto simp: move_source_def rename_plan_def outcome_iff Let_def split: if_splits\<close>)
qed

context git_odb
begin

lemma move_source_carries:
  assumes "move_source G r hex recursive dest_is_dir nd src = Inr (ws, n)"
    "hex \<noteq> zero_hex" "\<And>p. p \<noteq> [] \<Longrightarrow> node_at G r hex p = Inr (old p)" "tree_shaped old"
    "normalize dest = Inr nd" "dest_is_dir \<longleftrightarrow> nd = [] \<or> old (split_slash nd) = Some Dir"
  shows "carries old (split_slash n) (move_target old (split_slash nd) (split_slash n)) ws \<and>
    (\<forall>x\<in>set (move_target old (split_slash nd) (split_slash n)). segment x)"
proof -
  note P = move_source_plan [OF assms(1)]
  from P normalize_segs [of src n] have n: "split_slash n \<noteq> []" "\<forall>s\<in>set (split_slash n). segment s" "join_slash (split_slash n) = n"
    by auto
  have base: "basename n = last (split_slash n)"
    using basename_join [of "butlast (split_slash n)" "last (split_slash n)"] n by simp
  have nd: "split_slash nd = [] \<longleftrightarrow> nd = []" "\<forall>s\<in>set (split_slash nd). segment s" "join_slash (split_slash nd) = nd"
    using assms(5) normalize_segs [of dest nd] by (cases "nd = []"; auto)+
  let ?t = "move_target old (split_slash nd) (split_slash n)"
  have t: "?t \<noteq> []" "\<forall>x\<in>set ?t. segment x"
    using nd n last_in_set [OF n(1)] by (auto simp: move_target_def)
  have "join_slash ?t = (if dest_is_dir then if nd = [] then basename n else nd @ CHR ''/'' # basename n else nd)"
    using nd(1,3) join_slash_append [of "split_slash nd" "[basename n]"] base by (auto simp: move_target_def assms(6))
  with P n(3) have "rename_plan G r hex None (join_slash (split_slash n)) (join_slash ?t) = Inr ws" by simp
  from rename_plan_carries [OF this n(2,1) t(1) assms(2-4)] t(2) show ?thesis by blast
qed

end

lemma move_fs_steps:
  assumes "move_fs G fs sources dest opts r = (Inr fs', r')" "\<not> mo_dry_run opts" "normalize dest = Inr nd"
  shows "tree_oid_hex fs \<noteq> [] \<and> (\<exists>dest_is_dir plans msg.
    (nd = [] \<and> dest_is_dir \<or> nd \<noteq> [] \<and> (\<exists>e. lookup G r (tree_oid_hex fs) nd = Inr e \<and>
       dest_is_dir = (case e of Some (h, mode) \<Rightarrow> mode = MODE_TREE | None \<Rightarrow> False))) \<and>
    list_all2 (\<lambda>src plan. move_source G r (tree_oid_hex fs) (mo_recursive opts) dest_is_dir nd src = Inr plan) sources plans \<and>
    commit_changes G fs (concat (map fst plans)) (map snd plans) msg None (mo_parents opts) r = (Inr fs', r'))"
  using assms
  by (auto simp: move_fs_def outcome_iff require_tree_def emap_Inr_iff split: if_splits)

context git_refdb
begin

text \<open>What \<^verbatim>\<open>move\<close> commits.\<close>

lemma move_fs_Inr:
  assumes "move_fs G fs sources dest opts r = (Inr fs', r')" "\<not> mo_dry_run opts"
    "map normalize sources = map Inr norms" "normalize dest = Inr nd" "tree_oid_hex fs \<noteq> zero_hex"
    "\<And>p. p \<noteq> [] \<Longrightarrow> fs_node G r fs p = Inr (old p)" "tree_shaped old"
    "ms = map split_slash norms" "disjoint_moves ms (move_target old (split_slash nd))"
  shows "\<exists>ws rms msg. carries (moved_view ms (move_target old (split_slash nd)) old) [] [] ws \<and>
    tree_shaped (moved_view ms (move_target old (split_slash nd)) old) \<and> set (map split_slash rms) = set ms \<and>
    commit_changes G fs ws rms msg None (mo_parents opts) r = (Inr fs', r')"
proof -
  let ?tgt = "move_target old (split_slash nd)"
  from move_fs_steps [OF assms(1,2,4)] obtain dest_is_dir plans msg where tree: "tree_oid_hex fs \<noteq> []"
    and dir: "nd = [] \<and> dest_is_dir \<or> nd \<noteq> [] \<and> (\<exists>e. lookup G r (tree_oid_hex fs) nd = Inr e \<and>
       dest_is_dir = (case e of Some (h, mode) \<Rightarrow> mode = MODE_TREE | None \<Rightarrow> False))"
    and plans: "list_all2 (\<lambda>src plan. move_source G r (tree_oid_hex fs) (mo_recursive opts) dest_is_dir nd src = Inr plan) sources plans"
    and c: "commit_changes G fs (concat (map fst plans)) (map snd plans) msg None (mo_parents opts) r = (Inr fs', r')" by blast
  have node: "node_at G r (tree_oid_hex fs) p = Inr (old p)" if "p \<noteq> []" for p
    using assms(6) [OF that] tree by (simp add: fs_node_def)
  have isdir: "dest_is_dir \<longleftrightarrow> nd = [] \<or> old (split_slash nd) = Some Dir"
  proof (cases "nd = []")
    case False
    with normalize_segs [OF assms(4)] have ne: "split_slash nd \<noteq> []" by blast
    with dir False obtain e where "lookup G r (tree_oid_hex fs) nd = Inr e"
      "dest_is_dir = (case e of Some (h, mode) \<Rightarrow> mode = MODE_TREE | None \<Rightarrow> False)" by blast
    with lookup_node [OF False assms(5) node [OF ne]] False show ?thesis by (cases e) auto
  qed (use dir in simp)
  have "list_all2 (\<lambda>src plan. normalize src = Inr (snd plan)) sources plans"
    using plans by (rule list_all2_mono) (use move_source_plan in \<open>metis prod.collapse\<close>)
  then have "map normalize sources = map Inr (map snd plans)"
    by (simp add: list_eq_iff_nth_eq list_all2_conv_all_nth)
  with assms(3) have "norms = map snd plans" by (metis inj_def map_injective sum.inject(2))
  then have ms: "ms = map (split_slash \<circ> snd) plans" by (simp add: assms(8))
  have carry: "carries old ((split_slash \<circ> snd) plan) (?tgt ((split_slash \<circ> snd) plan)) (fst plan)"
      "\<forall>x\<in>set (?tgt ((split_slash \<circ> snd) plan)). segment x" if "plan \<in> set plans" for plan
  proof -
    from that obtain i where i: "i < length plans" "plans ! i = plan" by (auto simp: in_set_conv_nth)
    from list_all2_nthD2 [OF plans i(1)] i(2) obtain src where
        "move_source G r (tree_oid_hex fs) (mo_recursive opts) dest_is_dir nd src = Inr (fst plan, snd plan)" by auto
    from move_source_carries [OF this assms(5) node assms(7,4) isdir]
    show "carries old ((split_slash \<circ> snd) plan) (?tgt ((split_slash \<circ> snd) plan)) (fst plan)"
      "\<forall>x\<in>set (?tgt ((split_slash \<circ> snd) plan)). segment x" by simp_all
  qed
  have "\<forall>s\<in>set ms. \<forall>x\<in>set (?tgt s). segment x" using carry(2) ms by auto
  from moves_carry [OF assms(9) ms carry(1)] moved_view_shaped [OF assms(9,7) this] c ms show ?thesis
    by (intro exI [of _ "concat (map fst plans)"] exI [of _ "map snd plans"] exI [of _ msg]) simp
qed

end

section \<open>Removing paths\<close>

definition refuses :: "(string list \<Rightarrow> node option) \<Rightarrow> bool \<Rightarrow> string \<Rightarrow> bool" where
  "refuses old recursive n \<longleftrightarrow> old (split_slash n) = None \<or> old (split_slash n) = Some Dir \<and> \<not> recursive"

definition refusal :: "(string list \<Rightarrow> node option) \<Rightarrow> string \<Rightarrow> verror" where
  "refusal old n = (if old (split_slash n) = None then NotFoundError n else IsADirectoryError n)"

lemma remove_path_node:
  assumes "normalize p = Inr n" "n \<noteq> []" "hex \<noteq> zero_hex" "\<And>p. p \<noteq> [] \<Longrightarrow> node_at G r hex p = Inr (old p)"
  shows "remove_path G r hex recursive p = (if refuses old recursive n then Inl (refusal old n) else Inr n)"
proof -
  have "split_slash n \<noteq> []" using normalize_segs [OF assms(1,2)] by blast
  from lookup_node [OF assms(2,3) assms(4) [OF this]] assms(1) show ?thesis
    by (auto simp: remove_path_def refuses_def refusal_def split: option.splits)
qed

lemma remove_paths_nodes:
  assumes "map normalize paths = map Inr norms" "[] \<notin> set norms" "hex \<noteq> zero_hex"
    "\<And>p. p \<noteq> [] \<Longrightarrow> node_at G r hex p = Inr (old p)"
  shows "emap (remove_path G r hex recursive) paths =
    (case find (refuses old recursive) norms of None \<Rightarrow> Inr norms | Some n \<Rightarrow> Inl (refusal old n))"
  using assms(1,2)
proof (induction paths arbitrary: norms)
  case (Cons p paths)
  then obtain n ns where "norms = n # ns" "normalize p = Inr n" "map normalize paths = map Inr ns" "n \<noteq> []" "[] \<notin> set ns"
    by (cases norms) auto
  with Cons.IH [of ns] remove_path_node [OF _ _ assms(3,4)] show ?case by (simp split: option.splits)
qed simp

lemma removes_applied:
  assumes "path_antichain (set norms)" "tree_shaped old" "\<forall>n\<in>set norms. split_slash n \<noteq> [] \<and> old (split_slash n) \<noteq> None"
  shows "settled [] norms"
    and "apply_changes [] norms old p = (if \<exists>n\<in>set norms. prefix (split_slash n) p then None
      else if \<exists>n\<in>set norms. prefix p (split_slash n) then Some Dir else old p)"
    and "old p = Some (File d m) \<Longrightarrow> n \<in> set norms \<Longrightarrow> prefix p (split_slash n) \<Longrightarrow> prefix (split_slash n) p"
proof -
  show st: "settled [] norms" using assms(1) by (auto simp: settled_def deeper_def path_antichain_def)
  show "apply_changes [] norms old p = (if \<exists>n\<in>set norms. prefix (split_slash n) p then None
      else if \<exists>n\<in>set norms. prefix p (split_slash n) then Some Dir else old p)"
  proof (cases "\<exists>n\<in>set norms. prefix (split_slash n) p")
    case True
    with assms(3) apply_changes_remove [OF _ _ _ st] show ?thesis by auto
  next
    case False
    then have "\<not> on_way (set (map split_slash norms)) [] p" by (auto simp: on_way_iff)
    moreover have "deeper p (map split_slash norms) \<longleftrightarrow> (\<exists>n\<in>set norms. prefix p (split_slash n))"
      using False by (auto simp: deeper_def strict_prefix_def)
    moreover have "\<not> on_way {} [] (butlast p)" by (simp add: on_way_iff)
    ultimately show ?thesis using False by (simp add: apply_changes_def)
  qed
  assume "old p = Some (File d m)" "n \<in> set norms" "prefix p (split_slash n)"
  with assms(2,3) show "prefix (split_slash n) p"
    unfolding tree_shaped_def by (metis prefixE self_append_conv prefix_order.refl)
qed

section \<open>Properties\<close>

text \<open>C27: \<^verbatim>\<open>move\<close> moves all its sources. With several sources, or when the destination is a directory,
  each goes below the destination under its own name, otherwise the one source becomes the
  destination. When sources and targets do not meet, every file at or below a source arrives at the
  same place relative to the target with contents and mode, nothing is left of the sources, and
  every path apart from both is as it was.\<close>

theorem move_moves_sources:
  assumes "git_refdb G" "move_fs G fs sources dest opts r = (Inr fs', r')" "\<not> mo_dry_run opts"
    "map normalize sources = map Inr norms" "normalize dest = Inr nd" "fs_typed G r fs" "old = nodes_of G r fs"
    "ms = map split_slash norms" "disjoint_moves ms (move_target old (split_slash nd))"
  shows "(\<forall>s\<in>set ms. \<forall>q d m. old (s @ q) = Some (File d m) \<longrightarrow>
      fs_node G r' fs' (move_target old (split_slash nd) s @ q) = Inr (Some (File d m))) \<and>
    (\<forall>s\<in>set ms. \<forall>q. fs_node G r' fs' (s @ q) = Inr None) \<and>
    (\<forall>p. p \<noteq> [] \<and> (\<forall>s\<in>set ms. \<not> comparable s p \<and> \<not> comparable (move_target old (split_slash nd) s) p) \<longrightarrow>
      fs_node G r' fs' p = Inr (old p))"
proof -
  let ?tgt = "move_target old (split_slash nd)"
  note odb = git_refdb.axioms(1) [OF assms(1)]
  from nodes_of_typed(1) [OF assms(6)] nodes_of_typed(2) [of G r fs] assms(6,7)
  have nodes: "\<And>p. p \<noteq> [] \<Longrightarrow> fs_node G r fs p = Inr (old p)" "old [] = None" and zero: "tree_oid_hex fs \<noteq> zero_hex"
    by (simp_all add: fs_typed_def)
  from git_refdb.move_fs_Inr [OF assms(1-5) zero nodes(1) git_odb.tree_shaped_nodes [OF odb nodes] assms(8,9)]
  obtain ws rms msg where W: "carries (moved_view ms ?tgt old) [] [] ws" "tree_shaped (moved_view ms ?tgt old)"
      "set (map split_slash rms) = set ms"
    and c: "commit_changes G fs ws rms msg None (mo_parents opts) r = (Inr fs', r')" by blast
  note A = moves_applied [OF assms(9) W] and D = disjoint_movesD [OF assms(9)]
  have new: "fs_node G r' fs' p = Inr (apply_changes ws rms old p)" if "p \<noteq> []" for p
    using git_refdb.committed_node [where old = old, OF assms(1) git_refdb.commit_changes_Inr [OF assms(1) c]
      moves_settled [OF assms(9) W] that nodes(1) [OF that]] .
  show ?thesis
  proof (intro conjI ballI allI impI)
    fix s q d m
    assume "s \<in> set ms" "old (s @ q) = Some (File d m)"
    with A(1) new D(2) show "fs_node G r' fs' (?tgt s @ q) = Inr (Some (File d m))" by simp
  next
    fix s q
    assume "s \<in> set ms"
    with A(2) new D(1) show "fs_node G r' fs' (s @ q) = Inr None" by simp
  next
    fix p
    assume "p \<noteq> [] \<and> (\<forall>s\<in>set ms. \<not> comparable s p \<and> \<not> comparable (?tgt s) p)"
    with A(3) new show "fs_node G r' fs' p = Inr (old p)" by simp
  qed
qed

text \<open>C28: \<^verbatim>\<open>remove\<close> refuses what is not there, and a directory unless told to recurse: it throws
  \<^verbatim>\<open>NotFoundError\<close> or \<^verbatim>\<open>IsADirectoryError\<close> for the first such path and changes nothing. Otherwise, when no
  path lies inside another, nothing is left at or below the paths in the new snapshot and the
  files elsewhere are exactly those of the old one; a dry run changes nothing.\<close>

theorem remove_removes:
  assumes "git_refdb G" "fs_typed G r fs" "old = nodes_of G r fs" "tree_oid_hex fs \<noteq> []"
    "require_writable fs ''remove'' = Inr ref" "map normalize paths = map Inr norms" "[] \<notin> set norms"
    "path_antichain (set norms)"
    "refused = find (refuses old (ro_recursive opts)) norms"
  shows "(\<forall>n. refused = Some n \<longrightarrow> remove_fs G fs paths opts r =
      (Inl (refusal old n), r)) \<and>
    (refused = None \<longrightarrow> ro_dry_run opts \<longrightarrow> remove_fs G fs paths opts r = (Inr fs, r)) \<and>
    (refused = None \<longrightarrow> \<not> ro_dry_run opts \<longrightarrow> (\<forall>fs' r' p. p \<noteq> [] \<and> remove_fs G fs paths opts r = (Inr fs', r') \<longrightarrow>
      (if \<exists>n\<in>set norms. prefix (split_slash n) p then fs_node G r' fs' p = Inr None
       else \<forall>d m. fs_node G r' fs' p = Inr (Some (File d m)) \<longleftrightarrow> old p = Some (File d m))))"
proof -
  note odb = git_refdb.axioms(1) [OF assms(1)]
  from nodes_of_typed(1) [OF assms(2)] nodes_of_typed(2) [of G r fs] assms(2,3)
  have nodes: "\<And>p. p \<noteq> [] \<Longrightarrow> fs_node G r fs p = Inr (old p)" "old [] = None" and zero: "tree_oid_hex fs \<noteq> zero_hex"
    by (simp_all add: fs_typed_def)
  note shaped = git_odb.tree_shaped_nodes [OF odb nodes]
  have "node_at G r (tree_oid_hex fs) p = Inr (old p)" if "p \<noteq> []" for p
    using nodes(1) [OF that] assms(4) by (simp add: fs_node_def)
  note plan = remove_paths_nodes [OF assms(6,7) zero this, where recursive = "ro_recursive opts", folded assms(9)]
  have run: "remove_fs G fs paths opts r = (case refused of Some n \<Rightarrow> (Inl (refusal old n), r) | None \<Rightarrow>
      if ro_dry_run opts then (Inr fs, r)
      else commit_changes G fs [] norms (format_message ''remove'' (ro_message opts)) None (ro_parents opts) r)"
    using assms(4,5) plan by (simp add: remove_fs_def require_tree_def sbind_def sread_def sreturn_def split: option.split)
  show ?thesis
  proof (intro conjI allI impI)
    fix fs' r' and p :: "string list"
    assume ok: "refused = None" "\<not> ro_dry_run opts" and p: "p \<noteq> [] \<and> remove_fs G fs paths opts r = (Inr fs', r')"
    have segs: "n \<in> set norms \<Longrightarrow> split_slash n \<noteq> []" for n
    proof -
      assume n: "n \<in> set norms"
      then have "Inr n \<in> set (map normalize paths)" unfolding assms(6) by simp
      then obtain path where "normalize path = Inr n" by (auto dest: sym)
      with n assms(7) normalize_segs [of path n] show "split_slash n \<noteq> []" by auto
    qed
    with ok(1) assms(9) have there: "\<forall>n\<in>set norms. split_slash n \<noteq> [] \<and> old (split_slash n) \<noteq> None"
      by (auto simp: find_None_iff refuses_def)
    note A = removes_applied [OF assms(8) shaped there]
    from p ok run have "commit_changes G fs [] norms (format_message ''remove'' (ro_message opts)) None (ro_parents opts) r = (Inr fs', r')"
      by simp
    from git_refdb.committed_node [where old = old, OF assms(1) git_refdb.commit_changes_Inr [OF assms(1) this] A(1) conjunct1 [OF p]
      nodes(1) [OF conjunct1 [OF p]]] A(2) [of p] A(3) [of p]
    show "if \<exists>n\<in>set norms. prefix (split_slash n) p then fs_node G r' fs' p = Inr None
       else \<forall>d m. fs_node G r' fs' p = Inr (Some (File d m)) \<longleftrightarrow> old p = Some (File d m)"
      by (auto split: if_splits)
  qed (simp_all add: run)
qed

section \<open>Witnesses\<close>

text \<open>The demonstration repository after \<^verbatim>\<open>a/b\<close> was moved to the root, and after it was removed.\<close>

definition demo_objs_moved :: "mem_obj list" where
  "demo_objs_moved = demo_objs @ [MTree [],
     MTree [\<lparr>te_name = ''a'', te_oid = mem_oid 4, te_mode = MODE_TREE\<rparr>, \<lparr>te_name = ''b'', te_oid = mem_oid 0, te_mode = MODE_BLOB\<rparr>]]"

definition demo_objs_moved2 :: "mem_obj list" where
  "demo_objs_moved2 = demo_objs_moved @
     [MCommit \<lparr>gc_message = Some ''move'', gc_author = Some demo_author, gc_time = 7,
        gc_tree = mem_oid 5, gc_parents = [mem_oid 3]\<rparr>]"

definition demo_objs_removed :: "mem_obj list" where
  "demo_objs_removed = demo_objs @ [MTree [],
     MTree [\<lparr>te_name = ''a'', te_oid = mem_oid 4, te_mode = MODE_TREE\<rparr>]]"

definition demo_objs_removed2 :: "mem_obj list" where
  "demo_objs_removed2 = demo_objs_removed @
     [MCommit \<lparr>gc_message = Some ''remove'', gc_author = Some demo_author, gc_time = 7,
        gc_tree = mem_oid 5, gc_parents = [mem_oid 3]\<rparr>]"

definition move_options :: MoveOptions where
  "move_options = \<lparr>mo_recursive = False, mo_dry_run = False, mo_message = None, mo_parents = []\<rparr>"

definition remove_options :: RemoveOptions where
  "remove_options = \<lparr>ro_recursive = False, ro_dry_run = False, ro_message = None, ro_parents = []\<rparr>"

lemma demo_writable: "require_writable demo_fs m = Inr ''main''" "require_tree demo_fs = Inr ''010101''"
  by (simp_all add: require_writable_def require_tree_def demo_fs_def make_fs_def)

lemma demo_move: "\<exists>fs' r'. move_fs mem_git demo_fs [''a/b''] ''/'' move_options demo_mem = (Inr fs', r')"
proof -
  have rb: "rebuild_tree mem_git ''010101'' [(''b'', [120], MODE_BLOB)] [''a/b''] demo_mem =
      (Inr ''010101010101'', demo_mem\<lparr>m_objs := demo_objs_moved\<rparr>)" by code_simp
  have wc: "write_commit mem_git ''010101010101'' [''01010101''] default_signature ''move''
      (demo_mem\<lparr>m_objs := demo_objs_moved\<rparr>) = (Inr ''01010101010101'', demo_mem\<lparr>m_objs := demo_objs_moved2\<rparr>)" by code_simp
  have "\<not> isl (fst (swap_ref mem_git ''refs/heads/main'' ''01010101'' ''01010101010101'' ''move''
      (demo_mem\<lparr>m_objs := demo_objs_moved2\<rparr>)))" by code_simp
  from not_isl_unit [OF this] obtain w where sw: "swap_ref mem_git ''refs/heads/main'' ''01010101'' ''01010101010101'' ''move''
      (demo_mem\<lparr>m_objs := demo_objs_moved2\<rparr>) = (Inr (), w)" ..
  have "commit_changes mem_git demo_fs [(''b'', [120], MODE_BLOB)] [''a/b''] ''move'' None [] demo_mem =
      (Inr (make_fs (inner demo_fs) ''01010101010101'' ''010101010101'' (ref_name demo_fs) True None), w)"
    by (rule commit_changes_runs [of _ "''main''", OF _ mem_lock_free])
      (use rb wc sw demo_check_tip in \<open>simp_all add: demo_fs_def demo_inner_def make_fs_def require_writable_def\<close>)
  moreover have "normalize ''/'' = Inr []" by code_simp
  moreover have "move_source mem_git demo_mem ''010101'' False True [] ''a/b'' = Inr ([(''b'', [120], MODE_BLOB)], ''a/b'')" by code_simp
  ultimately have "move_fs mem_git demo_fs [''a/b''] ''/'' move_options demo_mem =
      (Inr (make_fs (inner demo_fs) ''01010101010101'' ''010101010101'' (ref_name demo_fs) True None), w)"
    by (simp add: move_fs_def demo_writable move_options_def format_message_def sbind_def sread_def sreturn_def)
  then show ?thesis by blast
qed

lemma demo_remove: "\<exists>fs' r'. remove_fs mem_git demo_fs [''a/b''] remove_options demo_mem = (Inr fs', r')"
proof -
  have rb: "rebuild_tree mem_git ''010101'' [] [''a/b''] demo_mem =
      (Inr ''010101010101'', demo_mem\<lparr>m_objs := demo_objs_removed\<rparr>)" by code_simp
  have wc: "write_commit mem_git ''010101010101'' [''01010101''] default_signature ''remove''
      (demo_mem\<lparr>m_objs := demo_objs_removed\<rparr>) = (Inr ''01010101010101'', demo_mem\<lparr>m_objs := demo_objs_removed2\<rparr>)" by code_simp
  have "\<not> isl (fst (swap_ref mem_git ''refs/heads/main'' ''01010101'' ''01010101010101'' ''remove''
      (demo_mem\<lparr>m_objs := demo_objs_removed2\<rparr>)))" by code_simp
  from not_isl_unit [OF this] obtain w where sw: "swap_ref mem_git ''refs/heads/main'' ''01010101'' ''01010101010101'' ''remove''
      (demo_mem\<lparr>m_objs := demo_objs_removed2\<rparr>) = (Inr (), w)" ..
  have "commit_changes mem_git demo_fs [] [''a/b''] ''remove'' None [] demo_mem =
      (Inr (make_fs (inner demo_fs) ''01010101010101'' ''010101010101'' (ref_name demo_fs) True None), w)"
    by (rule commit_changes_runs [of _ "''main''", OF _ mem_lock_free])
      (use rb wc sw demo_check_tip in \<open>simp_all add: demo_fs_def demo_inner_def make_fs_def require_writable_def\<close>)
  moreover have "emap (remove_path mem_git demo_mem ''010101'' False) [''a/b''] = Inr [''a/b'']" by code_simp
  ultimately have "remove_fs mem_git demo_fs [''a/b''] remove_options demo_mem =
      (Inr (make_fs (inner demo_fs) ''01010101010101'' ''010101010101'' (ref_name demo_fs) True None), w)"
    by (simp add: remove_fs_def demo_writable remove_options_def format_message_def sbind_def sread_def sreturn_def)
  then show ?thesis by blast
qed

theorem move_moves_sources_witness:
  "\<exists>fs' r'. move_fs mem_git demo_fs [''a/b''] ''/'' move_options demo_mem = (Inr fs', r') \<and>
     fs_node mem_git r' fs' [''b''] = Inr (Some (File [120] MODE_BLOB)) \<and> fs_node mem_git r' fs' [''a'', ''b''] = Inr None"
proof -
  obtain fs' r' where run: "move_fs mem_git demo_fs [''a/b''] ''/'' move_options demo_mem = (Inr fs', r')" using demo_move by blast
  have n: "map normalize [''a/b''] = map Inr [''a/b'']" "normalize ''/'' = Inr []" by code_simp+
  have sp: "[[''a'', ''b'']] = map split_slash [''a/b'']" by code_simp
  have tgt: "move_target old [] [''a'', ''b''] = [''b'']" for old by (simp add: move_target_def)
  have apart: "disjoint_moves [[''a'', ''b'']] (move_target (nodes_of mem_git demo_mem demo_fs) (split_slash []))"
    by (simp add: disjoint_moves_def tgt comparable_def)
  have "\<not> mo_dry_run move_options" by (simp add: move_options_def)
  note M = move_moves_sources [OF memory.git_refdb_axioms run this n demo_fs_typed refl sp apart]
  from conjunct1 [OF M, rule_format, of "[''a'', ''b'']" "[]"] conjunct1 [OF conjunct2 [OF M], rule_format, of "[''a'', ''b'']" "[]"]
  show ?thesis using run demo_nodes by (simp add: tgt)
qed

theorem remove_removes_witness:
  "remove_fs mem_git demo_fs [''/a/'', ''x''] remove_options demo_mem = (Inl (IsADirectoryError ''a''), demo_mem) \<and>
   (\<exists>fs' r'. remove_fs mem_git demo_fs [''a/b''] remove_options demo_mem = (Inr fs', r') \<and>
      fs_node mem_git r' fs' [''a'', ''b''] = Inr None)"
proof -
  have n: "map normalize [''/a/'', ''x''] = map Inr [''a'', ''x'']" "map normalize [''a/b''] = map Inr [''a/b'']" by code_simp+
  have sp: "split_slash ''a'' = [''a'']" "split_slash ''x'' = [''x'']" "split_slash ''a/b'' = [''a'', ''b'']" by code_simp+
  have anti: "path_antichain (set [''a'', ''x''])" "path_antichain (set [''a/b''])" by (simp_all add: path_antichain_def sp)
  have tree: "tree_oid_hex demo_fs \<noteq> []" by code_simp
  have a: "nodes_of mem_git demo_mem demo_fs [''a''] = Some Dir"
    by (simp add: nodes_of_def) code_simp
  note R = remove_removes [OF memory.git_refdb_axioms demo_fs_typed refl tree demo_writable(1)]
  have "Some ''a'' = find (refuses (nodes_of mem_git demo_mem demo_fs) (ro_recursive remove_options)) [''a'', ''x'']"
    by (simp add: refuses_def sp a remove_options_def)
  from conjunct1 [OF R [OF n(1) _ anti(1) this], rule_format, of "''a''"]
  have first: "remove_fs mem_git demo_fs [''/a/'', ''x''] remove_options demo_mem = (Inl (IsADirectoryError ''a''), demo_mem)"
    by (simp add: refusal_def sp a)
  have "None = find (refuses (nodes_of mem_git demo_mem demo_fs) (ro_recursive remove_options)) [''a/b'']"
    by (simp add: refuses_def sp demo_nodes)
  from conjunct2 [OF conjunct2 [OF R [OF n(2) _ anti(2) this]]] have "\<forall>fs' r'.
      remove_fs mem_git demo_fs [''a/b''] remove_options demo_mem = (Inr fs', r') \<longrightarrow> fs_node mem_git r' fs' [''a'', ''b''] = Inr None"
    by (simp add: remove_options_def sp)
  with first demo_remove show ?thesis by blast
qed

end
