(* ===== verification/Vost_Globbing.thy ===== *)
theory Vost_Globbing
  imports Vost_Moves Vost_Glob
begin

text \<open>
  What \<^verbatim>\<open>glob\<close> of \<^verbatim>\<open>cpp/src/fs.cpp\<close> returns: the recursion over pattern segments and subtrees ends,
  and finds exactly the files whose paths match the pattern segment by segment. The files of a
  well-typed snapshot, which \<^verbatim>\<open>walk\<close> lists too, are \<open>snapshot_root\<close>.
\<close>

section \<open>The files of a well-typed snapshot\<close>

context git_odb
begin

text \<open>The tree of a well-typed snapshot, in which every path can be looked up.\<close>

lemma snapshot_root:
  assumes "fs_typed G r fs" "tree_oid_hex fs \<noteq> []"
  shows "\<exists>root. hex_to_oid G (tree_oid_hex fs) = Inr root \<and>
    (\<forall>p. p \<noteq> [] \<longrightarrow> (\<exists>x. entry_at_segs G r root p = Inr x)) \<and>
    (\<forall>q we. (q, we) \<in> files_below G r root \<longrightarrow> q \<noteq> [] \<and> (\<exists>d. fs_node G r fs q = Inr (Some (File d (we_mode we))))) \<and>
    (\<forall>q d m. q \<noteq> [] \<and> fs_node G r fs q = Inr (Some (File d m)) \<longrightarrow> (\<exists>we. (q, we) \<in> files_below G r root \<and> we_mode we = m))"
proof -
  let ?hex = "tree_oid_hex fs"
  have z: "?hex \<noteq> zero_hex" using assms(1) by (simp add: fs_typed_def)
  have nodes: "\<exists>x. node_at G r ?hex p = Inr x" if "p \<noteq> []" for p
    using assms that by (auto simp: fs_typed_def fs_node_def)
  from nodes [of "[[]]"] z obtain root where root: "hex_to_oid G ?hex = Inr root"
    by (auto simp: node_at_def view_def outcome_iff)
  have view: "view G r ?hex p = entry_at_segs G r root p" for p using z root by (simp add: view_def)
  have "\<exists>x. entry_at_segs G r root p = Inr x" if "p \<noteq> []" for p
    using nodes [OF that] by (auto simp: node_at_def view outcome_iff)
  moreover have "q \<noteq> [] \<and> (\<exists>d. fs_node G r fs q = Inr (Some (File d (we_mode we))))"
    if "(q, we) \<in> files_below G r root" for q we
    using that nodes [of q] assms(2)
    by (auto simp: files_below_def fs_node_def node_at_def view outcome_iff)
  moreover have "\<exists>we. (q, we) \<in> files_below G r root \<and> we_mode we = m"
    if "q \<noteq> []" "fs_node G r fs q = Inr (Some (File d m))" for q d m
  proof -
    from that(2) assms(2) obtain h where "m \<noteq> MODE_TREE" "entry_at_segs G r root q = Inr (Some (h, m))"
      by (auto simp: fs_node_def node_at_File view)
    with that(1) have "(q, \<lparr>we_name = last q, we_oid = h, we_mode = m\<rparr>) \<in> files_below G r root"
      by (simp add: files_below_def)
    then show ?thesis by (metis WalkEntry.select_convs(3))
  qed
  ultimately show ?thesis using root by blast
qed

end

section \<open>Patterns of several segments\<close>

text \<open>
  A path matches when its segments match those of the pattern one by one; \<^verbatim>\<open>**\<close> stands for any
  number of directories whose names do not begin with a dot. A pattern that ends in \<^verbatim>\<open>**\<close> matches
  no file.
\<close>

fun segs_match :: "string list \<Rightarrow> string list \<Rightarrow> bool" where
  "segs_match [] q = False"
| "segs_match (seg # segs) [] = False"
| "segs_match (seg # segs) (n # q) =
     (if seg = ''**'' then segs_match segs (n # q) \<or> (hd n \<noteq> CHR ''.'' \<and> segs_match (seg # segs) q)
      else glob_match seg n \<and> (if segs = [] then q = [] else segs_match segs q))"

lemma segs_match_Nil [simp]: "segs_match segs [] = False"
  by (cases segs) simp_all

lemma emap_map: "emap f (map g xs) = emap (\<lambda>x. f (g x)) xs"
  by (induction xs) simp_all

lemma emap_cong: "xs = ys \<Longrightarrow> (\<And>x. x \<in> set ys \<Longrightarrow> f x = g x) \<Longrightarrow> emap f xs = emap g ys"
  by (induction ys arbitrary: xs) auto

lemma set_concat_emap:
  assumes "\<And>x. x \<in> set xs \<Longrightarrow> \<exists>ys. f x = Inr ys \<and> set ys = A x"
  shows "\<exists>yss. emap f xs = Inr yss \<and> set (concat yss) = (\<Union>x\<in>set xs. A x)"
  using assms
proof (induction xs)
  case (Cons x xs)
  then obtain ys yss where "f x = Inr ys" "set ys = A x" "emap f xs = Inr yss" "set (concat yss) = (\<Union>x\<in>set xs. A x)"
    by (metis list.set_intros)
  then show ?case by simp
qed simp

text \<open>The matching files below a tree, as full paths.\<close>

definition found :: "('r, 'b) libgit2 \<Rightarrow> 'r \<Rightarrow> git_oid \<Rightarrow> string list \<Rightarrow> string \<Rightarrow> string set" where
  "found G r oid segs pfx =
     {under pfx (join_slash q) |q. segs_match segs q \<and> (\<exists>we. (q, we) \<in> files_below G r oid)}"

lemma found_Nil [simp]: "found G r oid [] pfx = {}"
  by (simp add: found_def)

text \<open>What one entry of a tree contributes, by the first segment of the pattern.\<close>

definition found_entry :: "('r, 'b) libgit2 \<Rightarrow> 'r \<Rightarrow> string \<Rightarrow> string list \<Rightarrow> string \<Rightarrow> tree_entry \<Rightarrow> string set" where
  "found_entry G r seg segs pfx e =
     (let full = under pfx (te_name e) in
      if seg = ''**'' then
        if hd (te_name e) \<noteq> CHR ''.'' \<and> te_mode e = MODE_TREE then found G r (te_oid e) (seg # segs) full else {}
      else if \<not> glob_match seg (te_name e) then {}
      else if segs = [] then (if te_mode e \<noteq> MODE_TREE then {full} else {})
      else if te_mode e = MODE_TREE then found G r (te_oid e) segs full else {})"

context git_odb
begin

text \<open>A path below an entry.\<close>

definition below_entry :: "'r \<Rightarrow> tree_entry \<Rightarrow> string list \<Rightarrow> bool" where
  "below_entry r e q \<longleftrightarrow> (if te_mode e = MODE_TREE then \<exists>we. (q, we) \<in> files_below G r (te_oid e) else q = [])"

lemma files_below_Cons:
  assumes "git_tree_lookup G r oid = Some t"
  shows "(\<exists>we. (n # q, we) \<in> files_below G r oid) \<longleftrightarrow> (\<exists>e\<in>set t. te_name e = n \<and> below_entry r e q)"
proof -
  have "(n # q, we) \<in> files_below G r oid \<longleftrightarrow> (\<exists>e\<in>set t. te_name e = n \<and>
      (if te_mode e = MODE_TREE then (q, we) \<in> files_below G r (te_oid e) else q = [] \<and> we = walk_entry_of G e))" for we
    unfolding files_below_step [OF assms] UN_iff by (intro bex_cong refl) (auto simp: apfst_Cons_image)
  then have "(\<exists>we. (n # q, we) \<in> files_below G r oid) \<longleftrightarrow> (\<exists>e\<in>set t. \<exists>we. te_name e = n \<and>
      (if te_mode e = MODE_TREE then (q, we) \<in> files_below G r (te_oid e) else q = [] \<and> we = walk_entry_of G e))"
    by blast
  also have "\<dots> \<longleftrightarrow> (\<exists>e\<in>set t. te_name e = n \<and> below_entry r e q)"
    by (intro bex_cong refl) (auto simp: below_entry_def)
  finally show ?thesis .
qed

lemma found_entry_iff:
  assumes "segment (te_name e)"
  shows "x \<in> found_entry G r seg segs pfx e \<longleftrightarrow> (\<exists>q. x = under pfx (join_slash (te_name e # q)) \<and> below_entry r e q \<and>
    (if seg = ''**'' then hd (te_name e) \<noteq> CHR ''.'' \<and> segs_match (seg # segs) q
     else glob_match seg (te_name e) \<and> (if segs = [] then q = [] else segs_match segs q)))"
proof -
  have no: "([], we) \<notin> files_below G r oid" for we oid by (simp add: files_below_def)
  have sub: "x \<in> found G r (te_oid e) ss (under pfx (te_name e)) \<longleftrightarrow>
      (\<exists>q. x = under pfx (join_slash (te_name e # q)) \<and> segs_match ss q \<and> (\<exists>we. (q, we) \<in> files_below G r (te_oid e)))" for ss
  proof -
    have "under (under pfx (te_name e)) (join_slash q) = under pfx (join_slash (te_name e # q))" if "segs_match ss q" for q
      using that assms by (intro under_join) (auto simp: segment_def)
    then show ?thesis unfolding found_def mem_Collect_eq by metis
  qed
  show ?thesis
    by (cases "te_mode e = MODE_TREE"; cases "segs = []")
      (auto simp: found_entry_def Let_def below_entry_def sub no)
qed

lemma found_step:
  assumes "git_tree_lookup G r oid = Some t"
  shows "found G r oid (seg # segs) pfx =
    (if seg = ''**'' then found G r oid segs pfx else {}) \<union> (\<Union>e\<in>set t. found_entry G r seg segs pfx e)"
proof (intro set_eqI)
  fix x
  have names: "segment (te_name e)" if "e \<in> set t" for e using tree_names [OF assms] that by blast
  have ex: "x \<in> found G r oid ss pfx \<longleftrightarrow> (\<exists>n q. x = under pfx (join_slash (n # q)) \<and> segs_match ss (n # q) \<and>
      (\<exists>e\<in>set t. te_name e = n \<and> below_entry r e q))" for ss
    unfolding found_def mem_Collect_eq files_below_Cons [OF assms, symmetric]
    by (metis segs_match_Nil neq_Nil_conv)
  show "x \<in> found G r oid (seg # segs) pfx \<longleftrightarrow>
      x \<in> (if seg = ''**'' then found G r oid segs pfx else {}) \<union> (\<Union>e\<in>set t. found_entry G r seg segs pfx e)"
  proof (cases "seg = ''**''")
    case True
    then show ?thesis
      by (simp add: ex found_entry_iff [OF names] cong: bex_cong) blast
  next
    case False
    then show ?thesis
      by (simp add: ex found_entry_iff [OF names] cong: bex_cong) blast
  qed
qed

text \<open>The recursion has enough fuel and returns the matching files.\<close>

lemma iglob_recursive_found:
  assumes "\<And>p. p \<noteq> [] \<Longrightarrow> \<exists>x. entry_at_segs G r oid p = Inr x" "hex_to_oid G h = Inr oid"
    "length segs + git_tree_depth G r oid < fuel"
  shows "\<exists>rs. iglob_recursive G r fuel h segs pfx = Inr rs \<and> set rs = found G r oid segs pfx"
  using assms
proof (induction fuel arbitrary: h segs pfx oid)
  case (Suc fuel)
  show ?case
  proof (cases segs)
    case (Cons seg rest)
    from Suc.prems(1) [of "[[]]"] obtain t where t: "git_tree_lookup G r oid = Some t"
      by (auto simp: outcome_iff)
    have sub: "\<exists>rs. iglob_recursive G r fuel (oid_to_hex G (te_oid e)) ss pfx' = Inr rs \<and> set rs = found G r (te_oid e) ss pfx'"
      if e: "e \<in> set t" "te_mode e = MODE_TREE" and "length ss \<le> length segs" for e ss pfx'
    proof (rule Suc.IH)
      have by_name: "git_tree_entry_byname G t (te_name e) = Some e" using e byname_mem [OF t] by simp
      show "\<exists>x. entry_at_segs G r (te_oid e) p = Inr x" if "p \<noteq> []" for p
        using Suc.prems(1) [of "te_name e # p", unfolded entry_at_segs_Cons [OF t] by_name] that e by simp
      show "hex_to_oid G (oid_to_hex G (te_oid e)) = Inr (te_oid e)"
        by (simp add: hex_to_oid_def oid_to_hex_def oid_roundtrip)
      show "length ss + git_tree_depth G r (te_oid e) < fuel"
        using tree_acyclic [OF t e] Suc.prems(3) that(3) by simp
    qed
    have here: "\<exists>rs. iglob_recursive G r fuel h rest pfx = Inr rs \<and> set rs = found G r oid rest pfx"
      using Suc.IH [OF Suc.prems(1,2)] Suc.prems(3) Cons by simp
    have entries: "list_tree_by_oid G r h = Inr (map (walk_entry_of G) t)"
      using Suc.prems(2) t by (simp add: list_tree_by_oid_def require_ok_def)
    have name: "te_name e \<noteq> []" if "e \<in> set t" for e using tree_names [OF t] that by (auto simp: segment_def)
    show ?thesis
    proof (cases "seg = ''**''")
      case True
      let ?F = "\<lambda>e. if hd (te_name e) = CHR ''.'' then Inr []
          else if te_mode e = MODE_TREE then iglob_recursive G r fuel (oid_to_hex G (te_oid e)) (seg # rest) (under pfx (te_name e))
          else Inr []"
      have "\<exists>ys. ?F e = Inr ys \<and> set ys = found_entry G r seg rest pfx e" if "e \<in> set t" for e
        using sub [OF that, of "seg # rest" "under pfx (te_name e)"] True Cons by (auto simp: found_entry_def Let_def)
      from set_concat_emap [of t ?F, OF this] here show ?thesis
        unfolding Cons found_step [OF t] using True name
        by (auto simp: entries emap_map walk_entry_of_def under_def Let_def cong: emap_cong if_cong)
    next
      case False
      let ?F = "\<lambda>e. if \<not> glob_match seg (te_name e) then Inr []
          else if rest = [] then (if te_mode e \<noteq> MODE_TREE then Inr [under pfx (te_name e)] else Inr [])
          else if te_mode e = MODE_TREE then iglob_recursive G r fuel (oid_to_hex G (te_oid e)) rest (under pfx (te_name e))
          else Inr []"
      have "\<exists>ys. ?F e = Inr ys \<and> set ys = found_entry G r seg rest pfx e" if "e \<in> set t" for e
        using sub [OF that, of rest "under pfx (te_name e)"] False Cons by (auto simp: found_entry_def Let_def)
      from set_concat_emap [of t ?F, OF this] show ?thesis
        unfolding Cons found_step [OF t] using False
        by (auto simp: entries emap_map walk_entry_of_def under_def Let_def cong: emap_cong if_cong)
    qed
  qed simp
qed simp

end

section \<open>Properties\<close>

text \<open>C16: \<^verbatim>\<open>glob\<close> returns exactly the matching files, in order. On every well-typed snapshot and for
  every pattern the search ends without an error; \<^verbatim>\<open>glob\<close> sorts what \<^verbatim>\<open>iglob\<close> finds; and a path is
  found if and only if a file of the snapshot has it and its segments match those of the pattern,
  \<^verbatim>\<open>**\<close> standing for any number of directories that are not hidden.\<close>

theorem glob_finds_matches:
  assumes "git_odb G" "fs_typed G r fs" "tree_oid_hex fs \<noteq> []"
  shows "\<exists>found. iglob G r fs pattern = Inr found \<and> glob G r fs pattern = Inr (sort found) \<and>
    set found = {join_slash q |q d m. q \<noteq> [] \<and> fs_node G r fs q = Inr (Some (File d m)) \<and>
      segs_match (split_slash pattern) q}"
proof -
  from git_odb.snapshot_root [OF assms] obtain root where root: "hex_to_oid G (tree_oid_hex fs) = Inr root"
      and total: "\<forall>p. p \<noteq> [] \<longrightarrow> (\<exists>x. entry_at_segs G r root p = Inr x)"
      and node: "\<forall>q we. (q, we) \<in> files_below G r root \<longrightarrow> q \<noteq> [] \<and> (\<exists>d. fs_node G r fs q = Inr (Some (File d (we_mode we))))"
      and listed: "\<forall>q d m. q \<noteq> [] \<and> fs_node G r fs q = Inr (Some (File d m)) \<longrightarrow>
        (\<exists>we. (q, we) \<in> files_below G r root \<and> we_mode we = m)" by (elim exE conjE)
  have total: "\<exists>x. entry_at_segs G r root p = Inr x" if "p \<noteq> []" for p using total that by blast
  from git_odb.iglob_recursive_found [OF assms(1) total root, of "split_slash pattern"
      "Suc (length (split_slash pattern) + git_tree_depth G r root)" "[]"] obtain rs where
    rs: "iglob_recursive G r (Suc (length (split_slash pattern) + git_tree_depth G r root)) (tree_oid_hex fs)
        (split_slash pattern) [] = Inr rs" "set rs = found G r root (split_slash pattern) []" by blast
  have "iglob G r fs pattern = Inr (if split_slash pattern = [] then [] else rs)"
    using rs(1) root assms(3) by (simp add: iglob_def require_tree_def)
  moreover have "found G r root (split_slash pattern) [] = {join_slash q |q d m. q \<noteq> [] \<and>
      fs_node G r fs q = Inr (Some (File d m)) \<and> segs_match (split_slash pattern) q}"
    unfolding found_def under_def using node listed by (simp only: simp_thms if_True) blast
  ultimately show ?thesis using rs(2) by (auto simp: glob_def)
qed

theorem glob_finds_matches_witness:
  "\<exists>found. glob mem_git demo_mem demo_fs ''**/?'' = Inr (sort found) \<and> ''a/b'' \<in> set found"
proof -
  have "tree_oid_hex demo_fs \<noteq> []" by code_simp
  from glob_finds_matches [OF memory.git_odb_axioms demo_fs_typed this, of "''**/?''"] obtain found where
    found: "glob mem_git demo_mem demo_fs ''**/?'' = Inr (sort found)"
      "set found = {join_slash q |q d m. q \<noteq> [] \<and> fs_node mem_git demo_mem demo_fs q = Inr (Some (File d m)) \<and>
        segs_match (split_slash ''**/?'') q}" by blast
  have "fs_node mem_git demo_mem demo_fs [''a'', ''b''] = Inr (Some (File [120] MODE_BLOB))"
    using demo_node by (simp add: fs_node_def demo_fs_def make_fs_def)
  moreover have "segs_match (split_slash ''**/?'') [''a'', ''b'']" by code_simp
  moreover have "''a/b'' = join_slash [''a'', ''b'']" by code_simp
  ultimately have "''a/b'' \<in> set found" unfolding found(2) by blast
  with found(1) show ?thesis by blast
qed

end
