(* ===== verification/Vost_Interop.thy ===== *)
theory Vost_Interop
  imports Vost_Batch Vost_GitStore Vost_Note_Dict Vost_Mirror Vost_Globbing
begin

text \<open>
  The interoperability tools \<^verbatim>\<open>interop/cpp_write.cpp\<close> and \<^verbatim>\<open>interop/cpp_read.cpp\<close>: one writes the
  repositories that a file of fixtures describes, the other one checks that a repository holds what
  its fixture says. A fixture is the JSON object after parsing, with the types the fixtures have; a
  check counts its failures. The loops of the two \<^verbatim>\<open>main\<close> functions over the fixtures, each with a
  repository of its own, the parsing and the printed lines are not modelled.
\<close>

section \<open>Base64\<close>

definition b64_chars :: string where
  "b64_chars = ''ABCDEFGHIJKLMNOPQRSTUVWXYZabcdefghijklmnopqrstuvwxyz0123456789+/''"

text \<open>The table \<^verbatim>\<open>T\<close>; \<^verbatim>\<open>None\<close> is its entry -1.\<close>

definition b64_value :: "char \<Rightarrow> nat option" where
  "b64_value c = map_of (zip b64_chars [0..<64]) c"

text \<open>
  The variables \<^verbatim>\<open>val\<close> and \<^verbatim>\<open>valb\<close>. \<^verbatim>\<open>val\<close> is a 32-bit \<^verbatim>\<open>int\<close> that the shift overflows on long
  inputs, which C++17 leaves undefined; the model keeps the low 32 bits, as the compilers do.
\<close>

fun b64_loop :: "string \<Rightarrow> u32 \<Rightarrow> int \<Rightarrow> byte list" where
  "b64_loop [] v valb = []"
| "b64_loop (c # cs) v valb =
     (case b64_value c of
        None \<Rightarrow> []
      | Some t \<Rightarrow>
          let v' = push_bit 6 v + word_of_nat t; valb' = valb + 6 in
          if valb' \<ge> 0
          then ucast (and (signed_drop_bit (nat valb') v') 0xFF) # b64_loop cs v' (valb' - 8)
          else b64_loop cs v' valb')"

definition b64_decode :: "string \<Rightarrow> byte list" where
  "b64_decode encoded = b64_loop encoded 0 (- 8)"

section \<open>Fixtures\<close>

record Step =
  step_message :: string
  step_files :: "string std_map option"
  step_removes :: "string list option"

record Spec =
  sp_branch :: "string option"
  sp_files :: "string std_map option"
  sp_symlinks :: "string std_map option"
  sp_binary_files :: "string std_map option"
  sp_executable_files :: "string std_map option"
  sp_commits :: "Step list option"
  sp_notes :: "string std_map option"

text \<open>\<^verbatim>\<open>if (spec.contains(key)) for (auto& x : spec[key])\<close>: the elements of a member that may be absent.\<close>

definition members :: "'a list option \<Rightarrow> 'a list" where
  "members m = (case m of Some xs \<Rightarrow> xs | None \<Rightarrow> [])"

definition spec_branch :: "Spec \<Rightarrow> string" where
  "spec_branch spec = (case sp_branch spec of Some b \<Rightarrow> b | None \<Rightarrow> ''main'')"

section \<open>The writer\<close>

text \<open>A \<^verbatim>\<open>for\<close> loop whose body stages into a batch and may throw.\<close>

fun each :: "('x \<Rightarrow> 's \<Rightarrow> 's res) \<Rightarrow> 'x list \<Rightarrow> 's \<Rightarrow> 's res" where
  "each f [] s = Inr s"
| "each f (x # xs) s = ebind (f x s) (each f xs)"

definition stage_scenario :: "Spec \<Rightarrow> Batch \<Rightarrow> Batch res" where
  "stage_scenario spec b =
     ebind (each (\<lambda>(filepath, content) b. batch_write b filepath (to_bytes content)) (members (sp_files spec)) b) (\<lambda>b.
     ebind (each (\<lambda>(filepath, target) b. batch_write_symlink b filepath target) (members (sp_symlinks spec)) b) (\<lambda>b.
     ebind (each (\<lambda>(filepath, b64) b. batch_write b filepath (b64_decode b64)) (members (sp_binary_files spec)) b) (\<lambda>b.
       each (\<lambda>(filepath, content) b. batch_write_with_mode b filepath (to_bytes content) MODE_BLOB_EXEC)
         (members (sp_executable_files spec)) b)))"

text \<open>\<^verbatim>\<open>batch.commit()\<close> with its result dropped.\<close>

definition commit_batch :: "('r, 'b) libgit2 \<Rightarrow> Batch \<Rightarrow> ('r, unit) vop" where
  "commit_batch G b = (\<lambda>r. case batch_commit G b r of ((res, b'), r') \<Rightarrow> (ebind res (\<lambda>_. Inr ()), r'))"

definition write_scenario :: "('r, 'b) libgit2 \<Rightarrow> Inner \<Rightarrow> string \<Rightarrow> Spec \<Rightarrow> ('r, unit) vop" where
  "write_scenario G store branch spec =
     sbind (sread (\<lambda>r. refdict_get G r (branches store) branch)) (\<lambda>fs.
     sbind (sread (\<lambda>r. stage_scenario spec
             (make_batch fs \<lparr>bo_message = None, bo_operation = None, bo_parents = []\<rparr>))) (commit_batch G))"

definition stage_step :: "Step \<Rightarrow> Batch \<Rightarrow> Batch res" where
  "stage_step st b =
     ebind (each (\<lambda>(filepath, content) b. batch_write b filepath (to_bytes content)) (members (step_files st)) b) (\<lambda>b.
       each (\<lambda>filepath b. batch_remove b filepath) (members (step_removes st)) b)"

definition write_step :: "('r, 'b) libgit2 \<Rightarrow> Inner \<Rightarrow> string \<Rightarrow> Step \<Rightarrow> ('r, unit) vop" where
  "write_step G store branch st =
     sbind (sread (\<lambda>r. refdict_get G r (branches store) branch)) (\<lambda>fs.
     sbind (sread (\<lambda>r. stage_step st
             (make_batch fs \<lparr>bo_message = Some (step_message st), bo_operation = None, bo_parents = []\<rparr>))) (commit_batch G))"

definition write_history :: "('r, 'b) libgit2 \<Rightarrow> Inner \<Rightarrow> string \<Rightarrow> Spec \<Rightarrow> ('r, unit) vop" where
  "write_history G store branch spec =
     sfold (\<lambda>st _. write_step G store branch st) (members (sp_commits spec)) ()"

definition write_notes :: "('r, 'b) libgit2 \<Rightarrow> Inner \<Rightarrow> string \<Rightarrow> Spec \<Rightarrow> ('r, unit) vop" where
  "write_notes G store branch spec =
     sbind (sread (\<lambda>r. refdict_get G r (branches store) branch)) (\<lambda>fs.
       case commit_hash fs of
         None \<Rightarrow> sthrow Undefined_behaviour
       | Some hash \<Rightarrow>
           sfold (\<lambda>(ns_name, text) _. note_set G (make_namespace store ns_name) hash text) (members (sp_notes spec)) ())"

text \<open>The body of the loop of \<^verbatim>\<open>main\<close>: the repository and the bundle of one fixture.\<close>

definition write_fixture :: "('r, 'b) libgit2 \<Rightarrow> 'r mirror_host \<Rightarrow> string \<Rightarrow> string \<Rightarrow> Spec \<Rightarrow> ('r, unit) vop" where
  "write_fixture G M output_dir name spec =
     (let branch = spec_branch spec in
      sbind (open_store G (host.truncate M) (output_dir @ ''/cpp_'' @ name @ ''.git'')
        \<lparr>oo_create = True, oo_branch = Some branch, oo_author = None, oo_email = None,
         oo_compression = None, oo_big_file_threshold = None\<rparr>) (\<lambda>store.
      sbind (if sp_commits spec \<noteq> None then write_history G store branch spec
             else write_scenario G store branch spec) (\<lambda>_.
      sbind (if sp_notes spec \<noteq> None then write_notes G store branch spec else sreturn ()) (\<lambda>_.
      sbind (backup G M store (output_dir @ ''/cpp_'' @ name @ ''.bundle'')
        \<lparr>bk_dry_run = False, bk_refs = [], bk_format = [], bk_ref_map = [], bk_squash = False\<rparr>) (\<lambda>_.
        sreturn ())))))"

section \<open>The reader\<close>

text \<open>
  Each check of one member of the fixture prints a line and counts one failure when the member is
  not as expected or the access throws.
\<close>

definition failures :: "('x \<Rightarrow> bool) \<Rightarrow> 'x list \<Rightarrow> nat" where
  "failures passes xs = length (filter (\<lambda>x. \<not> passes x) xs)"

definition text_passes :: "('r, 'b) libgit2 \<Rightarrow> 'r \<Rightarrow> Fs \<Rightarrow> string \<times> string \<Rightarrow> bool" where
  "text_passes G r snapshot = (\<lambda>(filepath, expected).
     case read_text G r snapshot filepath of Inr actual \<Rightarrow> actual = expected | Inl e \<Rightarrow> False)"

definition symlink_passes :: "('r, 'b) libgit2 \<Rightarrow> 'r \<Rightarrow> Fs \<Rightarrow> string \<times> string \<Rightarrow> bool" where
  "symlink_passes G r snapshot = (\<lambda>(filepath, expected_target).
     case readlink G r snapshot filepath of Inr actual \<Rightarrow> actual = expected_target | Inl e \<Rightarrow> False)"

definition binary_passes :: "('r, 'b) libgit2 \<Rightarrow> 'r \<Rightarrow> Fs \<Rightarrow> string \<times> string \<Rightarrow> bool" where
  "binary_passes G r snapshot = (\<lambda>(filepath, b64).
     case read G r snapshot filepath of Inr actual_bytes \<Rightarrow> actual_bytes = b64_decode b64 | Inl e \<Rightarrow> False)"

text \<open>The nested loops look for the first file of the walk with the path.\<close>

definition executable_passes :: "('r, 'b) libgit2 \<Rightarrow> 'r \<Rightarrow> Fs \<Rightarrow> string \<times> string \<Rightarrow> bool" where
  "executable_passes G r snapshot = (\<lambda>(filepath, expected).
     case read_text G r snapshot filepath of
       Inl e \<Rightarrow> False
     | Inr actual \<Rightarrow>
         if actual \<noteq> expected then False
         else case walk G r snapshot [] of
           Inl e \<Rightarrow> False
         | Inr dir_entries \<Rightarrow>
             (case map_of (walk_files dir_entries) filepath of
                None \<Rightarrow> False
              | Some entry \<Rightarrow> file_type_from_mode (we_mode entry) = Some Executable))"

definition spec_files :: "Spec \<Rightarrow> string list" where
  "spec_files spec = map fst (members (sp_files spec) @ members (sp_symlinks spec) @
     members (sp_binary_files spec) @ members (sp_executable_files spec))"

text \<open>A walk that throws leaves \<^verbatim>\<open>all_files\<close> empty.\<close>

definition snapshot_files :: "('r, 'b) libgit2 \<Rightarrow> 'r \<Rightarrow> Fs \<Rightarrow> string list" where
  "snapshot_files G r snapshot =
     (case walk G r snapshot [] of Inr dir_entries \<Rightarrow> map fst (walk_files dir_entries) | Inl e \<Rightarrow> [])"

definition check_basic :: "('r, 'b) libgit2 \<Rightarrow> 'r \<Rightarrow> Fs \<Rightarrow> Spec \<Rightarrow> nat" where
  "check_basic G r snapshot spec =
     (let all_files = snapshot_files G r snapshot; expected_files = spec_files spec;
          extra = filter (\<lambda>f. f \<notin> set expected_files) all_files;
          missing = filter (\<lambda>f. f \<notin> set all_files) expected_files
      in failures (text_passes G r snapshot) (members (sp_files spec)) +
         failures (symlink_passes G r snapshot) (members (sp_symlinks spec)) +
         failures (binary_passes G r snapshot) (members (sp_binary_files spec)) +
         failures (executable_passes G r snapshot) (members (sp_executable_files spec)) +
         (if extra \<noteq> [] then 1 else 0) + (if missing \<noteq> [] then 1 else 0))"

text \<open>
  The \<^verbatim>\<open>while (true)\<close> loop that counts the commits of a branch; fuel is the depth of the commit
  plus two, which \<open>count_commits_total\<close> shows to be enough.
\<close>

fun count_commits :: "('r, 'b) libgit2 \<Rightarrow> 'r \<Rightarrow> nat \<Rightarrow> Fs \<Rightarrow> nat \<Rightarrow> nat res" where
  "count_commits G r 0 cur count = Inl Nontermination"
| "count_commits G r (Suc fuel) cur count =
     ebind (parent G r cur) (\<lambda>p. case p of
       None \<Rightarrow> Inr (Suc count)
     | Some q \<Rightarrow> count_commits G r fuel q (Suc count))"

definition history_fuel :: "('r, 'b) libgit2 \<Rightarrow> 'r \<Rightarrow> Fs \<Rightarrow> nat" where
  "history_fuel G r fs =
     Suc (Suc (case hex_to_oid G (commit_oid_hex fs) of Inr oid \<Rightarrow> git_commit_depth G r oid | Inl _ \<Rightarrow> 0))"

definition check_history :: "('r, 'b) libgit2 \<Rightarrow> 'r \<Rightarrow> Inner \<Rightarrow> string \<Rightarrow> Spec \<Rightarrow> nat res" where
  "check_history G r store branch spec =
     ebind (refdict_get G r (branches store) branch) (\<lambda>snapshot.
       let commits = members (sp_commits spec); num_commits = length commits in
       if commits = [] then Inl Undefined_behaviour
       else
         ebind (emap (exists_path G r snapshot) (members (step_removes (last commits)))) (\<lambda>kept.
         ebind (count_commits G r (history_fuel G r snapshot) snapshot 0) (\<lambda>count.
           Inr (failures (text_passes G r snapshot) (members (step_files (last commits))) +
             failures Not kept +
             (case back_fs G r snapshot (num_commits - 1) of
                Inr back \<Rightarrow> failures (text_passes G r back) (members (step_files (hd commits)))
              | Inl e \<Rightarrow> 1) +
             (if count \<noteq> num_commits + 1 then 1 else 0)))))"

definition check_notes :: "('r, 'b) libgit2 \<Rightarrow> 'r \<Rightarrow> Inner \<Rightarrow> string \<Rightarrow> Spec \<Rightarrow> nat res" where
  "check_notes G r store branch spec =
     ebind (refdict_get G r (branches store) branch) (\<lambda>snapshot.
       case commit_hash snapshot of
         None \<Rightarrow> Inl Undefined_behaviour
       | Some hash \<Rightarrow> Inr (failures (\<lambda>(ns_name, expected_text).
           case note_get G r (make_namespace store ns_name) hash of
             Inr actual \<Rightarrow> actual = expected_text | Inl e \<Rightarrow> False) (members (sp_notes spec))))"

text \<open>The part of the loop of \<^verbatim>\<open>main\<close> that both modes share.\<close>

definition check_fixture :: "('r, 'b) libgit2 \<Rightarrow> 'r \<Rightarrow> Inner \<Rightarrow> Spec \<Rightarrow> nat res" where
  "check_fixture G r store spec =
     (let branch = spec_branch spec in
      ebind (if sp_commits spec \<noteq> None then check_history G r store branch spec
             else ebind (refdict_get G r (branches store) branch) (\<lambda>snapshot.
               Inr (check_basic G r snapshot spec))) (\<lambda>basic.
      ebind (if sp_notes spec \<noteq> None then check_notes G r store branch spec else Inr 0) (\<lambda>notes.
        Inr (basic + notes))))"

text \<open>The mode for a repository, and the mode for a bundle with the directory \<^verbatim>\<open>mkdtemp\<close> made.\<close>

definition check_repo :: "('r, 'b) libgit2 \<Rightarrow> 'r mirror_host \<Rightarrow> string \<Rightarrow> string \<Rightarrow> string \<Rightarrow> Spec \<Rightarrow> ('r, nat) vop" where
  "check_repo G M repo_dir pfx name spec =
     (let repo_path = repo_dir @ ''/'' @ pfx @ ''_'' @ name @ ''.git'' in
      sbind (sread (\<lambda>r. Inr (host_exists M r repo_path))) (\<lambda>there.
        if \<not> there then sreturn 1
        else sbind (open_store G (host.truncate M) repo_path
            \<lparr>oo_create = False, oo_branch = None, oo_author = None, oo_email = None,
             oo_compression = None, oo_big_file_threshold = None\<rparr>) (\<lambda>store.
          sread (\<lambda>r. check_fixture G r store spec))))"

definition check_bundle :: "('r, 'b) libgit2 \<Rightarrow> 'r mirror_host \<Rightarrow> string \<Rightarrow> string \<Rightarrow> string \<Rightarrow> string \<Rightarrow> Spec \<Rightarrow> ('r, nat) vop" where
  "check_bundle G M tmp repo_dir pfx name spec =
     (let bundle_path = repo_dir @ ''/'' @ pfx @ ''_'' @ name @ ''.bundle'' in
      sbind (sread (\<lambda>r. Inr (host_exists M r bundle_path))) (\<lambda>there.
        if \<not> there then sreturn 1
        else sbind (open_store G (host.truncate M) (tmp @ ''/store.git'')
            \<lparr>oo_create = True, oo_branch = Some (spec_branch spec), oo_author = None, oo_email = None,
             oo_compression = None, oo_big_file_threshold = None\<rparr>) (\<lambda>store.
          sbind (restore G M store bundle_path
            \<lparr>rs_dry_run = False, rs_refs = [], rs_format = [], rs_ref_map = []\<rparr>) (\<lambda>_.
          sread (\<lambda>r. check_fixture G r store spec)))))"

section \<open>Base64: the encoder of the fixtures\<close>

text \<open>The encoding of RFC 4648, as a reference.\<close>

definition b64_char :: "nat \<Rightarrow> char" where
  "b64_char n = b64_chars ! n"

fun b64_encode :: "byte list \<Rightarrow> string" where
  "b64_encode [] = []"
| "b64_encode [a] = [b64_char (unat a div 4), b64_char (unat a mod 4 * 16), CHR ''='', CHR ''='']"
| "b64_encode [a, b] = [b64_char (unat a div 4), b64_char (unat a mod 4 * 16 + unat b div 16),
     b64_char (unat b mod 16 * 4), CHR ''='']"
| "b64_encode (a # b # c # bs) =
     b64_char (unat a div 4) # b64_char (unat a mod 4 * 16 + unat b div 16) #
     b64_char (unat b mod 16 * 4 + unat c div 64) # b64_char (unat c mod 64) # b64_encode bs"

lemma b64_value_char: "n < 64 \<Longrightarrow> b64_value (b64_char n) = Some n"
proof -
  have "list_all (\<lambda>n. b64_value (b64_char n) = Some n) [0..<64]" by code_simp
  then show "n < 64 \<Longrightarrow> b64_value (b64_char n) = Some n" by (simp add: list_all_iff)
qed

lemma b64_value_pad: "b64_value (CHR ''='') = None"
  by code_simp

text \<open>The byte that leaves the register is eight of its bits.\<close>

lemma b64_byte:
  assumes "n \<le> 24"
  shows "ucast (and (signed_drop_bit n (word_of_nat x :: u32)) 0xFF) = (word_of_nat (x div 2 ^ n) :: byte)"
proof (rule bit_word_eqI)
  fix i
  assume i: "i < LENGTH(8)"
  have ff: "(0xFF :: u32) = mask 8" by (simp add: mask_eq_exp_minus_1)
  from i assms show "bit (ucast (and (signed_drop_bit n (word_of_nat x :: u32)) 0xFF) :: byte) i \<longleftrightarrow>
      bit (word_of_nat (x div 2 ^ n) :: byte) i"
    unfolding ff
    by (auto simp: bit_simps possible_bit_word simp flip: drop_bit_eq_div)
qed

lemma b64_step:
  assumes "t < 64" "- 8 \<le> valb" "valb < 0"
  shows "b64_loop (b64_char t # cs) (word_of_nat x) valb =
    (if valb + 6 \<ge> 0 then word_of_nat ((64 * x + t) div 2 ^ nat (valb + 6)) # b64_loop cs (word_of_nat (64 * x + t)) (valb - 2)
     else b64_loop cs (word_of_nat (64 * x + t)) (valb + 6))"
proof -
  have "push_bit 6 (word_of_nat x :: u32) + word_of_nat t = word_of_nat (64 * x + t)"
    by (simp add: push_bit_eq_mult mult.commute)
  moreover have "nat (valb + 6) \<le> 24" using assms(3) by simp
  ultimately show ?thesis
    unfolding b64_loop.simps b64_value_char [OF assms(1)] option.case Let_def by (simp only: b64_byte) simp
qed

declare b64_loop.simps(2) [simp del]

lemma byte_of_nat: "n mod 256 = unat (a :: byte) \<Longrightarrow> word_of_nat n = a"
  by (simp add: word_unat_eq_iff unat_of_nat)

lemma unat_byte: "unat (a :: byte) < 256"
  using unsigned_less [of a, where ?'a = nat] by simp

lemma shifted_out:
  fixes x k u d e :: nat
  assumes "e = d * (256 * x + k) + u" "u < d" "k < 256"
  shows "e div d mod 256 = k"
  using assms by simp

lemma regroup: "64 * (64 * x + p) + (q * 16 + u) = 16 * (256 * x + (4 * p + q)) + (u :: nat)"
  by simp

lemma regroup2: "64 * (64 * w + (k * 16 + u)) + (v * 4 + m) = 4 * (256 * (4 * w + k) + (16 * u + v)) + (m :: nat)"
  by simp

text \<open>A group of three bytes, and the two shorter groups at the end.\<close>

lemma b64_group:
  fixes a b :: byte
  shows "\<exists>y. b64_loop (b64_char (unat a div 4) # b64_char (unat a mod 4 * 16 + unat b div 16) # cs) (word_of_nat x) (- 8) =
     a # b64_loop cs (word_of_nat y) (- 4) \<and> y mod 64 = unat a mod 4 * 16 + unat b div 16"
proof -
  let ?t = "unat a mod 4 * 16 + unat b div 16"
  let ?y = "64 * (64 * x + unat a div 4) + ?t"
  have u: "unat b div 16 < 16" and p: "unat a div 4 < 64" using unat_byte [of a] unat_byte [of b] by simp_all
  have t: "?t < 64" using u mod_less_divisor [of 4 "unat a"] by linarith
  have "?y = 16 * (256 * x + (4 * (unat a div 4) + unat a mod 4)) + unat b div 16"
    by (rule regroup)
  from shifted_out [OF this u] have "?y div 16 mod 256 = unat a" using unat_byte [of a] by simp
  then have "b64_loop (b64_char (unat a div 4) # b64_char ?t # cs) (word_of_nat x) (- 8) =
      a # b64_loop cs (word_of_nat ?y) (- 4)"
    by (simp add: b64_step [OF p] b64_step [OF t] byte_of_nat del: of_nat_add of_nat_mult)
  moreover have "?y mod 64 = ?t" using t by (simp only: mod_mult_self4 mod_less)
  ultimately show ?thesis by blast
qed

lemma b64_second:
  assumes "y mod 64 = k * 16 + unat (b :: byte) div 16" "t = unat b mod 16 * 4 + m" "m < 4"
  shows "b64_loop (b64_char t # cs) (word_of_nat y) (- 4) = b # b64_loop cs (word_of_nat (64 * y + t)) (- 6)"
proof -
  have t: "t < 64" using assms(2,3) mod_less_divisor [of 16 "unat b"] by linarith
  define w where "w = y div 64"
  have "y = 64 * w + (k * 16 + unat b div 16)" unfolding w_def assms(1) [symmetric] by simp
  then have "64 * y + t = 4 * (256 * (4 * w + k) + (16 * (unat b div 16) + unat b mod 16)) + m"
    using assms(2) by (simp only: regroup2)
  from shifted_out [OF this assms(3)] have "(64 * y + t) div 4 mod 256 = unat b"
    using unat_byte [of b] by simp
  with t show ?thesis by (simp add: b64_step byte_of_nat del: of_nat_add of_nat_mult)
qed

lemma b64_third:
  "b64_loop (b64_char (unat (c :: byte) mod 64) # cs) (word_of_nat (64 * y + (j * 4 + unat c div 64))) (- 6) =
    c # b64_loop cs (word_of_nat (64 * (64 * y + (j * 4 + unat c div 64)) + unat c mod 64)) (- 8)"
proof -
  have "(64 * (64 * y + (j * 4 + unat c div 64)) + unat c mod 64) mod 256 = unat c"
  proof -
    have "64 * (64 * y + (j * 4 + unat c div 64)) + unat c mod 64 =
        1 * (256 * (16 * y + j) + (64 * (unat c div 64) + unat c mod 64)) + 0" by simp
    from shifted_out [OF this] unat_byte [of c] show ?thesis by simp
  qed
  then show ?thesis using b64_step [of "unat c mod 64" "- 6" cs] by (simp add: byte_of_nat del: of_nat_add of_nat_mult)
qed

lemma b64_loop_encode: "b64_loop (b64_encode bs) (word_of_nat x) (- 8) = bs"
proof (induction bs arbitrary: x rule: b64_encode.induct)
  case (2 a)
  show ?case using b64_group [of a 0 "''==''" x] by (auto simp: b64_value_pad b64_loop.simps(2))
next
  case (3 a b)
  from b64_group [of a b "b64_char (unat b mod 16 * 4) # ''=''" x] obtain y where
      y: "b64_loop (b64_encode [a, b]) (word_of_nat x) (- 8) =
        a # b64_loop (b64_char (unat b mod 16 * 4) # ''='') (word_of_nat y) (- 4)"
        "y mod 64 = unat a mod 4 * 16 + unat b div 16" by auto
  from b64_second [OF y(2), of _ 0] y(1) show ?case by (simp add: b64_value_pad b64_loop.simps(2))
next
  case (4 a b c bs)
  have m: "unat c div 64 < 4" using unat_byte [of c] by simp
  let ?cs = "b64_char (unat b mod 16 * 4 + unat c div 64) # b64_char (unat c mod 64) # b64_encode bs"
  from b64_group [of a b ?cs x] obtain y where
      y: "b64_loop (b64_encode (a # b # c # bs)) (word_of_nat x) (- 8) = a # b64_loop ?cs (word_of_nat y) (- 4)"
        "y mod 64 = unat a mod 4 * 16 + unat b div 16" by auto
  show ?case unfolding y(1) b64_second [OF y(2) refl m] b64_third "4.IH" by simp
qed simp

section \<open>The commits of a branch\<close>

context git_odb
begin

lemma parent_in_history:
  assumes "history G r (commit_oid_hex cur) ((h, meta) # hs)"
  shows "parent G r cur = Inr (if hs = [] then None
    else Some (make_fs (inner cur) (cm_parent_oid_hex meta)
      (case read_commit G r (cm_parent_oid_hex meta) of Inr m \<Rightarrow> cm_tree_oid_hex m | Inl _ \<Rightarrow> [])
      (ref_name cur) (writable cur) None))"
proof (cases hs)
  case Nil
  with assms have h: "h = commit_oid_hex cur" "h \<noteq> []" "read_commit G r h = Inr meta"
      and "history G r (cm_parent_oid_hex meta) []" by (simp_all add: history_Cons)
  from this(4) have "cm_parent_oid_hex meta = []" by (auto elim: history.cases)
  with h Nil show ?thesis by (simp add: parent_def)
next
  case (Cons x hs')
  obtain h' m where x: "x = (h', m)" by (cases x)
  from assms have h: "h = commit_oid_hex cur" "h \<noteq> []" "read_commit G r h = Inr meta"
      and "history G r (cm_parent_oid_hex meta) hs" by (simp_all add: history_Cons)
  with Cons x have p: "cm_parent_oid_hex meta \<noteq> []" "read_commit G r (cm_parent_oid_hex meta) = Inr m"
    by (simp_all add: history_Cons)
  from read_commit_tostr [OF p(2)] obtain oid and c :: git_commit where
      "git_oid_fromstr G (cm_parent_oid_hex meta) = Some oid"
      "git_commit_lookup G r oid = Some c" "cm_tree_oid_hex m = git_oid_tostr G (gc_tree c)" by blast
  with h p Cons show ?thesis by (simp add: parent_def)
qed

lemma count_commits_history:
  assumes "history G r (commit_oid_hex cur) hs" "hs \<noteq> []" "length hs < fuel"
  shows "count_commits G r fuel cur n = Inr (n + length hs)"
  using assms
proof (induction hs arbitrary: cur fuel n rule: list.induct)
  case (Cons x hs)
  obtain h meta k where x: "x = (h, meta)" "fuel = Suc k" using Cons.prems(3) by (cases x; cases fuel) auto
  note P = parent_in_history [OF Cons.prems(1) [unfolded x(1)]]
  show ?case
  proof (cases "hs = []")
    case False
    have "history G r (cm_parent_oid_hex meta) hs" using Cons.prems(1) x by (simp add: history_Cons)
    then show ?thesis using Cons.IH [of _ k "Suc n"] False Cons.prems(3) P x by (simp add: make_fs_def)
  qed (use P x in simp)
qed simp

lemma count_commits_total:
  assumes "history G r (commit_oid_hex cur) hs" "hs \<noteq> []"
  shows "count_commits G r (history_fuel G r cur) cur 0 = Inr (length hs)"
proof -
  from assms have "commit_oid_hex cur \<noteq> []" by (auto elim: history.cases)
  with history_length [OF assms(1)] have "length hs < history_fuel G r cur"
    by (auto simp: history_fuel_def hex_to_oid_def)
  from count_commits_history [OF assms this] show ?thesis by simp
qed

end

section \<open>What the writer stages\<close>

definition scenario_writes :: "Spec \<Rightarrow> tree_write list" where
  "scenario_writes spec =
     map (\<lambda>(p, c). (p, to_bytes c, MODE_BLOB)) (members (sp_files spec)) @
     map (\<lambda>(p, t). (p, to_bytes t, MODE_LINK)) (members (sp_symlinks spec)) @
     map (\<lambda>(p, b). (p, b64_decode b, MODE_BLOB)) (members (sp_binary_files spec)) @
     map (\<lambda>(p, c). (p, to_bytes c, MODE_BLOB_EXEC)) (members (sp_executable_files spec))"

lemma scenario_writes_keys: "map fst (scenario_writes spec) = spec_files spec"
  by (simp add: scenario_writes_def spec_files_def comp_def case_prod_unfold)

lemma each_append: "each f (xs @ ys) = (\<lambda>s. ebind (each f xs s) (each f ys))"
  by (induction xs) (auto simp: ebind_def fun_eq_iff split: sum.splits)

lemma each_map: "each f (map g xs) = each (\<lambda>x. f (g x)) xs"
proof (induction xs)
  case (Cons x xs)
  show ?case by (rule ext) (simp add: Cons.IH)
qed (simp add: fun_eq_iff)

lemma stage_scenario_eq:
  "stage_scenario spec b = each (\<lambda>(p, d, m) b. batch_write_with_mode b p d m) (scenario_writes spec) b"
  by (simp add: stage_scenario_def scenario_writes_def each_append each_map batch_write_def
      batch_write_symlink_def case_prod_unfold)

lemma stage_fresh:
  assumes "distinct (map fst (b_writes b @ ws))" "b_removes b = []" "\<not> b_closed b" "\<forall>w\<in>set ws. normal_path (fst w)"
  shows "each (\<lambda>(p, d, m) b. batch_write_with_mode b p d m) ws b = Inr (b\<lparr>b_writes := b_writes b @ ws\<rparr>)"
  using assms
proof (induction ws arbitrary: b)
  case (Cons w ws)
  obtain p dm where w: "w = (p, dm)" by (cases w)
  have "filter (\<lambda>w. fst w \<noteq> p) (b_writes b) = b_writes b"
    using Cons.prems(1) w by (auto simp: filter_id_conv)
  then have "batch_write_with_mode b p (fst dm) (snd dm) = Inr (b\<lparr>b_writes := b_writes b @ [w]\<rparr>)"
    using Cons.prems w by (simp add: batch_write_with_mode_def require_open_def normalize_normal stage_write_def)
  moreover have "each (\<lambda>(p, d, m) b. batch_write_with_mode b p d m) ws (b\<lparr>b_writes := b_writes b @ [w]\<rparr>) =
      Inr (b\<lparr>b_writes := b_writes b @ [w]\<rparr>\<lparr>b_writes := (b_writes b @ [w]) @ ws\<rparr>)"
    using Cons.IH [of "b\<lparr>b_writes := b_writes b @ [w]\<rparr>"] Cons.prems by simp
  ultimately show ?case using w by (simp add: case_prod_unfold)
qed simp

definition fixture_ok :: "Spec \<Rightarrow> bool" where
  "fixture_ok spec \<longleftrightarrow> distinct (spec_files spec) \<and> path_antichain (set (spec_files spec)) \<and>
     (\<forall>p\<in>set (spec_files spec). normal_path p \<and> p \<noteq> [])"

text \<open>A snapshot whose files are exactly the written ones.\<close>

definition holds_exactly :: "('r, 'b) libgit2 \<Rightarrow> 'r \<Rightarrow> Fs \<Rightarrow> tree_write list \<Rightarrow> bool" where
  "holds_exactly G r fs ws \<longleftrightarrow> fs_typed G r fs \<and> tree_oid_hex fs \<noteq> [] \<and>
     (\<forall>(p, d, m)\<in>set ws. fs_node G r fs (split_slash p) = Inr (Some (File d m))) \<and>
     (\<forall>q d m. q \<noteq> [] \<and> fs_node G r fs q = Inr (Some (File d m)) \<longrightarrow> q \<in> split_slash ` fst ` set ws)"

lemma scenario_writes_ok:
  assumes "fixture_ok spec"
  shows "\<forall>w\<in>set (scenario_writes spec). normal_path (fst w) \<and> fst w \<noteq> []" "distinct (map fst (scenario_writes spec))"
proof -
  have "fst w \<in> set (spec_files spec)" if "w \<in> set (scenario_writes spec)" for w
    using imageI [OF that, of fst] scenario_writes_keys [of spec] by (simp flip: set_map)
  then show "\<forall>w\<in>set (scenario_writes spec). normal_path (fst w) \<and> fst w \<noteq> []" "distinct (map fst (scenario_writes spec))"
    using assms by (simp_all add: fixture_ok_def scenario_writes_keys)
qed

lemma stage_scenario_Inr:
  assumes "fixture_ok spec"
  shows "stage_scenario spec (make_batch fs opts) = Inr ((make_batch fs opts)\<lparr>b_writes := scenario_writes spec\<rparr>)"
  using stage_fresh [of "make_batch fs opts" "scenario_writes spec"] scenario_writes_ok [OF assms]
  by (simp add: stage_scenario_eq make_batch_def)

lemma write_scenario_commits:
  assumes "write_scenario G store branch spec r = (Inr (), r')" "refdict_get G r (branches store) branch = Inr fs"
    "fixture_ok spec"
  shows "\<exists>msg fs'. commit_changes G fs (scenario_writes spec) [] msg None [] r = (Inr fs', r')"
  using assms(1,2)
  by (auto simp: write_scenario_def outcome_iff stage_scenario_Inr [OF assms(3)] commit_batch_def batch_commit_def
      require_open_def split: prod.splits sum.splits) (auto simp: make_batch_def)

context git_odb
begin

lemma walk_snapshot:
  assumes "fs_typed G r fs" "tree_oid_hex fs \<noteq> []"
  shows "\<exists>es. walk G r fs [] = Inr es \<and>
    (\<forall>(path, we)\<in>set (walk_files es). \<exists>q d. q \<noteq> [] \<and> path = join_slash q \<and> (\<forall>s\<in>set q. segment s) \<and>
       fs_node G r fs q = Inr (Some (File d (we_mode we)))) \<and>
    (\<forall>q d m. q \<noteq> [] \<and> fs_node G r fs q = Inr (Some (File d m)) \<longrightarrow>
       (\<exists>we. (join_slash q, we) \<in> set (walk_files es) \<and> we_mode we = m))"
proof -
  from snapshot_root [OF assms] obtain root where root: "hex_to_oid G (tree_oid_hex fs) = Inr root"
      and total: "\<forall>p. p \<noteq> [] \<longrightarrow> (\<exists>x. entry_at_segs G r root p = Inr x)"
      and node: "\<forall>q we. (q, we) \<in> files_below G r root \<longrightarrow> q \<noteq> [] \<and> (\<exists>d. fs_node G r fs q = Inr (Some (File d (we_mode we))))"
      and below: "\<forall>q d m. q \<noteq> [] \<and> fs_node G r fs q = Inr (Some (File d m)) \<longrightarrow>
        (\<exists>we. (q, we) \<in> files_below G r root \<and> we_mode we = m)" by (elim exE conjE)
  from walk_dirs_rec_total [OF total [rule_format] root, of "Suc (git_tree_depth G r root)" "[]"] obtain es where
      es: "walk_dirs_rec G r (Suc (git_tree_depth G r root)) (tree_oid_hex fs) [] = Inr es" by blast
  then have walk: "walk G r fs [] = Inr es"
    using assms(2) root
    by (simp add: walk_def require_tree_def normalize_normal walk_tree_dirs_def target_tree_def del: walk_dirs_rec.simps)
  have files: "set (walk_files es) = (\<lambda>(q, we). (join_slash q, we)) ` files_below G r root"
    using walk_dirs_entries [OF es root] by (simp add: under_def case_prod_unfold)
  have "\<exists>q d. q \<noteq> [] \<and> path = join_slash q \<and> (\<forall>s\<in>set q. segment s) \<and>
      fs_node G r fs q = Inr (Some (File d (we_mode we)))" if "(path, we) \<in> set (walk_files es)" for path we
  proof -
    from that obtain q where q: "path = join_slash q" "(q, we) \<in> files_below G r root" unfolding files by auto
    with node files_below_segments [OF q(2)] show ?thesis by blast
  qed
  moreover have "\<exists>we. (join_slash q, we) \<in> set (walk_files es) \<and> we_mode we = m"
    if "q \<noteq> []" "fs_node G r fs q = Inr (Some (File d m))" for q d m
    using below that unfolding files by force
  ultimately show ?thesis using walk by (intro exI [of _ es]) blast
qed

end

lemma apply_changes_file:
  assumes "apply_changes ws [] (\<lambda>_. None) q = Some (File d m)"
  shows "q \<in> split_slash ` fst ` set ws"
proof -
  from assms have "map_of (rev (map write_node ws)) q = Some (File d m)"
    by (auto simp: apply_changes_def Let_def split: if_splits option.splits)
  then have "(q, File d m) \<in> set (map write_node ws)" by (metis map_of_SomeD set_rev)
  then show ?thesis unfolding write_node_mem by blast
qed

lemma scenario_writes_mem:
  "(p, c) \<in> set (members (sp_files spec)) \<Longrightarrow> (p, to_bytes c, MODE_BLOB) \<in> set (scenario_writes spec)"
  "(p, c) \<in> set (members (sp_symlinks spec)) \<Longrightarrow> (p, to_bytes c, MODE_LINK) \<in> set (scenario_writes spec)"
  "(p, c) \<in> set (members (sp_binary_files spec)) \<Longrightarrow> (p, b64_decode c, MODE_BLOB) \<in> set (scenario_writes spec)"
  "(p, c) \<in> set (members (sp_executable_files spec)) \<Longrightarrow> (p, to_bytes c, MODE_BLOB_EXEC) \<in> set (scenario_writes spec)"
  by (force simp: scenario_writes_def)+

lemma no_failures: "(\<And>p c. (p, c) \<in> set xs \<Longrightarrow> passes (p, c)) \<Longrightarrow> failures passes xs = 0"
  by (auto simp: failures_def filter_empty_conv)

lemma scenario_modes: "w \<in> set (scenario_writes spec) \<Longrightarrow> snd (snd w) \<noteq> MODE_TREE"
  by (auto simp: scenario_writes_def MODE_BLOB_def MODE_TREE_def MODE_LINK_def MODE_BLOB_EXEC_def)

context git_refdb
begin

lemma scenario_holds:
  assumes "commit_changes G fs (scenario_writes spec) [] msg None [] r = (Inr fs', r')" "fixture_ok spec"
    "fs_typed G r fs" "\<And>p. p \<noteq> [] \<Longrightarrow> fs_node G r fs p = Inr None"
  shows "holds_exactly G r' fs' (scenario_writes spec)"
proof -
  let ?ws = "scenario_writes spec" and ?F = "set (spec_files spec)"
  have F: "path_antichain ?F" "\<forall>q\<in>?F. normal_path q" "fst ` set ?ws = ?F"
    using assms(2) scenario_writes_keys [of spec] by (auto simp: fixture_ok_def simp flip: set_map)
  note ok = scenario_writes_ok [OF assms(2)]
  note C = commit_changes_Inr [OF assms(1)]
  have S: "settled ?ws []" using F by (intro settled_antichain [OF F(1)]) (simp_all add: scenario_modes)
  have node: "fs_node G r' fs' q = Inr (apply_changes ?ws [] (\<lambda>_. None) q)" if "q \<noteq> []" for q
    using committed_node [where old = "\<lambda>_. None", OF C S that assms(4) [OF that]] .
  have "fs_node G r' fs' (split_slash p) = Inr (Some (File d m))" if w: "(p, d, m) \<in> set ?ws" for p d m
  proof -
    have p: "p \<in> ?F" using w F(3) by force
    with assms(2) have ne: "p \<noteq> []" "split_slash p \<noteq> []"
      using normal_path_Nil_iff by (auto simp: fixture_ok_def)
    have val: "snd w = the (map_of ?ws (fst w))" if "w \<in> set ?ws" for w
      using map_of_is_SomeI [OF ok(2), of "fst w" "snd w"] that by simp
    have "the (map_of ?ws p) = (d, m)" using w ok(2) by simp
    with apply_changes_antichain [OF F(1,2) _ _ p ne(1) val, where rms = "[]" and old = "\<lambda>_. None"] F(3) p
    show ?thesis using node [OF ne(2)] by simp
  qed
  moreover have "q \<in> split_slash ` fst ` set ?ws"
    if "q \<noteq> []" "fs_node G r' fs' q = Inr (Some (File d m))" for q d m
    using that node apply_changes_file by simp
  ultimately show ?thesis
    using fs_typed_committed [OF assms(1) S assms(3)] committed_tree [OF C] by (auto simp: holds_exactly_def)
qed

end

context git_odb
begin

lemma holds_reads:
  assumes "holds_exactly G r fs ws" "(p, d, m) \<in> set ws" "normal_path p" "p \<noteq> []"
  shows "read G r fs p = Inr d" "m = MODE_LINK \<Longrightarrow> readlink G r fs p = Inr (from_bytes d)"
proof -
  have "fs_node G r fs (split_slash p) = Inr (Some (File d m))" using assms(1,2) by (auto simp: holds_exactly_def)
  with typed_reads [OF _ normalize_normal [OF assms(3)] assms(4), of r fs] assms(1)
  show "read G r fs p = Inr d" "m = MODE_LINK \<Longrightarrow> readlink G r fs p = Inr (from_bytes d)"
    by (auto simp: holds_exactly_def read_outcome_def link_outcome_def)
qed

lemma holds_walk:
  assumes "holds_exactly G r fs ws" "\<forall>w\<in>set ws. normal_path (fst w) \<and> fst w \<noteq> []" "distinct (map fst ws)"
  shows "\<exists>es. walk G r fs [] = Inr es \<and> fst ` set (walk_files es) = fst ` set ws \<and>
    (\<forall>(p, d, m)\<in>set ws. \<exists>we. map_of (walk_files es) p = Some we \<and> we_mode we = m)"
proof -
  have "fs_typed G r fs" "tree_oid_hex fs \<noteq> []" using assms(1) by (simp_all add: holds_exactly_def)
  from walk_snapshot [OF this] obtain es where es: "walk G r fs [] = Inr es"
      and L: "\<forall>(path, we)\<in>set (walk_files es). \<exists>q d. q \<noteq> [] \<and> path = join_slash q \<and> (\<forall>s\<in>set q. segment s) \<and>
        fs_node G r fs q = Inr (Some (File d (we_mode we)))"
      and T: "\<forall>q d m. q \<noteq> [] \<and> fs_node G r fs q = Inr (Some (File d m)) \<longrightarrow>
        (\<exists>we. (join_slash q, we) \<in> set (walk_files es) \<and> we_mode we = m)" by (elim exE conjE)
  note listed = bspec [OF L, unfolded case_prod_unfold]
  note there = T [rule_format, OF conjI]
  have node: "fs_node G r fs (split_slash p) = Inr (Some (File d m))" "split_slash p \<noteq> []" "join_slash (split_slash p) = p"
    if "(p, d, m) \<in> set ws" for p d m
  proof -
    have "normal_path p \<and> p \<noteq> []" using assms(2) that by force
    then show "split_slash p \<noteq> []" "join_slash (split_slash p) = p" using normal_path_Nil_iff [of p] by (simp_all add: normal_path_def)
    show "fs_node G r fs (split_slash p) = Inr (Some (File d m))" using assms(1) that by (auto simp: holds_exactly_def)
  qed
  have "fst ` set (walk_files es) \<subseteq> fst ` set ws"
  proof (rule image_subsetI)
    fix x
    assume "x \<in> set (walk_files es)"
    then obtain q d m where q: "q \<noteq> []" "fst x = join_slash q" "fs_node G r fs q = Inr (Some (File d m))"
      using listed by blast
    with assms(1) have "q \<in> split_slash ` fst ` set ws" unfolding holds_exactly_def by blast
    then obtain p d' m' where "(p, d', m') \<in> set ws" "q = split_slash p" by auto
    with q(2) node(3) show "fst x \<in> fst ` set ws" by force
  qed
  moreover have "\<exists>we. map_of (walk_files es) p = Some we \<and> we_mode we = m" if w: "(p, d, m) \<in> set ws" for p d m
  proof -
    from there [OF node(2) [OF w] node(1) [OF w]] node(3) [OF w] obtain we where "(p, we) \<in> set (walk_files es)" by auto
    then obtain we' where we': "map_of (walk_files es) p = Some we'"
      by (metis (no_types) map_of_eq_None_iff not_None_eq fst_conv image_eqI)
    from listed [OF map_of_SomeD [OF this]] obtain q d' where
        q: "p = join_slash q" "\<forall>s\<in>set q. segment s" "fs_node G r fs q = Inr (Some (File d' (we_mode we')))"
      unfolding fst_conv snd_conv by blast
    then have "split_slash p = q" by (simp add: split_join)
    with q(3) node(1) [OF w] we' show ?thesis by simp
  qed
  moreover have "fst ` set ws \<subseteq> fst ` set (walk_files es)"
  proof (rule image_subsetI)
    fix w
    assume w: "w \<in> set ws"
    obtain p d m where "w = (p, d, m)" by (cases w)
    with w there [OF node(2) node(1), of p d m d m] node(3) [of p d m] show "fst w \<in> fst ` set (walk_files es)" by force
  qed
  ultimately show ?thesis using es by (intro exI [of _ es] conjI equalityI) blast+
qed

lemma check_basic_passes:
  assumes "holds_exactly G r fs (scenario_writes spec)" "fixture_ok spec"
  shows "check_basic G r fs spec = 0"
proof -
  let ?ws = "scenario_writes spec"
  note ok = scenario_writes_ok [OF assms(2)]
  from holds_walk [OF assms(1) ok] obtain es where
      es: "walk G r fs [] = Inr es" "fst ` set (walk_files es) = fst ` set ?ws"
      and modes: "\<forall>(p, d, m)\<in>set ?ws. \<exists>we. map_of (walk_files es) p = Some we \<and> we_mode we = m" by (elim exE conjE)
  have reads: "read G r fs p = Inr d" "m = MODE_LINK \<Longrightarrow> readlink G r fs p = Inr (from_bytes d)"
    if "(p, d, m) \<in> set ?ws" for p d m
    using holds_reads [OF assms(1) that] bspec [OF ok(1) that] by simp_all
  have "failures (text_passes G r fs) (members (sp_files spec)) = 0"
    by (intro no_failures) (simp add: text_passes_def read_text_def reads(1) [OF scenario_writes_mem(1)])
  moreover have "failures (symlink_passes G r fs) (members (sp_symlinks spec)) = 0"
    by (intro no_failures) (simp add: symlink_passes_def reads(2) [OF scenario_writes_mem(2)])
  moreover have "failures (binary_passes G r fs) (members (sp_binary_files spec)) = 0"
    by (intro no_failures) (simp add: binary_passes_def reads(1) [OF scenario_writes_mem(3)])
  moreover have "executable_passes G r fs (p, c)" if "(p, c) \<in> set (members (sp_executable_files spec))" for p c
  proof -
    note w = scenario_writes_mem(4) [OF that]
    from bspec [OF modes w] obtain we where "map_of (walk_files es) p = Some we" "we_mode we = MODE_BLOB_EXEC" by auto
    then show ?thesis
      by (simp add: reads(1) [OF w] es(1) executable_passes_def read_text_def file_type_from_mode_def MODE_BLOB_EXEC_def MODE_BLOB_def)
  qed
  then have "failures (executable_passes G r fs) (members (sp_executable_files spec)) = 0"
    by (rule no_failures)
  moreover have "set (snapshot_files G r fs) = set (spec_files spec)"
    using es by (simp add: snapshot_files_def flip: scenario_writes_keys)
  ultimately show ?thesis by (simp add: check_basic_def filter_empty_conv Let_def)
qed

end

text \<open>The snapshot that the dictionary of branches gives after a commit.\<close>

lemma committed_branch:
  assumes "committed G fs writes removes msg extra r fs' r'" "ref_name fs = Some branch"
  shows "\<exists>fs''. refdict_get G r' (branches (inner fs)) branch = Inr fs'' \<and> tree_oid_hex fs'' = tree_oid_hex fs'"
proof -
  from assms obtain coid c where c: "branch_tip G r' branch = Some coid" "git_commit_lookup G r' coid = Some c"
      "git_oid_tostr G (gc_tree c) = tree_oid_hex fs'" unfolding committed_def by auto
  then show ?thesis
    by (auto simp: refdict_get_def branches_def branch_tip_def branch_ref_def require_ok_def make_fs_def oid_to_hex_def
        split: option.splits)
qed

lemma refdict_get_origin:
  "refdict_get G r d name = Inr fs \<Longrightarrow> ref_name fs = Some name \<and> inner fs = rd_inner d"
  by (auto simp: refdict_get_def outcome_iff make_fs_def split: option.splits)

section \<open>Properties\<close>

text \<open>C40: \<^verbatim>\<open>b64_decode\<close> inverts the base64 encoding of RFC 4648: for every sequence of bytes, whatever its
  length and its padding, the decoder returns exactly the bytes that were encoded, although its
  register keeps only the low 32 bits of what has been shifted in; what follows the padding is ignored.\<close>

theorem b64_decode_encode: "b64_decode (b64_encode bs) = bs"
  using b64_loop_encode [of bs 0] by (simp add: b64_decode_def)

text \<open>C8: what the writer writes, the reader accepts. When \<^verbatim>\<open>cpp_write\<close> has written a fixture (texts,
  symbolic links, binary and executable files at canonical paths, none of which lies below another)
  to a branch that holds no file, \<^verbatim>\<open>cpp_read\<close> counts no failure on the repository: every file, link and
  mode is as the fixture says, and the walk finds no other file.\<close>

theorem written_scenario_checks:
  assumes "git_refdb G" "write_scenario G store (spec_branch spec) spec r = (Inr (), r')"
    "refdict_get G r (branches store) (spec_branch spec) = Inr fs" "fs_typed G r fs"
    "\<forall>p. p \<noteq> [] \<longrightarrow> fs_node G r fs p = Inr None"
    "fixture_ok spec" "sp_commits spec = None" "sp_notes spec = None"
  shows "check_fixture G r' store spec = Inr 0"
proof -
  note odb = git_refdb.axioms(1) [OF assms(1)]
  from write_scenario_commits [OF assms(2,3,6)] obtain msg fs' where
      C: "commit_changes G fs (scenario_writes spec) [] msg None [] r = (Inr fs', r')" by blast
  from git_refdb.scenario_holds [OF assms(1) C assms(6,4)] assms(5)
  have holds: "holds_exactly G r' fs' (scenario_writes spec)" by blast
  from refdict_get_origin [OF assms(3)] committed_branch [OF git_refdb.commit_changes_Inr [OF assms(1) C]]
  obtain fs'' where new: "refdict_get G r' (branches store) (spec_branch spec) = Inr fs''"
      "tree_oid_hex fs'' = tree_oid_hex fs'" by (auto simp: branches_def)
  have "fs_node G r' fs'' = fs_node G r' fs'" using new(2) by (simp add: fs_node_def fun_eq_iff)
  with holds new(2) have "holds_exactly G r' fs'' (scenario_writes spec)"
    by (simp add: holds_exactly_def fs_typed_def)
  from git_odb.check_basic_passes [OF odb this assms(6)] new(1) assms(7,8) show ?thesis
    by (simp add: check_fixture_def Let_def)
qed

text \<open>The witness writes a fixture with a text, an executable and a binary file to a fresh repository.\<close>

definition demo_spec :: Spec where
  "demo_spec = \<lparr>sp_branch = None, sp_files = Some [(''a'', ''hi'')], sp_symlinks = None,
     sp_binary_files = Some [(''b'', ''AQI='')], sp_executable_files = Some [(''x'', ''run'')],
     sp_commits = None, sp_notes = None\<rparr>"

definition fresh_mem :: mem where
  "fresh_mem = \<lparr>m_objs = [MTree [], MCommit \<lparr>gc_message = Some ''Initialize main'', gc_author = Some demo_author, gc_time = 7,
        gc_tree = mem_oid 0, gc_parents = []\<rparr>],
     m_refs = [(''refs/heads/main'', Inl (mem_oid 1))], m_logs = [], m_head = ''refs/heads/main''\<rparr>"

definition fresh_fs :: Fs where
  "fresh_fs = make_fs demo_inner ''0101'' ''01'' (Some ''main'') True None"

lemma fresh_get: "refdict_get mem_git fresh_mem (branches demo_inner) ''main'' = Inr fresh_fs"
  by code_simp

definition demo_scenario_batch :: Batch where
  "demo_scenario_batch = (make_batch fresh_fs \<lparr>bo_message = None, bo_operation = None, bo_parents = []\<rparr>)
     \<lparr>b_writes := scenario_writes demo_spec\<rparr>"

lemma demo_scenario_body:
  "returned (commit_body mem_git fresh_fs ''main'' (scenario_writes demo_spec) []
     (batch_message demo_scenario_batch) [] fresh_mem)"
  by code_simp

lemma demo_fixture_ok: "fixture_ok demo_spec"
proof -
  have files: "spec_files demo_spec = [''a'', ''b'', ''x'']" by code_simp
  have "split_slash ''a'' = [''a'']" "split_slash ''b'' = [''b'']" "split_slash ''x'' = [''x'']"
      "normal_path ''a''" "normal_path ''b''" "normal_path ''x''" by code_simp+
  then show ?thesis by (simp add: fixture_ok_def files path_antichain_def strict_prefix_def)
qed

lemma demo_scenario_runs: "\<exists>r'. write_scenario mem_git demo_inner ''main'' demo_spec fresh_mem = (Inr (), r')"
proof -
  obtain ch th r' where body: "commit_body mem_git fresh_fs ''main'' (scenario_writes demo_spec) []
      (batch_message demo_scenario_batch) [] fresh_mem = (Inr (ch, th), r')"
    using demo_scenario_body by (auto elim!: returnedE)
  have "require_writable fresh_fs ''write'' = Inr ''main''" by code_simp
  with body have "\<exists>fs'. commit_changes mem_git fresh_fs (scenario_writes demo_spec) []
      (batch_message demo_scenario_batch) None [] fresh_mem = (Inr fs', r')"
    by (simp add: commit_changes_def with_repo_lock_free [OF mem_lock_free])
  then obtain fs' where "commit_changes mem_git fresh_fs (scenario_writes demo_spec) []
      (batch_message demo_scenario_batch) None [] fresh_mem = (Inr fs', r')" ..
  then have "commit_batch mem_git demo_scenario_batch fresh_mem = (Inr (), r')"
    by (simp add: commit_batch_def batch_commit_def demo_scenario_batch_def make_batch_def require_open_def)
  then show ?thesis
    by (simp add: write_scenario_def fresh_get stage_scenario_Inr [OF demo_fixture_ok] sbind_def
        demo_scenario_batch_def [symmetric])
qed

lemma fresh_nodes: "p \<noteq> [] \<Longrightarrow> fs_node mem_git fresh_mem fresh_fs p = Inr None"
proof -
  assume "p \<noteq> []"
  moreover have T: "git_tree_lookup mem_git fresh_mem (mem_oid 0) = Some []" by code_simp
  moreover have "hex_to_oid mem_git ''01'' = Inr (mem_oid 0)" by code_simp
  ultimately show ?thesis
    using git_odb.tree_byname [OF memory.git_odb_axioms T]
    by (cases p) (simp_all add: fs_node_def fresh_fs_def make_fs_def node_at_def view_def require_ok_def)
qed

theorem written_scenario_checks_witness:
  "case write_scenario mem_git demo_inner ''main'' demo_spec fresh_mem of
     (Inr u, r') \<Rightarrow> check_fixture mem_git r' demo_inner demo_spec = Inr 0 | _ \<Rightarrow> False"
proof -
  from demo_scenario_runs obtain r' where run:
    "write_scenario mem_git demo_inner ''main'' demo_spec fresh_mem = (Inr (), r')" ..
  have branch: "spec_branch demo_spec = ''main''" by code_simp
  have "tree_oid_hex fresh_fs \<noteq> zero_hex" by code_simp
  then have "fs_typed mem_git fresh_mem fresh_fs" by (simp add: fs_typed_def fresh_nodes)
  moreover have "sp_commits demo_spec = None" "sp_notes demo_spec = None" by (simp_all add: demo_spec_def)
  ultimately show ?thesis
    using written_scenario_checks [OF memory.git_refdb_axioms, of demo_inner demo_spec fresh_mem r' fresh_fs]
      run branch fresh_get fresh_nodes demo_fixture_ok by simp
qed

end
