(* ===== verification/Spec2Isabelle.thy ===== *)
theory Spec2Isabelle
  imports Vost_Listing Vost_Glob Vost_Timeline Vost_Batch Vost_Writers Vost_Note_Dict Vost_Sync Vost_Disk_Memory Vost_Mirror_Memory Vost_Concurrent Vost_Typing Vost_Relocate Vost_Interop
begin

text \<open>
  vost keeps versioned files in a bare git repository. This development models the C++ library
  (\<^verbatim>\<open>cpp/src\<close>, \<^verbatim>\<open>cpp/include/vost\<close>) and the C++ interoperability tools (\<^verbatim>\<open>interop/cpp_write.cpp\<close>,
  \<^verbatim>\<open>interop/cpp_read.cpp\<close>) function by function and proves what makes each part correct.

  \<^bold>\<open>The program.\<close> \<^verbatim>\<open>GitStore::open\<close> (\<^verbatim>\<open>gitstore.cpp\<close>) opens or creates a repository and hands out
  dictionaries of branches and tags. An entry of a dictionary is a snapshot \<^verbatim>\<open>Fs\<close> (\<^verbatim>\<open>fs.cpp\<close>): the
  ids of a commit and of its tree, the name of a reference and whether writing is allowed. Reads
  go through the helpers of \<^verbatim>\<open>tree.cpp\<close>. Every write of a snapshot ends in \<^verbatim>\<open>Fs::commit_changes\<close>: it
  takes the lock of the repository (\<^verbatim>\<open>lock.cpp\<close>), compares the tip of the branch with the commit of
  the snapshot, lets \<^verbatim>\<open>tree::rebuild_tree\<close> build the new tree, writes a commit and moves the
  reference. \<^verbatim>\<open>Batch\<close> (\<^verbatim>\<open>batch.cpp\<close>) stages writes and removes for one such commit, \<^verbatim>\<open>copy.cpp\<close> plans
  them from the local disk or from another snapshot, the history operations of \<^verbatim>\<open>fs.cpp\<close> (parent,
  undo, redo, log, squash) walk commits and reference logs and move the reference by the same
  compare-and-swap. \<^verbatim>\<open>notes.cpp\<close> keeps a second kind of tree below \<^verbatim>\<open>refs/notes\<close>, \<^verbatim>\<open>mirror.cpp\<close> copies
  references to and from other repositories and bundle files and looks up credentials.

  \<^bold>\<open>How code becomes definitions.\<close> A C++ class is a record or a datatype with the fields of the
  source, a member function is a definition of the same name (with the class as a suffix or
  prefix where two classes share it). A function that may throw returns \<open>'a res\<close>, \<open>Inl\<close> an
  exception of \<^verbatim>\<open>error.h\<close> and \<open>Inr\<close> the value; one that also changes the repository is a function
  from the world to an \<open>'a res\<close> and the new world, composed with \<open>ebind\<close> and \<open>sbind\<close> of
  \<open>Vost_Prelude\<close>, so a throw after an effect keeps the effect. Integers that the source computes
  with are words of their width, \<^verbatim>\<open>char\<close> is a signed byte in the places that depend on it. The
  world \<open>'r\<close> is a type variable: libgit2, the kernel's file locking, the local file system and
  the processes that are started are records of functions on it (\<open>libgit2\<close>, \<open>posix\<close>, \<open>win32\<close>,
  \<open>disk\<close>, \<open>host\<close>, \<open>mirror_host\<close>), arguments of every definition that calls them. What is relied upon
  is documented behaviour, stated as the locales \<open>git_odb\<close>, \<open>git_refdb\<close>, \<open>git_reflogs\<close>,
  \<open>git_host\<close>, \<open>git_bundles\<close>, \<open>git_transport\<close>, \<open>local_disk\<close> and \<open>local_tree\<close>, each interpreted on an executable instance in
  memory; the witnesses of the properties run the model on it.

  \<^bold>\<open>The theories, from the bottom.\<close>

  \<^item> \<open>Vost_Prelude\<close>: results, loops over them, \<^verbatim>\<open>std::getline\<close> tokenisation, decimal numbers, maps
    kept as association lists and the generic lemmas on all of these.
  \<^item> \<open>Vost_Types\<close> (\<^verbatim>\<open>error.h\<close>, \<^verbatim>\<open>types.h\<close>): exceptions with their \<^verbatim>\<open>what()\<close> texts, modes, file types,
    options, change reports, retry policy.
  \<^item> \<open>Vost_Git\<close>: the parameters and their laws; \<open>Vost_Git_Memory\<close>: the instance in memory;
    \<open>Vost_Git_Beside\<close>: a repository inside a larger world satisfies the same laws; \<open>Vost_Demo\<close>:
    the concrete repository of the witnesses.
  \<^item> \<open>Vost_Paths\<close> (\<^verbatim>\<open>paths.cpp\<close>), \<open>Vost_Glob\<close> (\<^verbatim>\<open>glob.cpp\<close>), \<open>Vost_Disk\<close> (the use of
    \<^verbatim>\<open>std::filesystem\<close>, \<^verbatim>\<open>disk_glob\<close>), \<open>Vost_Lock\<close> (\<^verbatim>\<open>lock.cpp\<close>, \<^verbatim>\<open>retry_write\<close> of \<^verbatim>\<open>vost.h\<close>).
  \<^item> \<open>Vost_Tree\<close> (\<^verbatim>\<open>tree.cpp\<close>) with \<open>Vost_Rebuild\<close> (the two-pass rebuild implements a path-by-path
    update, interface \<open>tree_store\<close>) and \<open>Vost_Listing\<close> (lookups, walks and listings).
  \<^item> \<open>Vost_Fs\<close> (\<^verbatim>\<open>fs.cpp\<close>: reads, writes, \<^verbatim>\<open>commit_changes\<close>, move, writers) with \<open>Vost_Commit\<close>
    (atomicity, what a commit leaves), \<open>Vost_Globbing\<close> (\<^verbatim>\<open>iglob\<close>), \<open>Vost_Typing\<close> (modes and objects
    agree), \<open>Vost_Moves\<close> (rename and \<^verbatim>\<open>copy_from_ref\<close>), \<open>Vost_Relocate\<close> (move and remove), \<open>Vost_Writers\<close> (buffered writers);
    \<open>Vost_History\<close> with \<open>Vost_Timeline\<close> (parent, undo, redo, log, squash).
  \<^item> \<open>Vost_Batch\<close> (\<^verbatim>\<open>batch.cpp\<close>, interface \<open>staging\<close>, also provided by the batch of notes).
  \<^item> \<open>Vost_GitStore\<close> (\<^verbatim>\<open>gitstore.cpp\<close>; branches and tags provide the interface \<open>key_store\<close>).
  \<^item> \<open>Vost_Notes\<close> with \<open>Vost_Note_Dict\<close> (\<^verbatim>\<open>notes.cpp\<close>; a namespace provides \<open>key_store\<close> too).
  \<^item> \<open>Vost_Copy\<close> (\<^verbatim>\<open>copy.cpp\<close>, the exclude filter included) with \<open>Vost_Sync\<close> (\<^verbatim>\<open>sync_in\<close>, \<^verbatim>\<open>copy_in\<close>)
    and \<open>Vost_Disk_Out\<close> (\<^verbatim>\<open>copy_out\<close>, \<^verbatim>\<open>sync_out\<close>; instance of the disk in \<open>Vost_Disk_Memory\<close>).
  \<^item> \<open>Vost_Mirror\<close> (\<^verbatim>\<open>mirror.cpp\<close>) with \<open>Vost_Transport\<close> (backup, restore, credentials),
    \<open>Vost_Bundle\<close> (bundle files) and \<open>Vost_Mirror_Memory\<close> (their instance in memory).
  \<^item> \<open>Vost_Concurrent\<close>: runs of operations of several processes on one repository.
  \<^item> \<open>Vost_Interop\<close>: the two interoperability tools on top of everything else.

  \<^bold>\<open>What is shown.\<close> C1 to C8 are the core: the rebuilt tree is the old one with the writes and
  removes applied path by path, a commit is atomic, interleaved commits of several processes are
  serializable, snapshots never change, a stale snapshot writes nothing, texts are read back, and
  what the writer of the interoperability tests writes passes every check of the reader. The
  other properties take the components in turn: batch and writers, retry, typing of snapshots,
  undo, redo and log, listing, walking and globbing, paths and patterns, the dictionaries of
  references and notes, synchronisation and export to disk, rename, move, remove and copy between
  snapshots, bundles, backup and restore, opening a store, partial reads, credentials, encodings, and locking. Properties
  stand in the theory of the part they are about; each with a hypothesis has a witness on the
  repository in memory.

  \<^bold>\<open>Recursion, fuel and bounds.\<close> Loops over lists are structural and loops over text decrease a
  measure (\<^verbatim>\<open>getline\<close>, \<^verbatim>\<open>fnmatch\<close>). Where the source recurses over trees or history the bound comes
  from the store, since objects are immutable and their references acyclic: \<open>git_tree_depth\<close> and
  \<open>git_commit_depth\<close> are functions of the parameter whose laws say that a subtree and a parent
  are smaller. \<open>rebuild_tree\<close> uses the length of the longest path and one more,
  \<open>walk_tree_dirs\<close> the depth of the tree and one more, \<open>iglob\<close> the number of segments and the
  depth and one more, \<open>log\<close> and \<open>count_commits\<close> the depth of the commit and two more;
  C14, C16, C17 and the lemmas \<open>walk_tree_dirs_files\<close> of \<open>Vost_Listing\<close> and
  \<open>count_commits_history\<close> of \<open>Vost_Interop\<close> prove these enough: running out of fuel is
  not a possible outcome. \<open>disk_glob\<close> takes the nesting of the directory from the parameter.
  The waiting loops of \<open>with_repo_lock\<close> are \<open>partial_function\<close>s, and C39 proves that the deadline of
  30 seconds ends them; \<open>retry_write\<close> makes six attempts by the structure of its loop. Partial reads
  compute with 64-bit words (C35).

  \<^bold>\<open>Not modelled.\<close> libgit2, zlib, the kernel and \<^verbatim>\<open>std::filesystem\<close> are parameters; the exceptions
  that \<^verbatim>\<open>std::filesystem\<close> itself may throw on I/O errors are outside the model, as is running out
  of memory. The network protocol, the pack builder and the indexer are calls of libgit2. The
  \<^verbatim>\<open>std::mutex\<close> of the store serialises the threads of one process; each operation of the model is
  one function of the world, so it has no counterpart, and interleavings are taken at the
  granularity of the repository lock. Of the interoperability tools, the loops of the two main
  functions over several repositories, the JSON parser (\<^verbatim>\<open>json.hpp\<close>, a third-party header), temporary
  directories and the printed lines are left out. The tests have no logic of their own and the ports of
  the library to other languages are separate programs.

  \<^bold>\<open>Where code and documentation differ.\<close> The model follows the code. Lemmas
  \<open>existing_dest_not_found\<close> of \<open>Vost_Sync\<close> and \<open>notes_lost_update\<close> of \<open>Vost_Note_Dict\<close> show two
  consequences that users of the library may not expect: synchronising into an existing
  directory throws, and an update of a namespace of notes between reading it and taking the lock
  is lost.
\<close>

end
